(* ===== verification/Yfs_Prelude.thy ===== *)
theory Yfs_Prelude
  imports Main "HOL-Library.Word"
begin

text \<open>
  Shared types and lemmas of the development: machine integers and byte strings, the
  outcome of an operation that may end the process or run into undefined behaviour,
  little-endian layout of integers in a byte buffer, slices of byte lists, and the
  interface \<open>struct_codec\<close> of a value stored in a fixed number of bytes.
\<close>

unbundle bit_operations_syntax

named_theorems layout_simps "facts about the byte layout of structures"

section \<open>Machine types\<close>

type_synonym byte = "8 word"
type_synonym u16 = "16 word"
type_synonym u32 = "32 word"
type_synonym u64 = "64 word"
type_synonym bytes = "byte list"

text \<open>
  The results of the successive calls of \<open>time(0)\<close> made while one operation runs:
  \<open>clk k\<close> is what the \<open>k\<close>-th call returns.
\<close>

type_synonym clock = "nat \<Rightarrow> u32"

section \<open>Outcomes\<close>

text \<open>
  What stops an operation before it returns: a call of \<open>exit\<close>, or a step whose
  behaviour C++ leaves undefined (a null pointer dereference, a use of deleted memory, an
  array access out of bounds, a read of memory that was never written).
\<close>

datatype fault = Exit | Null_Deref | Dangling | Out_Of_Bounds | Uninitialised

type_synonym 'a res = "fault + 'a"

fun bind_res :: "'a res \<Rightarrow> ('a \<Rightarrow> 'b res) \<Rightarrow> 'b res" where
  "bind_res (Inl e) f = Inl e"
| "bind_res (Inr x) f = f x"

lemma bind_res_Inr_iff:
  "bind_res m f = Inr y \<longleftrightarrow> (\<exists>x. m = Inr x \<and> f x = Inr y)"
  by (cases m) auto

lemma bind_res_InrE:
  assumes "bind_res m f = Inr y"
  obtains x where "m = Inr x" and "f x = Inr y"
  using assms by (auto simp: bind_res_Inr_iff)

lemma bind_res_assoc: "bind_res (bind_res m f) g = bind_res m (\<lambda>x. bind_res (f x) g)"
  by (cases m) auto

text \<open>A \<open>for\<close> loop over the indices of a list whose body may stop.\<close>

fun for_each :: "('a \<Rightarrow> 's \<Rightarrow> 's res) \<Rightarrow> 'a list \<Rightarrow> 's \<Rightarrow> 's res" where
  "for_each body [] s = Inr s"
| "for_each body (x # xs) s = bind_res (body x s) (for_each body xs)"

lemma for_each_append:
  "for_each body (xs @ ys) s = bind_res (for_each body xs s) (for_each body ys)"
proof (induction xs arbitrary: s)
  case Nil
  show ?case by simp
next
  case (Cons x xs)
  show ?case by (cases "body x s") (simp_all add: Cons.IH)
qed

lemma bind_res_Inr_right [simp]: "bind_res m Inr = m"
  by (cases m) simp_all

lemma for_each_Nil_fun [simp]: "for_each body [] = Inr"
  by (simp add: fun_eq_iff)

lemma for_each_snoc: "for_each body (xs @ [x]) s = bind_res (for_each body xs s) (body x)"
  by (cases "for_each body xs s") (simp_all add: for_each_append)

lemma for_each_upt_Suc:
  "a \<le> k \<Longrightarrow> for_each body [a..<Suc k] s = bind_res (for_each body [a..<k] s) (body k)"
  by (simp add: for_each_snoc)

lemma for_each_invariant:
  assumes "for_each body xs s = Inr s'" and "P s"
    and "\<And>x s s'. x \<in> set xs \<Longrightarrow> P s \<Longrightarrow> body x s = Inr s' \<Longrightarrow> P s'"
  shows "P s'"
  using assms
proof (induction xs arbitrary: s)
  case Nil
  then show ?case by simp
next
  case (Cons x xs)
  from Cons.prems(1) obtain s1 where s1: "body x s = Inr s1" "for_each body xs s1 = Inr s'"
    by (auto elim: bind_res_InrE)
  have "P s1" using Cons.prems(2,3) s1(1) by (metis list.set_intros(1))
  then show ?case using Cons.IH [OF s1(2)] Cons.prems(3) by (metis list.set_intros(2))
qed

section \<open>Little-endian integers\<close>

fun le_encode :: "nat \<Rightarrow> 'a::len word \<Rightarrow> bytes" where
  "le_encode 0 w = []"
| "le_encode (Suc n) w = ucast w # le_encode n (drop_bit 8 w)"

fun le_decode :: "bytes \<Rightarrow> 'a::len word" where
  "le_decode [] = 0"
| "le_decode (b # bs) = ucast b OR push_bit 8 (le_decode bs)"

lemma length_le_encode [simp, layout_simps]: "length (le_encode n w) = n"
  by (induction n arbitrary: w) simp_all

lemma bit_le_decode_encode:
  fixes w :: "'a::len word"
  shows "bit (le_decode (le_encode n w) :: 'a word) k \<longleftrightarrow> k < 8 * n \<and> bit w k"
proof (induction n arbitrary: w k)
  case 0
  then show ?case by simp
next
  case (Suc n)
  show ?case
  proof (cases "k < 8")
    case True
    then show ?thesis
      by (auto simp: bit_simps bit_or_iff dest: bit_imp_le_length)
  next
    case False
    then have "bit (le_decode (le_encode (Suc n) w) :: 'a word) k \<longleftrightarrow>
        k < LENGTH('a) \<and> bit (le_decode (le_encode n (drop_bit 8 w)) :: 'a word) (k - 8)"
      by (auto simp: bit_simps bit_or_iff dest: bit_imp_le_length)
    also have "\<dots> \<longleftrightarrow> k < LENGTH('a) \<and> k - 8 < 8 * n \<and> bit w k"
      using False by (auto simp: Suc.IH bit_simps)
    finally show ?thesis using False by (auto dest: bit_imp_le_length)
  qed
qed

lemma le_decode_encode [simp]:
  fixes w :: "'a::len word"
  assumes "LENGTH('a) \<le> 8 * n"
  shows "(le_decode (le_encode n w) :: 'a word) = w"
proof (rule bit_word_eqI)
  fix k assume "k < LENGTH('a)"
  with assms show "bit (le_decode (le_encode n w) :: 'a word) k \<longleftrightarrow> bit w k"
    by (simp add: bit_le_decode_encode)
qed

section \<open>Slices of a byte list\<close>

definition slice_at :: "nat \<Rightarrow> nat \<Rightarrow> 'a list \<Rightarrow> 'a list" where
  "slice_at off n xs = take n (drop off xs)"

definition splice_at :: "nat \<Rightarrow> 'a list \<Rightarrow> 'a list \<Rightarrow> 'a list" where
  "splice_at off new xs = take off xs @ new @ drop (off + length new) xs"

lemma length_splice_at [simp, layout_simps]:
  "off + length new \<le> length xs \<Longrightarrow> length (splice_at off new xs) = length xs"
  by (simp add: splice_at_def)

lemma slice_splice_same [layout_simps]:
  "off \<le> length xs \<Longrightarrow> slice_at off (length new) (splice_at off new xs) = new"
  by (simp add: slice_at_def splice_at_def)

lemma slice_splice_other:
  assumes "off + length new \<le> length xs"
    and "off' + n \<le> off \<or> off + length new \<le> off'"
  shows "slice_at off' n (splice_at off new xs) = slice_at off' n xs"
proof (rule nth_equalityI)
  show len: "length (slice_at off' n (splice_at off new xs)) = length (slice_at off' n xs)"
    using assms(1) by (simp add: slice_at_def)
  fix i assume "i < length (slice_at off' n (splice_at off new xs))"
  then have i: "i < n" "off' + i < length xs" using len by (auto simp: slice_at_def)
  have "splice_at off new xs ! (off' + i) = xs ! (off' + i)"
    using assms i by (auto simp: splice_at_def nth_append)
  then show "slice_at off' n (splice_at off new xs) ! i = slice_at off' n xs ! i"
    using i assms(1) by (simp add: slice_at_def)
qed

text \<open>The elements of an array of 32-bit integers laid out in a byte buffer.\<close>

definition get_u32 :: "bytes \<Rightarrow> nat \<Rightarrow> u32" where
  "get_u32 buf k = le_decode (slice_at (4 * k) 4 buf)"

definition put_u32 :: "bytes \<Rightarrow> nat \<Rightarrow> u32 \<Rightarrow> bytes" where
  "put_u32 buf k w = splice_at (4 * k) (le_encode 4 w) buf"

lemma length_put_u32 [simp, layout_simps]:
  "4 * k + 4 \<le> length buf \<Longrightarrow> length (put_u32 buf k w) = length buf"
  by (simp add: put_u32_def)

lemma get_put_u32 [layout_simps]:
  assumes "4 * k + 4 \<le> length buf" and "4 * j + 4 \<le> length buf"
  shows "get_u32 (put_u32 buf k w) j = (if j = k then w else get_u32 buf j)"
proof (cases "j = k")
  case True
  have "slice_at (4 * k) 4 (splice_at (4 * k) (le_encode 4 w) buf) = le_encode 4 w"
    using slice_splice_same [of "4 * k" buf "le_encode 4 w"] assms(1) by simp
  with True show ?thesis by (simp add: get_u32_def put_u32_def)
next
  case False
  then have "4 * j + 4 \<le> 4 * k \<or> 4 * k + 4 \<le> 4 * j" by linarith
  with False assms show ?thesis
    by (simp add: get_u32_def put_u32_def slice_splice_other)
qed

section \<open>Structures in a buffer\<close>

text \<open>
  A structure of a fixed size in bytes, written over the start of a buffer by assignment
  through a cast pointer and read back the same way.
\<close>

locale struct_codec =
  fixes enc :: "'a \<Rightarrow> bytes" and dec :: "bytes \<Rightarrow> 'a"
    and width :: nat and valid :: "'a \<Rightarrow> bool"
  assumes enc_length: "valid x \<Longrightarrow> length (enc x) = width"
    and dec_enc: "valid x \<Longrightarrow> dec (enc x @ rest) = x"
begin

lemma dec_splice: "valid x \<Longrightarrow> dec (splice_at 0 (enc x) buf) = x"
  by (simp add: splice_at_def dec_enc)

lemma length_store: "valid x \<Longrightarrow> width \<le> length buf \<Longrightarrow>
    length (splice_at 0 (enc x) buf) = length buf"
  by (simp add: enc_length)

lemma enc_inject: "valid x \<Longrightarrow> valid y \<Longrightarrow> enc x = enc y \<longleftrightarrow> x = y"
  by (metis dec_enc)

end

lemma le_decode_take [layout_simps]: "le_decode (take 4 (le_encode 4 (w::u32) @ rest)) = w"
proof -
  have "take 4 (le_encode 4 w @ rest) = le_encode 4 w"
    by (simp only: take_append length_le_encode) (simp only: take_all length_le_encode, simp)
  then show ?thesis by simp
qed

interpretation le32: struct_codec "le_encode 4 :: u32 \<Rightarrow> bytes" "\<lambda>bs. le_decode (take 4 bs)" 4 "\<lambda>_. True"
  by (unfold_locales; simp only: length_le_encode le_decode_take)

section \<open>Allocators\<close>

text \<open>
  The contract the block allocator and the inode allocator share: an allocation returns
  an item that was not in use, and that item is the only one whose status changes.
\<close>

locale allocator =
  fixes alloc :: "'s \<Rightarrow> ('b \<times> 's) res" and used :: "'s \<Rightarrow> 'b set" and inv :: "'s \<Rightarrow> bool"
  assumes alloc_fresh: "inv s \<Longrightarrow> alloc s = Inr (b, s') \<Longrightarrow> b \<notin> used s"
    and alloc_used: "inv s \<Longrightarrow> alloc s = Inr (b, s') \<Longrightarrow> used s' = insert b (used s)"
    and alloc_inv: "inv s \<Longrightarrow> alloc s = Inr (b, s') \<Longrightarrow> inv s'"
begin

fun alloc_many :: "nat \<Rightarrow> 's \<Rightarrow> ('b list \<times> 's) res" where
  "alloc_many 0 s = Inr ([], s)"
| "alloc_many (Suc n) s =
     bind_res (alloc s) (\<lambda>(b, s1). bind_res (alloc_many n s1) (\<lambda>(bs, s2). Inr (b # bs, s2)))"

lemma alloc_many_spec:
  assumes "inv s" and "alloc_many n s = Inr (bs, s')"
  shows "inv s' \<and> length bs = n \<and> distinct bs \<and> set bs \<inter> used s = {} \<and>
    used s' = used s \<union> set bs"
  using assms
proof (induction n arbitrary: s bs)
  case 0
  then show ?case by simp
next
  case (Suc n)
  from Suc.prems(2) obtain b s1 bs1 where step: "alloc s = Inr (b, s1)"
    "alloc_many n s1 = Inr (bs1, s')" "bs = b # bs1"
    by (auto elim!: bind_res_InrE)
  note IH = Suc.IH [OF alloc_inv [OF Suc.prems(1) step(1)] step(2)]
  show ?case
    using IH step(3) alloc_fresh [OF Suc.prems(1) step(1)] alloc_used [OF Suc.prems(1) step(1)]
    by auto
qed

lemma alloc_twice_distinct:
  assumes "inv s" and "alloc s = Inr (a, s1)" and "alloc s1 = Inr (b, s2)"
  shows "a \<noteq> b"
  using alloc_used [OF assms(1,2)] alloc_fresh [OF alloc_inv [OF assms(1,2)] assms(3)] by auto

end

end
