(* ===== verification/Block_Manager.thy ===== *)
theory Block_Manager
  imports Yfs_Prelude
begin

text \<open>
  The disk and block layers of \<^verbatim>\<open>inode_manager.h\<close> and \<^verbatim>\<open>inode_manager.cc\<close>: the array
  of blocks with its checked accesses, the superblock, and the next-fit block allocator.
  The block allocator is an instance of the interface \<open>allocator\<close>.
\<close>

section \<open>Constants and address arithmetic\<close>

definition DISK_SIZE :: nat where "DISK_SIZE = 1024 * 1024 * 16"
definition BLOCK_SIZE :: nat where [simp]: "BLOCK_SIZE = 512"
definition BLOCK_NUM :: nat where "BLOCK_NUM = DISK_SIZE div BLOCK_SIZE"
definition INODE_NUM :: nat where [simp]: "INODE_NUM = 1024"
definition IPB :: nat where [simp]: "IPB = 1"
definition BPB :: nat where [simp]: "BPB = BLOCK_SIZE * 8"

lemma BLOCK_NUM_eq [simp]: "BLOCK_NUM = 32768"
  by (simp add: BLOCK_NUM_def DISK_SIZE_def)

definition IBLOCK :: "u32 \<Rightarrow> u32 \<Rightarrow> u32" where
  "IBLOCK i nblocks = nblocks div of_nat BPB + i div of_nat IPB + 3"

text \<open>The first block after the inode table.\<close>

definition data_start :: "u32 \<Rightarrow> u32" where
  "data_start nblocks = IBLOCK (of_nat INODE_NUM) nblocks + 1"

lemma data_start_formatted [simp]: "data_start 32768 = 1036"
  by (simp add: data_start_def IBLOCK_def)

lemma unat_IBLOCK [simp]:
  assumes "unat i \<le> 1024"
  shows "unat (IBLOCK i 32768) = unat i + 11"
proof -
  have "(32768 :: u32) div 4096 = 8" by simp
  then show ?thesis
    using assms by (simp add: IBLOCK_def unat_word_ariths)
qed

section \<open>Disk layer\<close>

type_synonym block = bytes
type_synonym blockid = u32

text \<open>
  A character buffer handed to the disk layer: the null pointer, a local array nobody has
  written yet, or an array with known contents.
\<close>

datatype cbuf = Null | Indeterminate | Buffer block

text \<open>The buffer a caller can use after the call; reading a buffer that was never written is a fault.\<close>

fun buf_contents :: "cbuf \<Rightarrow> block res" where
  "buf_contents Null = Inl Null_Deref"
| "buf_contents Indeterminate = Inl Uninitialised"
| "buf_contents (Buffer b) = Inr b"

record disk =
  blocks :: "blockid \<Rightarrow> block"

definition disk_ctor :: disk where
  "disk_ctor = \<lparr>blocks = (\<lambda>_. replicate BLOCK_SIZE 0)\<rparr>"

definition is_blockrw_legal :: "blockid \<Rightarrow> cbuf \<Rightarrow> bool" where
  "is_blockrw_legal bid buf = (\<not> (bid < 0 \<or> of_nat BLOCK_NUM \<le> bid \<or> buf = Null))"

definition disk_read_block :: "disk \<Rightarrow> blockid \<Rightarrow> cbuf \<Rightarrow> cbuf" where
  "disk_read_block dk bid buf =
     (if is_blockrw_legal bid buf then Buffer (blocks dk bid) else buf)"

definition disk_write_block :: "disk \<Rightarrow> blockid \<Rightarrow> cbuf \<Rightarrow> disk res" where
  "disk_write_block dk bid buf =
     (if is_blockrw_legal bid buf
      then bind_res (buf_contents buf) (\<lambda>b.
             if length b < BLOCK_SIZE then Inl Out_Of_Bounds
             else Inr (dk\<lparr>blocks := (blocks dk)(bid := take BLOCK_SIZE b)\<rparr>))
      else Inr dk)"

section \<open>Block layer\<close>

record superblock =
  sb_size :: u32
  sb_nblocks :: u32
  sb_ninodes :: u32

text \<open>
  \<open>using_blocks\<close> is the map from block numbers to the used flag; a key that was never
  written reads as 0, which is what \<open>operator[]\<close> inserts.
\<close>

record block_manager =
  next_block :: blockid
  dsk :: disk
  using_blocks :: "blockid \<Rightarrow> int"
  sb :: superblock

text \<open>
  The constructor computes \<open>next_block\<close> from \<open>sb.nblocks\<close> before it assigns \<open>sb\<close>; the
  argument \<open>raw\<close> is the indeterminate superblock found in the memory of the new object.
\<close>

definition block_manager_ctor :: "superblock \<Rightarrow> block_manager" where
  "block_manager_ctor raw =
     (let bm = \<lparr>next_block = IBLOCK (of_nat INODE_NUM) (sb_nblocks raw) + 1, dsk = disk_ctor,
                using_blocks = (\<lambda>_. 0), sb = raw\<rparr>
      in bm\<lparr>sb := \<lparr>sb_size = of_nat (BLOCK_SIZE * BLOCK_NUM), sb_nblocks = of_nat BLOCK_NUM,
                   sb_ninodes = of_nat INODE_NUM\<rparr>\<rparr>)"

text \<open>The loop of \<open>find_fit_block\<close>; the result \<open>-1\<close> is the unsigned value the caller compares.\<close>

function find_fit_block :: "block_manager \<Rightarrow> blockid \<Rightarrow> blockid \<Rightarrow> blockid \<Rightarrow> blockid \<times> block_manager" where
  "find_fit_block bm hover bound start =
     (if hover < bound then
        (if using_blocks bm hover = 0 then
           (hover, bm\<lparr>using_blocks := (using_blocks bm)(hover := 1),
                      next_block := (if hover + 1 = of_nat BLOCK_NUM then start else hover + 1)\<rparr>)
         else find_fit_block bm (hover + 1) bound start)
      else (- 1, bm))"
  by pat_completeness auto
termination
  by (relation "measure (\<lambda>(bm, hover, bound, start). unat bound - unat hover)") (auto, unat_arith)

declare find_fit_block.simps [simp del]

definition alloc_block :: "block_manager \<Rightarrow> (blockid \<times> block_manager) res" where
  "alloc_block bm =
     (let start = IBLOCK (of_nat INODE_NUM) (sb_nblocks (sb bm)) + 1;
          (res1, bm1) = find_fit_block bm (next_block bm) (of_nat BLOCK_NUM) start
      in if res1 \<noteq> - 1 then Inr (res1, bm1)
         else (let (res2, bm2) = find_fit_block bm1 start (next_block bm1) start
               in if res2 \<noteq> - 1 then Inr (res2, bm2) else Inl Exit))"

definition free_block :: "block_manager \<Rightarrow> blockid \<Rightarrow> block_manager" where
  "free_block bm bid = bm\<lparr>using_blocks := (using_blocks bm)(bid := 0)\<rparr>"

definition read_block :: "block_manager \<Rightarrow> blockid \<Rightarrow> cbuf \<Rightarrow> cbuf" where
  "read_block bm bid buf = disk_read_block (dsk bm) bid buf"

definition write_block :: "block_manager \<Rightarrow> blockid \<Rightarrow> cbuf \<Rightarrow> block_manager res" where
  "write_block bm bid buf =
     bind_res (disk_write_block (dsk bm) bid buf) (\<lambda>dk. Inr (bm\<lparr>dsk := dk\<rparr>))"

section \<open>Well-formedness\<close>

text \<open>
  What the code relies on once the disk is formatted: the superblock holds the real number
  of blocks, every block has its full size, and the allocation cursor is in the data region.
\<close>

definition bm_wf :: "block_manager \<Rightarrow> bool" where
  "bm_wf bm \<longleftrightarrow> sb_nblocks (sb bm) = of_nat BLOCK_NUM
     \<and> (\<forall>b. length (blocks (dsk bm) b) = BLOCK_SIZE)
     \<and> data_start (sb_nblocks (sb bm)) \<le> next_block bm \<and> next_block bm \<le> of_nat BLOCK_NUM"

definition used_blocks :: "block_manager \<Rightarrow> blockid set" where
  "used_blocks bm = {b. using_blocks bm b \<noteq> 0}"

definition is_data_block :: "blockid \<Rightarrow> bool" where
  "is_data_block b \<longleftrightarrow> 1036 \<le> b \<and> b < 32768"

lemma bm_wfD [dest]:
  assumes "bm_wf bm"
  shows "sb_nblocks (sb bm) = 32768" "length (blocks (dsk bm) b) = 512"
    "1036 \<le> next_block bm" "next_block bm \<le> 32768"
  using assms by (auto simp: bm_wf_def)

section \<open>The allocator\<close>

lemma word_less_Suc_bound:
  fixes h b :: u32
  assumes "h < b"
  shows "unat (h + 1) = Suc (unat h)" and "b - 1 < b" and "h < h + 1"
proof -
  show "unat (h + 1) = Suc (unat h)" using assms by unat_arith
  show "b - 1 < b" using assms by unat_arith
  show "h < h + 1" using assms by unat_arith
qed

lemma find_fit_block_spec:
  assumes "find_fit_block bm hover bound start = (r, bm')" and "bound \<le> 32768"
  shows "(r = - 1 \<and> bm' = bm \<and> (\<forall>b. hover \<le> b \<and> b < bound \<longrightarrow> using_blocks bm b \<noteq> 0)) \<or>
     (r \<noteq> - 1 \<and> hover \<le> r \<and> r < bound \<and> using_blocks bm r = 0 \<and>
      bm' = bm\<lparr>using_blocks := (using_blocks bm)(r := 1),
               next_block := (if r + 1 = 32768 then start else r + 1)\<rparr>)"
  using assms
proof (induction bm hover bound start rule: find_fit_block.induct)
  case (1 bm hover bound start)
  show ?case
  proof (cases "hover < bound")
    case False
    with "1.prems" show ?thesis by (auto simp: find_fit_block.simps [of bm hover])
  next
    case True
    have nm: "hover \<noteq> - 1"
      using True "1.prems"(2) by auto
    show ?thesis
    proof (cases "using_blocks bm hover = 0")
      case True
      have "(hover, bm\<lparr>using_blocks := (using_blocks bm)(hover := 1),
          next_block := (if hover + 1 = of_nat BLOCK_NUM then start else hover + 1)\<rparr>) = (r, bm')"
        using \<open>hover < bound\<close> True "1.prems"(1) by (simp only: find_fit_block.simps [of bm hover] if_True simp_thms)
      then have "r = hover" and "bm' = bm\<lparr>using_blocks := (using_blocks bm)(r := 1),
          next_block := (if r + 1 = 32768 then start else r + 1)\<rparr>"
        by (auto simp only: prod.inject BLOCK_NUM_eq of_nat_numeral)
      with \<open>hover < bound\<close> True nm show ?thesis by blast
    next
      case False
      have rec: "find_fit_block bm (hover + 1) bound start = (r, bm')"
        using "1.prems"(1) True False by (simp add: find_fit_block.simps [of bm hover])
      have split: "\<And>b. hover \<le> b \<Longrightarrow> b = hover \<or> hover + 1 \<le> b"
        by unat_arith
      have up: "\<And>b. hover + 1 \<le> b \<Longrightarrow> hover \<le> b"
        using word_less_Suc_bound(3) [OF True] by (meson less_imp_le order_trans)
      from "1.IH" [OF True False rec "1.prems"(2)] show ?thesis
        using False split up by metis
    qed
  qed
qed

lemma alloc_block_Inr:
  assumes wf: "bm_wf bm" and run: "alloc_block bm = Inr (b, bm')"
  shows "is_data_block b" and "using_blocks bm b = 0"
    and "bm' = bm\<lparr>using_blocks := (using_blocks bm)(b := 1),
                  next_block := (if b + 1 = 32768 then 1036 else b + 1)\<rparr>"
proof -
  obtain r1 bm1 where f1: "find_fit_block bm (next_block bm) 32768 1036 = (r1, bm1)"
    by fastforce
  obtain r2 bm2 where f2: "find_fit_block bm1 1036 (next_block bm1) 1036 = (r2, bm2)"
    by fastforce
  note start = bm_wfD [OF wf] data_start_formatted [unfolded data_start_def]
  have run': "(if r1 \<noteq> - 1 then Inr (r1, bm1)
      else if r2 \<noteq> - 1 then Inr (r2, bm2) else Inl Exit) = Inr (b, bm')"
    using run f1 f2 start by (cases "r1 = - 1") (simp_all add: alloc_block_def)
  note s1 = find_fit_block_spec [OF f1]
  show "is_data_block b" "using_blocks bm b = 0"
    "bm' = bm\<lparr>using_blocks := (using_blocks bm)(b := 1),
              next_block := (if b + 1 = 32768 then 1036 else b + 1)\<rparr>"
    using run' s1 find_fit_block_spec [OF f2] start
    by (auto simp: is_data_block_def split: if_splits)
qed

lemma is_data_block_bounds [dest]:
  assumes "is_data_block b"
  shows "1036 \<le> b" "b < 32768" "b + 1 \<le> 32768" "1036 \<le> b + 1"
proof -
  show lo: "1036 \<le> b" and hi: "b < 32768" using assms by (auto simp: is_data_block_def)
  show "b + 1 \<le> 32768" using hi by (rule inc_le)
  show "1036 \<le> b + 1" using lo word_less_Suc_bound(3) [OF hi] by auto
qed

lemma alloc_block_wf:
  assumes wf: "bm_wf bm" and run: "alloc_block bm = Inr (b, bm')"
  shows "bm_wf bm'"
proof -
  note step = alloc_block_Inr [OF wf run]
  have "1036 \<le> next_block bm'" "next_block bm' \<le> 32768"
    using is_data_block_bounds [OF step(1)] by (simp_all add: step(3))
  then show ?thesis using bm_wfD [OF wf] by (simp add: bm_wf_def step(3))
qed

text \<open>
  The two loops of \<open>alloc_block\<close>, next fit from the cursor and first fit up to it, cover
  the whole data region: the process exits only when no data block is free.
\<close>

lemma alloc_block_Inl:
  assumes wf: "bm_wf bm"
  shows "alloc_block bm = Inl e \<longleftrightarrow>
    e = Exit \<and> (\<forall>b. is_data_block b \<longrightarrow> using_blocks bm b \<noteq> 0)"
proof
  assume fail: "alloc_block bm = Inl e"
  obtain r1 bm1 where f1: "find_fit_block bm (next_block bm) 32768 1036 = (r1, bm1)"
    by fastforce
  obtain r2 bm2 where f2: "find_fit_block bm1 1036 (next_block bm1) 1036 = (r2, bm2)"
    by fastforce
  note start = bm_wfD [OF wf] data_start_formatted [unfolded data_start_def]
  have res: "r1 = - 1 \<and> r2 = - 1 \<and> e = Exit"
    using fail f1 f2 start
    by (cases "r1 = - 1"; cases "r2 = - 1") (simp_all add: alloc_block_def)
  have bm1: "bm1 = bm" using find_fit_block_spec [OF f1] res by auto
  have hi: "\<And>b. next_block bm \<le> b \<Longrightarrow> b < 32768 \<Longrightarrow> using_blocks bm b \<noteq> 0"
    using find_fit_block_spec [OF f1] res by auto
  have lo: "\<And>b. 1036 \<le> b \<Longrightarrow> b < next_block bm \<Longrightarrow> using_blocks bm b \<noteq> 0"
    using find_fit_block_spec [OF f2] res bm1 start by auto
  show "e = Exit \<and> (\<forall>b. is_data_block b \<longrightarrow> using_blocks bm b \<noteq> 0)"
    using res hi lo by (metis is_data_block_def linorder_not_le)
next
  assume full: "e = Exit \<and> (\<forall>b. is_data_block b \<longrightarrow> using_blocks bm b \<noteq> 0)"
  show "alloc_block bm = Inl e"
  proof (cases "alloc_block bm")
    case (Inr p)
    then obtain b bm' where "alloc_block bm = Inr (b, bm')" by (cases p) auto
    from alloc_block_Inr [OF wf this] full show ?thesis by auto
  next
    case (Inl e')
    then show ?thesis using full
      by (auto simp: alloc_block_def Let_def split: if_splits prod.splits)
  qed
qed

lemma alloc_block_frame:
  assumes "bm_wf bm" and "alloc_block bm = Inr (b, bm')"
  shows "dsk bm' = dsk bm" "sb bm' = sb bm" "used_blocks bm' = insert b (used_blocks bm)"
    "b \<notin> used_blocks bm"
  using alloc_block_Inr [OF assms] by (auto simp: used_blocks_def)

interpretation blk: allocator alloc_block used_blocks bm_wf
  by unfold_locales (fact alloc_block_frame(4) alloc_block_frame(3) alloc_block_wf)+

section \<open>Reading, writing, freeing\<close>

lemma is_blockrw_legal_Buffer [simp]: "is_blockrw_legal b (Buffer c) \<longleftrightarrow> b < 32768"
  by (auto simp: is_blockrw_legal_def)

lemma is_blockrw_legal_Indeterminate [simp]: "is_blockrw_legal b Indeterminate \<longleftrightarrow> b < 32768"
  by (auto simp: is_blockrw_legal_def)

lemma read_block_legal [simp]:
  "b < 32768 \<Longrightarrow> read_block bm b Indeterminate = Buffer (blocks (dsk bm) b)"
  by (simp add: read_block_def disk_read_block_def)

definition set_block :: "blockid \<Rightarrow> block \<Rightarrow> block_manager \<Rightarrow> block_manager" where
  "set_block b c bm = bm\<lparr>dsk := (dsk bm)\<lparr>blocks := (blocks (dsk bm))(b := c)\<rparr>\<rparr>"

lemma set_block_simps [simp]:
  "next_block (set_block b c bm) = next_block bm" "sb (set_block b c bm) = sb bm"
  "using_blocks (set_block b c bm) = using_blocks bm"
  "used_blocks (set_block b c bm) = used_blocks bm"
  "blocks (dsk (set_block b c bm)) = (blocks (dsk bm))(b := c)"
  by (simp_all add: set_block_def used_blocks_def)

lemma write_block_legal:
  "b < 32768 \<Longrightarrow> length c = 512 \<Longrightarrow> write_block bm b (Buffer c) = Inr (set_block b c bm)"
  by (simp add: write_block_def disk_write_block_def set_block_def)

lemma write_block_illegal:
  "\<not> b < 32768 \<Longrightarrow> write_block bm b (Buffer c) = Inr bm"
  by (simp add: write_block_def disk_write_block_def)

lemma set_block_wf: "bm_wf bm \<Longrightarrow> length c = 512 \<Longrightarrow> bm_wf (set_block b c bm)"
  by (auto simp: bm_wf_def)

lemma free_block_wf: "bm_wf bm \<Longrightarrow> bm_wf (free_block bm b)"
  by (auto simp: bm_wf_def free_block_def)

lemma free_block_simps [simp]:
  "dsk (free_block bm b) = dsk bm" "sb (free_block bm b) = sb bm"
  "used_blocks (free_block bm b) = used_blocks bm - {b}"
  by (auto simp: free_block_def used_blocks_def)

end
