(* ===== verification/Extent_Protocol.thy ===== *)
theory Extent_Protocol
  imports Yfs_Prelude
begin

text \<open>
  The data of \<^verbatim>\<open>extent_protocol.h\<close>: extent ids, status codes, inode types and the
  attribute structure the extent server hands to its clients.
\<close>

type_synonym extentid = u64

datatype ext_status = OK | RPCERR | NOENT | IOERR

fun ext_status_code :: "ext_status \<Rightarrow> int" where
  "ext_status_code OK = 0"
| "ext_status_code RPCERR = 1"
| "ext_status_code NOENT = 2"
| "ext_status_code IOERR = 3"

definition T_DIR :: u32 where [simp]: "T_DIR = 1"
definition T_FILE :: u32 where [simp]: "T_FILE = 2"
definition T_SYMLK :: u32 where [simp]: "T_SYMLK = 3"

record attr =
  a_type :: u32
  a_atime :: u32
  a_mtime :: u32
  a_ctime :: u32
  a_size :: u32

text \<open>The structure after \<open>memset(&attr, 0, sizeof(attr))\<close>.\<close>

definition zero_attr :: attr where
  "zero_attr = \<lparr>a_type = 0, a_atime = 0, a_mtime = 0, a_ctime = 0, a_size = 0\<rparr>"

text \<open>
  The order in which the fields of an attribute go on the wire and come off it; the
  representation of one 32-bit integer on the wire belongs to the RPC library.
\<close>

definition marshall_attr :: "attr \<Rightarrow> u32 list" where
  "marshall_attr a = [a_type a, a_atime a, a_mtime a, a_ctime a, a_size a]"

fun unmarshall_attr :: "u32 list \<Rightarrow> (attr \<times> u32 list) option" where
  "unmarshall_attr (t # a # m # c # s # rest) =
     Some (\<lparr>a_type = t, a_atime = a, a_mtime = m, a_ctime = c, a_size = s\<rparr>, rest)"
| "unmarshall_attr _ = None"

lemma unmarshall_marshall [simp]: "unmarshall_attr (marshall_attr a @ rest) = Some (a, rest)"
  by (simp add: marshall_attr_def)

end
