(* ===== verification/Inode.thy ===== *)
theory Inode
  imports Block_Manager Extent_Protocol
begin

text \<open>
  The inode layer of \<^verbatim>\<open>inode_manager.h\<close> and \<^verbatim>\<open>inode_manager.cc\<close>: the inode structure and
  its bytes in a disk block, the inode table, direct and indirect block addressing, and the
  operations \<open>alloc_inode\<close>, \<open>free_inode\<close>, \<open>read_file\<close>, \<open>write_file\<close>, \<open>getattr\<close> and
  \<open>remove_file\<close>, each with the branches on which the code exits or dereferences a null
  pointer. Loop counters are natural numbers below a 32-bit bound.
\<close>

section \<open>The inode structure\<close>

definition NDIRECT :: nat where [simp]: "NDIRECT = 100"
definition NINDIRECT :: nat where [simp]: "NINDIRECT = BLOCK_SIZE div 4"
definition MAXFILE :: nat where [simp]: "MAXFILE = NDIRECT + NINDIRECT"

record inode =
  i_type :: u16
  i_size :: u32
  i_atime :: u32
  i_mtime :: u32
  i_ctime :: u32
  i_blocks :: "blockid list"

definition inode_valid :: "inode \<Rightarrow> bool" where
  "inode_valid ino \<longleftrightarrow> length (i_blocks ino) = NDIRECT + 1"

definition sizeof_inode :: nat where [simp]: "sizeof_inode = 424"

text \<open>
  The bytes of a \<open>struct inode\<close>: a 16-bit type, two bytes of padding (zero here; no code
  reads them), then 32-bit words at offsets 4, 8, and so on.
\<close>

definition encode_inode :: "inode \<Rightarrow> bytes" where
  "encode_inode ino = le_encode 2 (i_type ino) @ [0, 0] @
     concat (map (le_encode 4)
       (i_size ino # i_atime ino # i_mtime ino # i_ctime ino # i_blocks ino))"

definition decode_inode :: "bytes \<Rightarrow> inode" where
  "decode_inode bs =
     \<lparr>i_type = le_decode (slice_at 0 2 bs), i_size = get_u32 bs 1, i_atime = get_u32 bs 2,
      i_mtime = get_u32 bs 3, i_ctime = get_u32 bs 4,
      i_blocks = map (\<lambda>k. get_u32 bs (5 + k)) [0..<NDIRECT + 1]\<rparr>"

section \<open>State, inode table\<close>

record inode_manager =
  next_inum :: u32
  bmgr :: block_manager

definition get_inode :: "inode_manager \<Rightarrow> u32 \<Rightarrow> inode option res" where
  "get_inode im inum =
     (if inum \<le> 0 \<or> of_nat INODE_NUM < inum then Inr None
      else bind_res (buf_contents (read_block (bmgr im)
                       (IBLOCK inum (sb_nblocks (sb (bmgr im)))) Indeterminate)) (\<lambda>buf.
           Inr (Some (decode_inode (drop (unat (inum mod of_nat IPB) * sizeof_inode) buf)))))"

text \<open>Assignment through a cast pointer into a local buffer.\<close>

fun store_cbuf :: "nat \<Rightarrow> bytes \<Rightarrow> cbuf \<Rightarrow> cbuf" where
  "store_cbuf off new (Buffer b) = Buffer (splice_at off new b)"
| "store_cbuf off new Indeterminate = Indeterminate"
| "store_cbuf off new Null = Null"

definition put_inode :: "inode_manager \<Rightarrow> u32 \<Rightarrow> inode \<Rightarrow> inode_manager res" where
  "put_inode im inum ino =
     (let bid = IBLOCK inum (sb_nblocks (sb (bmgr im)));
          buf = read_block (bmgr im) bid Indeterminate;
          buf' = store_cbuf (unat (inum mod of_nat IPB) * sizeof_inode) (encode_inode ino) buf
      in bind_res (write_block (bmgr im) bid buf') (\<lambda>bm. Inr (im\<lparr>bmgr := bm\<rparr>)))"

text \<open>
  The constructor. \<open>raw\<close> is the indeterminate memory of the superblock, \<open>junk\<close> the
  indeterminate block addresses of the local variable \<open>root\<close>.
\<close>

definition inode_manager_ctor :: "superblock \<Rightarrow> blockid list \<Rightarrow> clock \<Rightarrow> inode_manager res" where
  "inode_manager_ctor raw junk clk =
     (let im = \<lparr>next_inum = 2, bmgr = block_manager_ctor raw\<rparr>;
          root = \<lparr>i_type = ucast T_DIR, i_size = 0, i_atime = clk 0, i_mtime = clk 1,
                  i_ctime = clk 2, i_blocks = junk\<rparr>
      in put_inode im 1 root)"

function find_free_inode :: "inode_manager \<Rightarrow> u32 \<Rightarrow> u32 \<Rightarrow> (u32 \<times> inode) option res" where
  "find_free_inode im hover bound =
     (if hover < bound then
        (case get_inode im hover of
           Inl e \<Rightarrow> Inl e
         | Inr None \<Rightarrow> Inl Null_Deref
         | Inr (Some ino) \<Rightarrow> if i_type ino = 0 then Inr (Some (hover, ino))
                            else find_free_inode im (hover + 1) bound)
      else Inr None)"
  by pat_completeness auto
termination
  by (relation "measure (\<lambda>(im, hover, bound). unat bound - unat hover)") (auto, unat_arith)

declare find_free_inode.simps [simp del]

text \<open>The code after the label \<open>found\<close>.\<close>

definition alloc_found :: "inode_manager \<Rightarrow> u32 \<Rightarrow> inode \<Rightarrow> u32 \<Rightarrow> clock \<Rightarrow> (u32 \<times> inode_manager) res" where
  "alloc_found im hover ino ty clk =
     (let im1 = im\<lparr>next_inum := (if of_nat INODE_NUM < hover + 1 then 2 else hover + 1)\<rparr>;
          ino1 = ino\<lparr>i_type := ucast ty, i_size := 0, i_atime := clk 0, i_mtime := clk 1,
                     i_ctime := clk 2\<rparr>
      in bind_res (put_inode im1 hover ino1) (\<lambda>im2. Inr (hover, im2)))"

definition alloc_inode :: "inode_manager \<Rightarrow> u32 \<Rightarrow> clock \<Rightarrow> (u32 \<times> inode_manager) res" where
  "alloc_inode im ty clk =
     bind_res (find_free_inode im (next_inum im) (of_nat INODE_NUM + 1)) (\<lambda>r1.
       case r1 of
         Some (hover, ino) \<Rightarrow> alloc_found im hover ino ty clk
       | None \<Rightarrow> bind_res (find_free_inode im 2 (next_inum im)) (\<lambda>r2.
           case r2 of
             Some (hover, ino) \<Rightarrow> alloc_found im hover ino ty clk
           | None \<Rightarrow> Inl Exit))"

definition free_inode :: "inode_manager \<Rightarrow> u32 \<Rightarrow> inode_manager res" where
  "free_inode im inum =
     bind_res (get_inode im inum) (\<lambda>r. case r of
       None \<Rightarrow> Inl Exit
     | Some ino \<Rightarrow> if i_type ino = 0 then Inl Exit
                   else put_inode im inum (ino\<lparr>i_type := 0\<rparr>))"

section \<open>Blocks of a file\<close>

definition get_nth_block :: "inode_manager \<Rightarrow> inode \<Rightarrow> nat \<Rightarrow> blockid res" where
  "get_nth_block im ino n =
     (if n < NDIRECT then Inr (i_blocks ino ! n)
      else bind_res (buf_contents (read_block (bmgr im) (i_blocks ino ! NDIRECT) Indeterminate))
        (\<lambda>inblock. if n - NDIRECT < NINDIRECT then Inr (get_u32 inblock (n - NDIRECT))
                   else Inl Out_Of_Bounds))"

definition read_nth_block :: "inode_manager \<Rightarrow> inode \<Rightarrow> nat \<Rightarrow> block res" where
  "read_nth_block im ino n =
     bind_res (get_nth_block im ino n) (\<lambda>bl_id.
       buf_contents (read_block (bmgr im) bl_id Indeterminate))"

definition write_nth_block :: "inode_manager \<Rightarrow> inode \<Rightarrow> nat \<Rightarrow> block \<Rightarrow> inode_manager res" where
  "write_nth_block im ino n buf =
     bind_res (get_nth_block im ino n) (\<lambda>bl_id.
       bind_res (write_block (bmgr im) bl_id (Buffer buf)) (\<lambda>bm. Inr (im\<lparr>bmgr := bm\<rparr>)))"

definition alloc_nth_block ::
  "inode_manager \<Rightarrow> inode \<Rightarrow> nat \<Rightarrow> block \<Rightarrow> bool \<Rightarrow> (inode_manager \<times> inode) res" where
  "alloc_nth_block im ino n buf to_write =
     bind_res (alloc_block (bmgr im)) (\<lambda>(bl_id, bm1).
     bind_res (if to_write then write_block bm1 bl_id (Buffer buf) else Inr bm1) (\<lambda>bm2.
       if n < NDIRECT then Inr (im\<lparr>bmgr := bm2\<rparr>, ino\<lparr>i_blocks := (i_blocks ino)[n := bl_id]\<rparr>)
       else if n - NDIRECT < NINDIRECT then
         (let inblock_id = i_blocks ino ! NDIRECT;
              inblock = read_block bm2 inblock_id Indeterminate;
              inblock' = store_cbuf (4 * (n - NDIRECT)) (le_encode 4 bl_id) inblock
          in bind_res (write_block bm2 inblock_id inblock') (\<lambda>bm3. Inr (im\<lparr>bmgr := bm3\<rparr>, ino)))
       else Inl Out_Of_Bounds))"

definition free_nth_block :: "inode_manager \<Rightarrow> inode \<Rightarrow> nat \<Rightarrow> inode_manager res" where
  "free_nth_block im ino n =
     bind_res (get_nth_block im ino n) (\<lambda>bid. Inr (im\<lparr>bmgr := free_block (bmgr im) bid\<rparr>))"

section \<open>Files\<close>

text \<open>Number of blocks of a file, in 32-bit arithmetic.\<close>

definition blnum :: "u32 \<Rightarrow> u32" where
  "blnum sz = (if sz = 0 then 0 else (sz - 1) div of_nat BLOCK_SIZE + 1)"

text \<open>
  \<open>read_file\<close> returns the buffer (\<open>None\<close>: the caller's pointer is left alone), the size,
  and the new state.
\<close>

definition read_file :: "inode_manager \<Rightarrow> u32 \<Rightarrow> clock \<Rightarrow> (bytes option \<times> u32 \<times> inode_manager) res" where
  "read_file im inum clk =
     bind_res (get_inode im inum) (\<lambda>r. case r of
       None \<Rightarrow> Inl Null_Deref
     | Some ino \<Rightarrow>
         if i_size ino = 0 then Inr (None, 0, im)
         else if of_nat (MAXFILE * BLOCK_SIZE) < i_size ino then Inl Exit
         else bind_res
           (for_each (\<lambda>n rv. bind_res (read_nth_block im ino n) (\<lambda>content. Inr (rv @ content)))
              [0..<unat (blnum (i_size ino))] []) (\<lambda>rv.
           bind_res (put_inode im inum (ino\<lparr>i_atime := clk 0\<rparr>)) (\<lambda>im'.
             Inr (Some rv, i_size ino, im'))))"

text \<open>\<open>std::string::assign(buf + off, n)\<close>: reading past the data is undefined.\<close>

definition assign_str :: "bytes \<Rightarrow> nat \<Rightarrow> nat \<Rightarrow> bytes res" where
  "assign_str buf off n = (if off + n \<le> length buf then Inr (slice_at off n buf) else Inl Out_Of_Bounds)"

text \<open>\<open>std::string::resize(n)\<close>.\<close>

definition resize_str :: "nat \<Rightarrow> bytes \<Rightarrow> bytes" where
  "resize_str n s = take n s @ replicate (n - length s) 0"

definition resize_file :: "inode_manager \<Rightarrow> inode \<Rightarrow> u32 \<Rightarrow> u32 \<Rightarrow> (inode_manager \<times> inode) res" where
  "resize_file im ino blnum_before blnum_after =
     (if blnum_after < blnum_before then
        bind_res (for_each (\<lambda>start im. free_nth_block im ino start)
                    [unat blnum_after..<unat blnum_before] im) (\<lambda>im'. Inr (im', ino))
      else if blnum_after > blnum_before then
        for_each (\<lambda>start (im, ino). alloc_nth_block im ino start [] False)
          [unat blnum_before..<unat blnum_after] (im, ino)
      else Inr (im, ino))"

definition write_blocks :: "inode_manager \<Rightarrow> inode \<Rightarrow> bytes \<Rightarrow> u32 \<Rightarrow> u32 \<Rightarrow> inode_manager res" where
  "write_blocks im ino buf sz blnum_after =
     (if blnum_after \<noteq> 0 then
        bind_res (for_each (\<lambda>start im. bind_res (assign_str buf (BLOCK_SIZE * start) BLOCK_SIZE)
                              (\<lambda>content. write_nth_block im ino start content))
                    [0..<unat blnum_after - 1] im) (\<lambda>im1.
        let padding_bytes = blnum_after * of_nat BLOCK_SIZE - sz;
            tail_bytes = of_nat BLOCK_SIZE - padding_bytes
        in bind_res (assign_str buf (BLOCK_SIZE * (unat blnum_after - 1)) (unat tail_bytes))
             (\<lambda>content. write_nth_block im1 ino (unat (blnum_after - 1)) (resize_str BLOCK_SIZE content)))
      else Inr im)"

definition write_file :: "inode_manager \<Rightarrow> u32 \<Rightarrow> bytes \<Rightarrow> u32 \<Rightarrow> clock \<Rightarrow> inode_manager res" where
  "write_file im inum buf sz clk =
     bind_res (get_inode im inum) (\<lambda>r. case r of
       None \<Rightarrow> Inl Null_Deref
     | Some ino \<Rightarrow>
         bind_res (resize_file im ino (blnum (i_size ino)) (blnum sz)) (\<lambda>(im1, ino1).
         let ino2 = ino1\<lparr>i_size := sz\<rparr>
         in bind_res (write_blocks im1 ino2 buf sz (blnum sz)) (\<lambda>im2.
            put_inode im2 inum (ino2\<lparr>i_atime := clk 0, i_mtime := clk 1, i_ctime := clk 2\<rparr>))))"

definition getattr :: "inode_manager \<Rightarrow> u32 \<Rightarrow> attr \<Rightarrow> attr res" where
  "getattr im inum a =
     bind_res (get_inode im inum) (\<lambda>r. case r of
       None \<Rightarrow> Inr a
     | Some ino \<Rightarrow> Inr (a\<lparr>a_type := scast (i_type ino), a_atime := i_atime ino,
                          a_ctime := i_ctime ino, a_mtime := i_mtime ino, a_size := i_size ino\<rparr>))"

definition remove_file :: "inode_manager \<Rightarrow> u32 \<Rightarrow> inode_manager res" where
  "remove_file im inum =
     bind_res (get_inode im inum) (\<lambda>r. case r of
       None \<Rightarrow> Inl Null_Deref
     | Some ino \<Rightarrow>
         bind_res (for_each (\<lambda>start im. free_nth_block im ino start)
                     [0..<unat (blnum (i_size ino))] im) (\<lambda>im1.
         free_inode im1 inum))"

section \<open>The bytes of an inode\<close>

lemma get_u32_words:
  assumes "length p = 4 * k" and "j < length ws"
  shows "get_u32 (p @ concat (map (le_encode 4) ws) @ rest) (k + j) = ws ! j"
proof -
  have "slice_at (4 * (k + j)) 4 (p @ concat (map (le_encode 4) ws) @ rest) = le_encode 4 (ws ! j)"
    using assms(2)
  proof (induction ws arbitrary: j)
    case Nil
    then show ?case by simp
  next
    case (Cons w ws)
    show ?case
    proof (cases j)
      case 0
      then show ?thesis using assms(1) by (simp add: slice_at_def)
    next
      case (Suc i)
      then show ?thesis using assms(1) Cons.prems Cons.IH [of i]
        by (simp add: slice_at_def algebra_simps)
    qed
  qed
  then show ?thesis by (simp add: get_u32_def)
qed

lemma length_encode_inode:
  assumes "inode_valid ino"
  shows "length (encode_inode ino) = sizeof_inode"
proof -
  have "length (concat (map (le_encode 4) ws)) = 4 * length ws" for ws :: "u32 list"
    by (induction ws) simp_all
  from this [of "i_blocks ino"] show ?thesis
    using assms by (simp add: encode_inode_def inode_valid_def)
qed

lemma decode_encode_inode:
  assumes "inode_valid ino"
  shows "decode_inode (encode_inode ino @ rest) = ino"
proof -
  let ?ws = "i_size ino # i_atime ino # i_mtime ino # i_ctime ino # i_blocks ino"
  let ?p = "le_encode 2 (i_type ino) @ [0, 0]"
  have bs: "encode_inode ino @ rest = ?p @ concat (map (le_encode 4) ?ws) @ rest"
    by (simp only: encode_inode_def append_assoc)
  have ty: "slice_at 0 2 (encode_inode ino @ rest) = le_encode 2 (i_type ino)"
    by (simp add: slice_at_def encode_inode_def)
  have word: "get_u32 (encode_inode ino @ rest) (1 + j) = ?ws ! j" if "j < 105" for j
    unfolding bs by (rule get_u32_words) (use assms that in \<open>simp_all add: inode_valid_def\<close>)
  have blks: "map (\<lambda>k. get_u32 (encode_inode ino @ rest) (5 + k)) [0..<101] = i_blocks ino"
  proof (rule nth_equalityI)
    show "length (map (\<lambda>k. get_u32 (encode_inode ino @ rest) (5 + k)) [0..<101]) = length (i_blocks ino)"
      using assms by (simp add: inode_valid_def)
    fix k assume "k < length (map (\<lambda>k. get_u32 (encode_inode ino @ rest) (5 + k)) [0..<101])"
    then have "k < 101" by simp
    then show "map (\<lambda>k. get_u32 (encode_inode ino @ rest) (5 + k)) [0..<101] ! k = i_blocks ino ! k"
      using word [of "k + 4"] by (simp add: nth_append)
  qed
  have "get_u32 (encode_inode ino @ rest) 1 = i_size ino"
    "get_u32 (encode_inode ino @ rest) 2 = i_atime ino"
    "get_u32 (encode_inode ino @ rest) 3 = i_mtime ino"
    "get_u32 (encode_inode ino @ rest) 4 = i_ctime ino"
    using word [of 0] word [of 1] word [of 2] word [of 3]
    by (simp_all add: numeral_eq_Suc)
  then show ?thesis
    using blks ty by (simp add: decode_inode_def)
qed

interpretation ino: struct_codec encode_inode decode_inode sizeof_inode inode_valid
  by unfold_locales (rule length_encode_inode decode_encode_inode; assumption)+

lemma decode_inode_valid [simp]: "inode_valid (decode_inode bs)"
  by (simp add: decode_inode_def inode_valid_def)

section \<open>The inode table\<close>

definition valid_inum :: "u32 \<Rightarrow> bool" where
  "valid_inum i \<longleftrightarrow> 0 < i \<and> i \<le> 1024"

text \<open>The inode stored in the table, and the state after a store.\<close>

definition inode_at :: "inode_manager \<Rightarrow> u32 \<Rightarrow> inode" where
  "inode_at im i = decode_inode (blocks (dsk (bmgr im)) (IBLOCK i 32768))"

definition set_inode :: "u32 \<Rightarrow> inode \<Rightarrow> inode_manager \<Rightarrow> inode_manager" where
  "set_inode i ino im = im\<lparr>bmgr := set_block (IBLOCK i 32768)
     (splice_at 0 (encode_inode ino) (blocks (dsk (bmgr im)) (IBLOCK i 32768))) (bmgr im)\<rparr>"

lemma valid_inum_unat: "valid_inum i \<longleftrightarrow> 1 \<le> unat i \<and> unat i \<le> 1024"
  unfolding valid_inum_def by unat_arith

lemma IBLOCK_legal:
  assumes "valid_inum i"
  shows "IBLOCK i 32768 < 32768" "12 \<le> IBLOCK i 32768" "IBLOCK i 32768 < 1036"
proof -
  have "unat (IBLOCK i 32768) = unat i + 11" "1 \<le> unat i" "unat i \<le> 1024"
    using assms by (simp_all add: valid_inum_unat)
  then show "IBLOCK i 32768 < 32768" "12 \<le> IBLOCK i 32768" "IBLOCK i 32768 < 1036"
    by (simp_all add: word_less_nat_alt word_le_nat_alt)
qed

lemma IBLOCK_inject:
  assumes "valid_inum i" and "valid_inum j"
  shows "IBLOCK i 32768 = IBLOCK j 32768 \<longleftrightarrow> i = j"
proof
  assume "IBLOCK i 32768 = IBLOCK j 32768"
  then have "unat (IBLOCK i 32768) = unat (IBLOCK j 32768)" by simp
  with assms have "unat i = unat j" by (simp add: valid_inum_unat)
  then show "i = j" by (rule unsigned_word_eqI)
qed simp

lemma IBLOCK_not_data: "valid_inum i \<Longrightarrow> is_data_block b \<Longrightarrow> b \<noteq> IBLOCK i 32768"
  using IBLOCK_legal(3) [of i] by (auto simp: is_data_block_def)

lemma get_inode_eq:
  assumes "bm_wf (bmgr im)"
  shows "get_inode im i = Inr (if valid_inum i then Some (inode_at im i) else None)"
proof (cases "valid_inum i")
  case True
  then have "\<not> (i \<le> 0 \<or> 1024 < i)" by (auto simp: valid_inum_def)
  then show ?thesis
    using True IBLOCK_legal(1) [OF True] bm_wfD(1) [OF assms] by (simp add: get_inode_def inode_at_def)
next
  case False
  then have "i \<le> 0 \<or> 1024 < i" unfolding valid_inum_def by (auto simp: word_gt_0)
  then show ?thesis using False by (auto simp: get_inode_def)
qed

lemma put_inode_eq:
  assumes "bm_wf (bmgr im)" and "valid_inum i" and "inode_valid ino"
  shows "put_inode im i ino = Inr (set_inode i ino im)"
  using IBLOCK_legal(1) [OF assms(2)] bm_wfD(1,2) [OF assms(1)] length_encode_inode [OF assms(3)]
  by (simp add: put_inode_def set_inode_def write_block_legal Let_def)

lemma inode_at_set_inode:
  assumes "inode_valid ino" and "valid_inum i" and "valid_inum j"
  shows "inode_at (set_inode i ino im) j = (if j = i then ino else inode_at im j)"
  using assms by (simp add: inode_at_def set_inode_def ino.dec_splice IBLOCK_inject)

lemma set_inode_wf:
  assumes "bm_wf (bmgr im)" and "inode_valid ino"
  shows "bm_wf (bmgr (set_inode i ino im))"
  using assms length_encode_inode [OF assms(2)] bm_wfD(2) [OF assms(1)]
  by (simp add: set_inode_def set_block_wf)

lemma inode_at_valid [simp]: "inode_valid (inode_at im i)"
  by (simp add: inode_at_def)

lemma set_inode_simps [simp]:
  "next_inum (set_inode i ino im) = next_inum im"
  "used_blocks (bmgr (set_inode i ino im)) = used_blocks (bmgr im)"
  "b \<noteq> IBLOCK i 32768 \<Longrightarrow> blocks (dsk (bmgr (set_inode i ino im))) b = blocks (dsk (bmgr im)) b"
  by (simp_all add: set_inode_def)

end
