(* ===== verification/File_Store.thy ===== *)
theory File_Store
  imports Inode
begin

text \<open>
  What the inode layer promises: the abstract view of the store as a map from inode
  numbers to a type and a byte string, the invariant that keeps the files apart, and the
  lemmas that every operation of \<open>Inode\<close> implements its counterpart on the view.
  The invariant says that the blocks of a live inode lie in the data region, are marked used
  and belong to it alone, and that a file with more than 100 blocks has an indirect
  block of its own below the inode table.
\<close>

section \<open>Blocks and contents of a file\<close>

abbreviation block_at :: "inode_manager \<Rightarrow> blockid \<Rightarrow> block" where
  "block_at im b \<equiv> blocks (dsk (bmgr im)) b"

abbreviation used :: "inode_manager \<Rightarrow> blockid set" where
  "used im \<equiv> used_blocks (bmgr im)"

abbreviation ind :: "inode \<Rightarrow> blockid" where
  "ind ino \<equiv> i_blocks ino ! 100"

definition nblk :: "inode \<Rightarrow> nat" where
  "nblk ino = unat (blnum (i_size ino))"

definition nth_bid :: "inode_manager \<Rightarrow> inode \<Rightarrow> nat \<Rightarrow> blockid" where
  "nth_bid im ino n =
     (if n < 100 then i_blocks ino ! n else get_u32 (block_at im (ind ino)) (n - 100))"

definition large :: "inode \<Rightarrow> bool" where
  "large ino \<longleftrightarrow> 100 < nblk ino"

definition bids :: "inode_manager \<Rightarrow> inode \<Rightarrow> blockid set" where
  "bids im ino = nth_bid im ino ` {..<nblk ino}"

definition contents :: "inode_manager \<Rightarrow> inode \<Rightarrow> bytes" where
  "contents im ino =
     take (unat (i_size ino)) (concat (map (\<lambda>n. block_at im (nth_bid im ino n)) [0..<nblk ino]))"

definition live :: "inode_manager \<Rightarrow> u32 \<Rightarrow> bool" where
  "live im i \<longleftrightarrow> valid_inum i \<and> i_type (inode_at im i) \<noteq> 0"

text \<open>The abstract view: what a client of the extent server can observe of the store.\<close>

definition fs_view :: "inode_manager \<Rightarrow> u32 \<rightharpoonup> (u16 \<times> bytes)" where
  "fs_view im i =
     (if live im i then Some (i_type (inode_at im i), contents im (inode_at im i)) else None)"

text \<open>These depend on the disk only.\<close>

lemma dsk_irrelevant:
  assumes d: "dsk (bmgr im') = dsk (bmgr im)"
  shows "inode_at im' = inode_at im" "live im' = live im" "nth_bid im' = nth_bid im"
    "bids im' = bids im" "contents im' = contents im" "get_nth_block im' = get_nth_block im"
proof -
  show at: "inode_at im' = inode_at im" using d by (simp add: inode_at_def fun_eq_iff)
  then show "live im' = live im" by (simp add: live_def fun_eq_iff)
  show nb: "nth_bid im' = nth_bid im" using d by (simp add: nth_bid_def fun_eq_iff)
  then show "bids im' = bids im" by (simp add: bids_def fun_eq_iff)
  show "contents im' = contents im" using nb d by (simp add: contents_def fun_eq_iff)
  show "get_nth_block im' = get_nth_block im"
    using d by (simp add: get_nth_block_def read_block_def fun_eq_iff)
qed

section \<open>The invariant\<close>

definition ino_ok :: "inode_manager \<Rightarrow> inode \<Rightarrow> bool" where
  "ino_ok im ino \<longleftrightarrow> inode_valid ino \<and> nblk ino \<le> MAXFILE \<and> (large ino \<longrightarrow> ind ino < 12)
     \<and> (\<forall>n < nblk ino. is_data_block (nth_bid im ino n) \<and> nth_bid im ino n \<in> used im)
     \<and> inj_on (nth_bid im ino) {..<nblk ino}"

definition apart :: "inode_manager \<Rightarrow> inode \<Rightarrow> inode \<Rightarrow> bool" where
  "apart im a b \<longleftrightarrow> bids im a \<inter> bids im b = {} \<and> \<not> (large a \<and> large b \<and> ind a = ind b)"

definition im_wf :: "inode_manager \<Rightarrow> bool" where
  "im_wf im \<longleftrightarrow> bm_wf (bmgr im) \<and> 2 \<le> next_inum im \<and> next_inum im \<le> 1024
     \<and> (\<forall>i. live im i \<longrightarrow> ino_ok im (inode_at im i))
     \<and> (\<forall>i j. live im i \<and> live im j \<and> i \<noteq> j \<longrightarrow> apart im (inode_at im i) (inode_at im j))"

lemma im_wfD:
  assumes "im_wf im"
  shows "bm_wf (bmgr im)" "2 \<le> next_inum im" "next_inum im \<le> 1024"
    "live im i \<Longrightarrow> ino_ok im (inode_at im i)"
    "live im i \<Longrightarrow> live im j \<Longrightarrow> i \<noteq> j \<Longrightarrow> apart im (inode_at im i) (inode_at im j)"
  using assms by (auto simp: im_wf_def)

section \<open>Frames\<close>

text \<open>A change of state that leaves alone everything the file of an inode depends on.\<close>

definition keeps :: "inode_manager \<Rightarrow> inode_manager \<Rightarrow> inode \<Rightarrow> bool" where
  "keeps im im' ino \<longleftrightarrow> (large ino \<longrightarrow> block_at im' (ind ino) = block_at im (ind ino))
     \<and> (\<forall>b \<in> bids im ino. block_at im' b = block_at im b \<and> b \<in> used im')"

lemma keeps_nth_bid:
  assumes "keeps im im' ino" and "n < nblk ino"
  shows "nth_bid im' ino n = nth_bid im ino n"
  using assms by (cases "n < 100") (auto simp: keeps_def nth_bid_def large_def)

lemma keeps_bids: "keeps im im' ino \<Longrightarrow> bids im' ino = bids im ino"
  unfolding bids_def using keeps_nth_bid by (intro image_cong) auto

lemma keeps_ino_ok:
  assumes k: "keeps im im' ino" and ok: "ino_ok im ino"
  shows "ino_ok im' ino"
proof -
  have "inj_on (nth_bid im' ino) {..<nblk ino} \<longleftrightarrow> inj_on (nth_bid im ino) {..<nblk ino}"
    using keeps_nth_bid [OF k] by (intro inj_on_cong) auto
  then show ?thesis
    using ok k keeps_nth_bid [OF k] by (auto simp: ino_ok_def keeps_def bids_def)
qed

lemma keeps_contents:
  assumes k: "keeps im im' ino"
  shows "contents im' ino = contents im ino"
proof -
  have "map (\<lambda>n. block_at im' (nth_bid im' ino n)) [0..<nblk ino] =
      map (\<lambda>n. block_at im (nth_bid im ino n)) [0..<nblk ino]"
    using k keeps_nth_bid [OF k] by (auto simp: keeps_def bids_def)
  then show ?thesis by (simp only: contents_def)
qed

text \<open>
  An operation on inode \<open>i\<close> that keeps the other files keeps the invariant, and changes the
  view at \<open>i\<close> only.
\<close>

lemma im_wf_update:
  assumes wf: "im_wf im" and bm: "bm_wf (bmgr im')"
    and nx: "2 \<le> next_inum im'" "next_inum im' \<le> 1024"
    and other: "\<And>j. valid_inum j \<Longrightarrow> j \<noteq> i \<Longrightarrow> inode_at im' j = inode_at im j"
    and keep: "\<And>j. live im j \<Longrightarrow> j \<noteq> i \<Longrightarrow> keeps im im' (inode_at im j)"
    and ok: "live im' i \<Longrightarrow> ino_ok im' (inode_at im' i)"
    and ap: "\<And>j. live im' i \<Longrightarrow> live im j \<Longrightarrow> j \<noteq> i \<Longrightarrow> apart im' (inode_at im' i) (inode_at im j)"
  shows "im_wf im'" and "fs_view im' = (fs_view im)(i := fs_view im' i)"
proof -
  have live: "live im' j \<longleftrightarrow> live im j" if "j \<noteq> i" for j
    using other [OF _ that] by (auto simp: live_def)
  have oth: "inode_at im' j = inode_at im j" if "j \<noteq> i" "live im j" for j
    using other [OF _ that(1)] that(2) by (auto simp: live_def)
  have okj: "ino_ok im' (inode_at im' j)" if "live im' j" for j
  proof (cases "j = i")
    case True
    with ok that show ?thesis by simp
  next
    case False
    with that have "live im j" by (simp add: live)
    from keeps_ino_ok [OF keep [OF this False] im_wfD(4) [OF wf this]] show ?thesis
      using oth [OF False \<open>live im j\<close>] by simp
  qed
  have sym: "apart im' a b \<Longrightarrow> apart im' b a" for a b
    by (auto simp: apart_def)
  have apj: "apart im' (inode_at im' j) (inode_at im' k)"
    if "live im' j" "live im' k" "j \<noteq> k" for j k
  proof -
    consider "j = i" | "k = i" "j \<noteq> i" | "j \<noteq> i" "k \<noteq> i" by blast
    then show ?thesis
    proof cases
      case 1
      with that live oth ap [of k] show ?thesis by auto
    next
      case 2
      with that live oth ap [of j] sym show ?thesis by auto
    next
      case 3
      then have lv: "live im j" "live im k" using that live by auto
      from im_wfD(5) [OF wf lv that(3)] keeps_bids [OF keep [OF lv(1) 3(1)]]
        keeps_bids [OF keep [OF lv(2) 3(2)]]
      show ?thesis using oth [OF 3(1) lv(1)] oth [OF 3(2) lv(2)] by (simp add: apart_def)
    qed
  qed
  show "im_wf im'" using bm nx okj apj by (simp add: im_wf_def)
  show "fs_view im' = (fs_view im)(i := fs_view im' i)"
  proof
    fix j
    show "fs_view im' j = ((fs_view im)(i := fs_view im' i)) j"
      using live [of j] oth [of j] keeps_contents [OF keep, of j] by (auto simp: fs_view_def)
  qed
qed

text \<open>A store into the inode table keeps the files of all live inodes.\<close>

lemma bids_data: "ino_ok im ino \<Longrightarrow> b \<in> bids im ino \<Longrightarrow> is_data_block b"
  by (auto simp: ino_ok_def bids_def)

lemma bids_used: "ino_ok im ino \<Longrightarrow> b \<in> bids im ino \<Longrightarrow> b \<in> used im"
  by (auto simp: ino_ok_def bids_def)

lemma low_not_data: "(b::u32) < 12 \<Longrightarrow> \<not> is_data_block b"
  unfolding is_data_block_def word_less_nat_alt word_le_nat_alt by simp

lemma low_not_inode: "b < 12 \<Longrightarrow> valid_inum i \<Longrightarrow> b \<noteq> IBLOCK i 32768"
  using IBLOCK_legal(2) [of i] by auto

lemma keeps_set_inode:
  assumes "ino_ok im ino" and "valid_inum i"
  shows "keeps im (set_inode i x im) ino"
  using assms bids_data [OF assms(1)] bids_used [OF assms(1)] IBLOCK_not_data [OF assms(2)]
    low_not_inode [OF _ assms(2)]
  by (auto simp: keeps_def ino_ok_def)

section \<open>Sizes and block counts\<close>

lemma unat_blnum: "unat (blnum s) = (unat s + 511) div 512"
proof (cases "s = 0")
  case True
  then show ?thesis by (simp add: blnum_def)
next
  case False
  then have "unat (s - 1) = unat s - 1" and pos: "0 < unat s"
    by (simp_all add: unat_minus_one unat_gt_0)
  moreover have "unat s < 2 ^ 32" by (rule order.strict_trans2 [OF unsigned_less]) simp
  moreover have "(unat s - 1) div 512 + 1 = (unat s + 511) div 512" using pos by simp
  ultimately show ?thesis using False by (simp add: blnum_def unat_word_ariths unat_div)
qed

lemma nblk_eq: "nblk ino = (unat (i_size ino) + 511) div 512"
  by (simp add: nblk_def unat_blnum)

lemma nblk_0 [simp]: "i_size ino = 0 \<Longrightarrow> nblk ino = 0"
  by (simp add: nblk_eq)

lemma size_le_blocks: "unat (i_size ino) \<le> 512 * nblk ino"
  by (simp add: nblk_eq)

section \<open>Addressing\<close>

lemma get_nth_block_eq:
  assumes "n < MAXFILE" and "100 \<le> n \<Longrightarrow> ind ino < 32768"
  shows "get_nth_block im ino n = Inr (nth_bid im ino n)"
  using assms by (auto simp: get_nth_block_def nth_bid_def)

lemma low_legal: "(b::u32) < 12 \<Longrightarrow> b < 32768"
  by (erule less_trans) simp

lemma ino_ok_get_nth:
  assumes "ino_ok im ino" and "n < nblk ino"
  shows "get_nth_block im ino n = Inr (nth_bid im ino n)" and "is_data_block (nth_bid im ino n)"
    and "nth_bid im ino n < 32768"
proof -
  show d: "is_data_block (nth_bid im ino n)" using assms by (simp add: ino_ok_def)
  then show "nth_bid im ino n < 32768" by blast
  have "large ino" if "100 \<le> n" using that assms(2) by (simp add: large_def)
  with assms show "get_nth_block im ino n = Inr (nth_bid im ino n)"
    by (intro get_nth_block_eq) (auto simp: ino_ok_def low_legal)
qed

lemma read_loop:
  assumes ok: "ino_ok im ino" and "k \<le> nblk ino"
  shows "for_each (\<lambda>n rv. bind_res (read_nth_block im ino n) (\<lambda>content. Inr (rv @ content))) [0..<k] rv =
    Inr (rv @ concat (map (\<lambda>n. block_at im (nth_bid im ino n)) [0..<k]))"
  using assms(2)
proof (induction k arbitrary: rv)
  case 0
  then show ?case by simp
next
  case (Suc k)
  then show ?case
    using ino_ok_get_nth [OF ok, of k] by (simp add: for_each_append read_nth_block_def)
qed

lemma length_file_blocks:
  assumes "bm_wf (bmgr im)"
  shows "length (concat (map (\<lambda>n. block_at im (f n)) [0..<k])) = 512 * k"
  using bm_wfD(2) [OF assms] by (induction k) simp_all

lemma length_contents:
  assumes "bm_wf (bmgr im)"
  shows "length (contents im ino) = unat (i_size ino)"
  using size_le_blocks [of ino] by (simp add: contents_def length_file_blocks [OF assms])

section \<open>Reading\<close>

lemma read_file_eq:
  assumes wf: "im_wf im" and lv: "live im i"
  shows "read_file im i clk =
    (let ino = inode_at im i in
     if i_size ino = 0 then Inr (None, 0, im)
     else Inr (Some (concat (map (\<lambda>n. block_at im (nth_bid im ino n)) [0..<nblk ino])), i_size ino,
               set_inode i (ino\<lparr>i_atime := clk 0\<rparr>) im))"
proof -
  let ?ino = "inode_at im i"
  note ok = im_wfD(4) [OF wf lv]
  have vi: "valid_inum i" using lv by (simp add: live_def)
  have fits: "\<not> of_nat (MAXFILE * BLOCK_SIZE) < i_size ?ino"
  proof -
    have "unat (i_size ?ino) \<le> 512 * nblk ?ino" by (rule size_le_blocks)
    also have "\<dots> \<le> 512 * 228" using ok by (simp add: ino_ok_def)
    finally show ?thesis by (simp add: word_less_nat_alt)
  qed
  have put: "put_inode im i (?ino\<lparr>i_atime := clk 0\<rparr>) = Inr (set_inode i (?ino\<lparr>i_atime := clk 0\<rparr>) im)"
    using ok by (intro put_inode_eq [OF im_wfD(1) [OF wf] vi]) (simp add: ino_ok_def inode_valid_def)
  show ?thesis
    using read_loop [OF ok, of "nblk ?ino" "[]"] fits put
    by (simp add: read_file_def get_inode_eq [OF im_wfD(1) [OF wf]] vi Let_def nblk_def)
qed

text \<open>Touching the fields of an inode that are not about its blocks changes nothing in the view.\<close>

lemma touch_inode:
  assumes wf: "im_wf im" and lv: "live im i"
    and same: "i_type x = i_type (inode_at im i)" "i_size x = i_size (inode_at im i)"
      "i_blocks x = i_blocks (inode_at im i)"
  shows "im_wf (set_inode i x im)" and "fs_view (set_inode i x im) = fs_view im"
proof -
  let ?ino = "inode_at im i" and ?im' = "set_inode i x im"
  note ok = im_wfD(4) [OF wf lv]
  have vi: "valid_inum i" using lv by (simp add: live_def)
  have vx: "inode_valid x" using ok same(3) by (simp add: ino_ok_def inode_valid_def)
  have at: "inode_at ?im' j = (if j = i then x else inode_at im j)" if "valid_inum j" for j
    using inode_at_set_inode [OF vx vi that] .
  have shape: "nblk x = nblk ?ino" "large x = large ?ino" "nth_bid im x = nth_bid im ?ino"
    using same by (simp_all add: nblk_def large_def nth_bid_def fun_eq_iff)
  have okx: "ino_ok im x" using ok vx shape same(3) by (simp add: ino_ok_def)
  have kx: "keeps im ?im' x" by (rule keeps_set_inode [OF okx vi])
  have ctx: "contents im x = contents im ?ino" using shape same by (simp add: contents_def)
  have bx: "bids im x = bids im ?ino" using shape by (simp add: bids_def)
  have lv': "live ?im' i" using lv at [OF vi] same(1) by (simp add: live_def)
  have keep: "keeps im ?im' (inode_at im j)" if "live im j" for j
    by (rule keeps_set_inode [OF im_wfD(4) [OF wf that] vi])
  have bm: "bm_wf (bmgr ?im')" by (rule set_inode_wf [OF im_wfD(1) [OF wf] vx])
  have nx: "2 \<le> next_inum ?im'" "next_inum ?im' \<le> 1024" using im_wfD [OF wf] by simp_all
  have oth: "inode_at ?im' j = inode_at im j" if "valid_inum j" "j \<noteq> i" for j
    using at that by simp
  have okk: "ino_ok ?im' (inode_at ?im' i)" using at [OF vi] keeps_ino_ok [OF kx okx] by simp
  have ap: "apart ?im' (inode_at ?im' i) (inode_at im j)" if "live im j" "j \<noteq> i" for j
    using im_wfD(5) [OF wf lv that(1)] that keeps_bids [OF kx] keeps_bids [OF keep [OF that(1)]]
      at [OF vi] bx shape same(3) by (auto simp: apart_def)
  note upd = im_wf_update [OF wf bm nx oth keep okk ap]
  have "fs_view ?im' i = fs_view im i"
    using lv lv' at [OF vi] same(1) keeps_contents [OF kx] ctx by (simp add: fs_view_def)
  then show "im_wf ?im'" "fs_view ?im' = fs_view im" using upd by auto
qed

end
