(* ===== verification/File_Table.thy ===== *)
theory File_Table
  imports File_Store
begin

text \<open>
  Creating and removing files: \<open>alloc_inode\<close> with its two scans of the inode table,
  \<open>free_inode\<close>, \<open>free_nth_block\<close> over a whole file and \<open>remove_file\<close>, against the abstract
  view of \<open>File_Store\<close>. The inode allocator is an instance of the interface
  \<open>allocator\<close>, as the block allocator is.
\<close>

section \<open>Scanning the inode table\<close>

lemma find_free_inode_spec:
  assumes wf: "bm_wf (bmgr im)" and "0 < hover" and "bound \<le> 1025"
  shows "(\<exists>h. find_free_inode im hover bound = Inr (Some (h, inode_at im h)) \<and> hover \<le> h \<and> h < bound
            \<and> i_type (inode_at im h) = 0) \<or>
     (find_free_inode im hover bound = Inr None \<and>
      (\<forall>h. hover \<le> h \<and> h < bound \<longrightarrow> i_type (inode_at im h) \<noteq> 0))"
  using assms(2,3)
proof (induction "unat bound - unat hover" arbitrary: hover)
  case 0
  then have "\<not> hover < bound" by (simp add: word_less_nat_alt)
  then show ?case by (auto simp: find_free_inode.simps [of im hover])
next
  case (Suc n)
  have lt: "hover < bound" using Suc.hyps(2) by (simp add: word_less_nat_alt)
  have "hover \<le> 1024" using lt Suc.prems(2) unfolding word_less_nat_alt word_le_nat_alt by simp
  with Suc.prems(1) have vi: "valid_inum hover" by (simp add: valid_inum_def)
  note unfold = find_free_inode.simps [of im hover bound] get_inode_eq [OF wf, of hover]
  show ?case
  proof (cases "i_type (inode_at im hover) = 0")
    case True
    then show ?thesis using lt vi unfold by auto
  next
    case False
    have rec: "find_free_inode im hover bound = find_free_inode im (hover + 1) bound"
      using lt vi False unfold by simp
    have up: "unat (hover + 1) = Suc (unat hover)" and lt1: "hover < hover + 1"
      using word_less_Suc_bound [OF lt] by simp_all
    have n: "n = unat bound - unat (hover + 1)" using Suc.hyps(2) up by simp
    have pos: "0 < hover + 1" using lt1 Suc.prems(1) by auto
    have split: "h = hover \<or> hover + 1 \<le> h" if "hover \<le> h" for h
      using that by unat_arith
    have up': "hover \<le> h" if "hover + 1 \<le> h" for h
      using lt1 that by (meson less_imp_le order_trans)
    from Suc.hyps(1) [OF n pos Suc.prems(2)] show ?thesis
    proof (elim disjE exE conjE)
      fix h assume "find_free_inode im (hover + 1) bound = Inr (Some (h, inode_at im h))"
        "hover + 1 \<le> h" "h < bound" "i_type (inode_at im h) = 0"
      then show ?thesis unfolding rec using up' by blast
    next
      assume "find_free_inode im (hover + 1) bound = Inr None"
        "\<forall>h. hover + 1 \<le> h \<and> h < bound \<longrightarrow> i_type (inode_at im h) \<noteq> 0"
      then show ?thesis unfolding rec using False split by blast
    qed
  qed
qed

definition found_inode :: "u32 \<Rightarrow> u32 \<Rightarrow> clock \<Rightarrow> inode_manager \<Rightarrow> inode" where
  "found_inode h ty clk im = (inode_at im h)\<lparr>i_type := ucast ty, i_size := 0, i_atime := clk 0,
     i_mtime := clk 1, i_ctime := clk 2\<rparr>"

lemma alloc_inode_cases:
  assumes wf: "im_wf im"
  shows "(\<exists>h nx. alloc_inode im ty clk =
            Inr (h, set_inode h (found_inode h ty clk im) (im\<lparr>next_inum := nx\<rparr>)) \<and>
            2 \<le> h \<and> h \<le> 1024 \<and> i_type (inode_at im h) = 0 \<and> 2 \<le> nx \<and> nx \<le> 1024) \<or>
     (alloc_inode im ty clk = Inl Exit \<and>
      (\<forall>h. 2 \<le> h \<and> h \<le> 1024 \<longrightarrow> i_type (inode_at im h) \<noteq> 0))"
proof -
  note bm = im_wfD(1) [OF wf] and nx = im_wfD(2,3) [OF wf]
  have found: "alloc_found im h (inode_at im h) ty clk =
      Inr (h, set_inode h (found_inode h ty clk im)
        (im\<lparr>next_inum := (if 1024 < h + 1 then 2 else h + 1)\<rparr>))"
    if "2 \<le> h" "h \<le> 1024" for h
  proof -
    have "valid_inum h" using that unfolding valid_inum_unat word_le_nat_alt by simp
    then show ?thesis
      using put_inode_eq [of "im\<lparr>next_inum := (if 1024 < h + 1 then 2 else h + 1)\<rparr>" h
          "found_inode h ty clk im"] bm
      by (simp add: alloc_found_def Let_def found_inode_def inode_valid_def
          inode_at_valid [unfolded inode_valid_def, simplified])
  qed
  have next_ok: "2 \<le> (if 1024 < h + 1 then 2 else h + 1) \<and> (if 1024 < h + 1 then 2 else h + 1) \<le> 1024"
    if "2 \<le> h" "h \<le> 1024" for h :: u32
  proof -
    have "unat (h + 1) = Suc (unat h)" "2 \<le> unat h" "unat h \<le> 1024"
      using that by (simp_all add: word_le_nat_alt unat_word_ariths)
    then show ?thesis by (simp add: word_le_nat_alt word_less_nat_alt)
  qed
  have below: "h \<le> 1024" if "h < 1025" for h :: u32
    using that unfolding word_less_nat_alt word_le_nat_alt by simp
  have p: "0 < next_inum im" "next_inum im \<le> 1025"
    using nx unfolding word_less_nat_alt word_le_nat_alt by simp_all
  consider (first) h where "find_free_inode im (next_inum im) 1025 = Inr (Some (h, inode_at im h))"
      "next_inum im \<le> h" "h < 1025" "i_type (inode_at im h) = 0"
    | (second) h where "find_free_inode im (next_inum im) 1025 = Inr None"
      "find_free_inode im 2 (next_inum im) = Inr (Some (h, inode_at im h))"
      "2 \<le> h" "h < next_inum im" "i_type (inode_at im h) = 0"
    | (none) "find_free_inode im (next_inum im) 1025 = Inr None"
      "find_free_inode im 2 (next_inum im) = Inr None"
      "\<And>h. next_inum im \<le> h \<Longrightarrow> h < 1025 \<Longrightarrow> i_type (inode_at im h) \<noteq> 0"
      "\<And>h. 2 \<le> h \<Longrightarrow> h < next_inum im \<Longrightarrow> i_type (inode_at im h) \<noteq> 0"
    using find_free_inode_spec [OF bm p(1), of 1025] find_free_inode_spec [OF bm _ p(2), of 2]
    by fastforce
  then show ?thesis
  proof cases
    case first
    then have h: "2 \<le> h" "h \<le> 1024" using nx below by auto
    then show ?thesis using first found [OF h] next_ok [OF h] by (auto simp: alloc_inode_def)
  next
    case second
    then have h: "2 \<le> h" "h \<le> 1024" using nx by auto
    then show ?thesis using second found [OF h] next_ok [OF h] by (auto simp: alloc_inode_def)
  next
    case none
    have "i_type (inode_at im h) \<noteq> 0" if "2 \<le> h" "h \<le> 1024" for h
    proof (cases "h < next_inum im")
      case True
      with none(4) that show ?thesis by simp
    next
      case False
      moreover have "h < 1025" using that(2) by (rule le_less_trans) simp
      ultimately show ?thesis using none(3) by simp
    qed
    then show ?thesis using none(1,2) by (simp add: alloc_inode_def)
  qed
qed

section \<open>Creating a file\<close>

lemma next_inum_irrelevant [simp]:
  "inode_at (im\<lparr>next_inum := nx\<rparr>) = inode_at im" "live (im\<lparr>next_inum := nx\<rparr>) = live im"
  "nth_bid (im\<lparr>next_inum := nx\<rparr>) = nth_bid im" "bids (im\<lparr>next_inum := nx\<rparr>) = bids im"
  "contents (im\<lparr>next_inum := nx\<rparr>) = contents im" "ino_ok (im\<lparr>next_inum := nx\<rparr>) = ino_ok im"
  "keeps (im\<lparr>next_inum := nx\<rparr>) im' = keeps im im'"
proof -
  let ?im = "im\<lparr>next_inum := nx\<rparr>"
  have d: "dsk (bmgr ?im) = dsk (bmgr im)" by simp
  show "inode_at ?im = inode_at im" "live ?im = live im" "nth_bid ?im = nth_bid im"
    "bids ?im = bids im" "contents ?im = contents im" by (rule dsk_irrelevant [OF d])+
  then show "ino_ok ?im = ino_ok im" "keeps ?im im' = keeps im im'"
    by (intro ext, simp add: ino_ok_def keeps_def)+
qed

lemma alloc_inode_refines:
  assumes wf: "im_wf im" and ty: "(ucast ty :: u16) \<noteq> 0"
    and run: "alloc_inode im ty clk = Inr (h, im')"
  shows "im_wf im'" and "fs_view im' = (fs_view im)(h \<mapsto> (ucast ty, []))"
    and "2 \<le> h" and "h \<le> 1024" and "\<not> live im h" and "live im' h"
proof -
  let ?x = "found_inode h ty clk im"
  obtain nx where im': "im' = set_inode h ?x (im\<lparr>next_inum := nx\<rparr>)"
    and h: "2 \<le> h" "h \<le> 1024" and free: "i_type (inode_at im h) = 0" and nx: "2 \<le> nx" "nx \<le> 1024"
    using alloc_inode_cases [OF wf, of ty clk] run by auto
  have vi: "valid_inum h" using h unfolding valid_inum_unat word_le_nat_alt by simp
  have vx: "inode_valid ?x" using inode_at_valid [of im h] by (simp add: found_inode_def inode_valid_def)
  have at: "inode_at im' j = (if j = h then ?x else inode_at im j)" if "valid_inum j" for j
    using inode_at_set_inode [OF vx vi that, of "im\<lparr>next_inum := nx\<rparr>"] im' by simp
  have nb: "nblk ?x = 0" by (simp add: found_inode_def)
  have keep: "keeps im im' (inode_at im j)" if "live im j" "j \<noteq> h" for j
    using keeps_set_inode [of "im\<lparr>next_inum := nx\<rparr>" _ h ?x] im_wfD(4) [OF wf that(1)] vi im' by simp
  have bm: "bm_wf (bmgr im')" using im' set_inode_wf [OF _ vx] im_wfD(1) [OF wf] by simp
  have nx': "2 \<le> next_inum im'" "next_inum im' \<le> 1024" using im' nx by simp_all
  have oth: "inode_at im' j = inode_at im j" if "valid_inum j" "j \<noteq> h" for j using at that by simp
  have okk: "ino_ok im' (inode_at im' h)" using at [OF vi] nb vx by (simp add: ino_ok_def large_def)
  have ap: "apart im' (inode_at im' h) (inode_at im j)" if "live im j" "j \<noteq> h" for j
    using at [OF vi] nb by (simp add: apart_def bids_def large_def)
  note upd = im_wf_update [OF wf bm nx' oth keep okk ap]
  show "live im' h" using vi at [OF vi] ty by (simp add: live_def found_inode_def)
  then have "fs_view im' h = Some (ucast ty, [])"
    using at [OF vi] nb by (simp add: fs_view_def contents_def found_inode_def)
  then show "im_wf im'" "fs_view im' = (fs_view im)(h \<mapsto> (ucast ty, []))" using upd by auto
  show "2 \<le> h" "h \<le> 1024" by (fact h)+
  show "\<not> live im h" using free by (simp add: live_def)
qed

lemma alloc_inode_Inl:
  assumes wf: "im_wf im"
  shows "alloc_inode im ty clk = Inl e \<longleftrightarrow> e = Exit \<and> (\<forall>h. 2 \<le> h \<and> h \<le> 1024 \<longrightarrow> live im h)"
proof -
  have "live im h \<longleftrightarrow> i_type (inode_at im h) \<noteq> 0" if "2 \<le> h" "h \<le> 1024" for h
    using that unfolding live_def valid_inum_unat word_le_nat_alt by simp
  then show ?thesis using alloc_inode_cases [OF wf, of ty clk] by fastforce
qed

interpretation inum: allocator "\<lambda>im. alloc_inode im T_FILE clk" "\<lambda>im. {i. live im i}" im_wf
  for clk :: clock
proof
  fix im h im' assume wf: "im_wf im" and run: "alloc_inode im T_FILE clk = Inr (h, im')"
  have ty: "(ucast T_FILE :: u16) \<noteq> 0" by simp
  note ref = alloc_inode_refines [OF wf ty run]
  show "h \<notin> {i. live im i}" "im_wf im'" using ref by simp_all
  have "dom (fs_view im') = insert h (dom (fs_view im))" using ref(2) by simp
  moreover have "dom (fs_view s) = {i. live s i}" for s by (auto simp: fs_view_def split: if_splits)
  ultimately show "{i. live im' i} = insert h {i. live im i}" by simp
qed

section \<open>Freeing\<close>

lemma free_loop:
  assumes "bm_wf (bmgr im)" and "\<And>n. n \<in> set ns \<Longrightarrow> get_nth_block im ino n = Inr (nth_bid im ino n)"
  shows "\<exists>im'. for_each (\<lambda>start im. free_nth_block im ino start) ns im = Inr im' \<and> bm_wf (bmgr im')
    \<and> dsk (bmgr im') = dsk (bmgr im) \<and> next_inum im' = next_inum im
    \<and> used im' = used im - nth_bid im ino ` set ns"
  using assms
proof (induction ns arbitrary: im)
  case Nil
  then show ?case by simp
next
  case (Cons n ns)
  let ?im1 = "im\<lparr>bmgr := free_block (bmgr im) (nth_bid im ino n)\<rparr>"
  have same: "nth_bid ?im1 ino m = nth_bid im ino m" for m by (simp add: nth_bid_def)
  have step: "free_nth_block im ino n = Inr ?im1"
    using Cons.prems(2) [of n] by (simp add: free_nth_block_def)
  have bm1: "bm_wf (bmgr ?im1)" using Cons.prems(1) free_block_wf by simp
  have get1: "get_nth_block ?im1 ino m = Inr (nth_bid ?im1 ino m)" if "m \<in> set ns" for m
    using Cons.prems(2) [of m] that same dsk_irrelevant(6) [of ?im1 im] by simp
  from Cons.IH [OF bm1 get1] obtain im' where im':
    "for_each (\<lambda>start im. free_nth_block im ino start) ns ?im1 = Inr im'" "bm_wf (bmgr im')"
    "dsk (bmgr im') = dsk (bmgr im)" "next_inum im' = next_inum im"
    "used im' = used im - {nth_bid im ino n} - nth_bid im ino ` set ns"
    using same by auto
  then show ?case using step by (intro exI [of _ im']) auto
qed

lemma remove_file_refines:
  assumes wf: "im_wf im" and lv: "live im i"
  shows "\<exists>im'. remove_file im i = Inr im' \<and> im_wf im' \<and> fs_view im' = (fs_view im)(i := None)"
proof -
  let ?ino = "inode_at im i"
  note ok = im_wfD(4) [OF wf lv] and bm = im_wfD(1) [OF wf]
  have vi: "valid_inum i" and live0: "i_type ?ino \<noteq> 0" using lv by (simp_all add: live_def)
  obtain im1 where loop: "for_each (\<lambda>start im. free_nth_block im ?ino start) [0..<nblk ?ino] im = Inr im1"
    and bm1: "bm_wf (bmgr im1)" and d1: "dsk (bmgr im1) = dsk (bmgr im)"
    and nx1: "next_inum im1 = next_inum im" and u1: "used im1 = used im - bids im ?ino"
    using free_loop [OF bm, of "[0..<nblk ?ino]" ?ino] ino_ok_get_nth(1) [OF ok]
    by (auto simp: bids_def atLeast0LessThan)
  let ?x = "?ino\<lparr>i_type := 0\<rparr>"
  let ?im' = "set_inode i ?x im1"
  have vx: "inode_valid ?x" using inode_at_valid [of im i] by (simp add: inode_valid_def)
  have "free_inode im1 i = Inr ?im'"
    using put_inode_eq [OF bm1 vi vx] live0 vi
    by (simp add: free_inode_def get_inode_eq [OF bm1] dsk_irrelevant(1) [OF d1])
  then have run: "remove_file im i = Inr ?im'"
    using loop vi by (simp add: remove_file_def get_inode_eq [OF bm] nblk_def)
  have at: "inode_at ?im' j = (if j = i then ?x else inode_at im j)" if "valid_inum j" for j
    using inode_at_set_inode [OF vx vi that, of im1] dsk_irrelevant(1) [OF d1] by simp
  have keep: "keeps im ?im' (inode_at im j)" if "live im j" "j \<noteq> i" for j
  proof -
    note okj = im_wfD(4) [OF wf that(1)]
    have disj: "bids im ?ino \<inter> bids im (inode_at im j) = {}"
      using im_wfD(5) [OF wf lv that(1)] that(2) by (simp add: apart_def)
    have "keeps im im1 (inode_at im j)"
      using d1 u1 disj bids_used [OF okj] by (auto simp: keeps_def)
    then have "ino_ok im1 (inode_at im j)" and b: "bids im1 (inode_at im j) = bids im (inode_at im j)"
      using keeps_ino_ok okj keeps_bids by blast+
    from keeps_set_inode [OF this(1) vi, of ?x] b d1 show ?thesis by (simp add: keeps_def)
  qed
  have dead: "\<not> live ?im' i" using at [OF vi] by (simp add: live_def)
  have bm': "bm_wf (bmgr ?im')" by (rule set_inode_wf [OF bm1 vx])
  have nx: "2 \<le> next_inum ?im'" "next_inum ?im' \<le> 1024" using im_wfD [OF wf] nx1 by simp_all
  have oth: "inode_at ?im' j = inode_at im j" if "valid_inum j" "j \<noteq> i" for j using at that by simp
  have "im_wf ?im'" "fs_view ?im' = (fs_view im)(i := fs_view ?im' i)"
    using im_wf_update [OF wf bm' nx oth keep] dead by auto
  moreover have "fs_view ?im' i = None" using dead by (simp add: fs_view_def)
  ultimately show ?thesis using run by auto
qed

end
