(* ===== verification/File_Write.thy ===== *)
theory File_Write
  imports File_Table
begin

text \<open>
  \<open>write_file\<close> against the abstract view: allocating the blocks of a growing file, freeing
  those of a shrinking one, writing the data block by block, and the inode at the end.
\<close>

section \<open>Growing a file\<close>

lemma alloc_nth_block_spec:
  assumes bm: "bm_wf (bmgr im)" and v: "inode_valid ino" and n: "n < MAXFILE"
    and ind: "100 \<le> n \<Longrightarrow> ind ino < 12"
    and run: "alloc_nth_block im ino n buf False = Inr (im', ino')"
  shows "\<exists>b. is_data_block b \<and> b \<notin> used im \<and> used im' = insert b (used im) \<and> bm_wf (bmgr im')
    \<and> (\<forall>m < MAXFILE. nth_bid im' ino' m = (if m = n then b else nth_bid im ino m))
    \<and> ino' = ino\<lparr>i_blocks := i_blocks ino'\<rparr> \<and> inode_valid ino' \<and> ind ino' = ind ino
    \<and> next_inum im' = next_inum im \<and> (\<forall>x. x \<noteq> ind ino \<longrightarrow> block_at im' x = block_at im x)
    \<and> (n < 100 \<longrightarrow> dsk (bmgr im') = dsk (bmgr im))"
proof -
  obtain b bm1 where al: "alloc_block (bmgr im) = Inr (b, bm1)"
    using run by (auto simp: alloc_nth_block_def elim!: bind_res_InrE)
  note data = alloc_block_Inr(1) [OF bm al] and fr = alloc_block_frame [OF bm al]
    and bm1 = alloc_block_wf [OF bm al]
  show ?thesis
  proof (cases "n < 100")
    case True
    then have eq: "im' = im\<lparr>bmgr := bm1\<rparr>" "ino' = ino\<lparr>i_blocks := (i_blocks ino)[n := b]\<rparr>"
      using run al by (simp_all add: alloc_nth_block_def)
    have "nth_bid im' ino' m = (if m = n then b else nth_bid im ino m)" for m
      using True v fr(1) by (simp add: eq nth_bid_def inode_valid_def)
    then show ?thesis
      using True v data fr bm1 by (intro exI [of _ b]) (simp add: eq inode_valid_def)
  next
    case False
    let ?blk = "block_at im (ind ino)" and ?k = "n - 100"
    have lo: "ind ino < 12" using ind False by simp
    have len: "length ?blk = 512" by (rule bm_wfD(2) [OF bm])
    have fit: "4 * ?k + 4 \<le> length ?blk" using n False len by simp
    have k: "?k < 128" using n False by simp
    have put: "splice_at (4 * ?k) (le_encode 4 b) ?blk = put_u32 ?blk ?k b"
      by (simp add: put_u32_def)
    have wr: "write_block bm1 (ind ino) (Buffer (put_u32 ?blk ?k b)) =
        Inr (set_block (ind ino) (put_u32 ?blk ?k b) bm1)"
      using fit len by (intro write_block_legal low_legal lo) simp
    have eq: "im' = im\<lparr>bmgr := set_block (ind ino) (put_u32 ?blk ?k b) bm1\<rparr>" "ino' = ino"
      using run al False k put fr(1) wr low_legal [OF lo]
      by (auto simp: alloc_nth_block_def Let_def)
    have "nth_bid im' ino' m = (if m = n then b else nth_bid im ino m)" if "m < MAXFILE" for m
    proof (cases "m < 100")
      case True
      then show ?thesis using False by (simp add: eq nth_bid_def)
    next
      case m: False
      then have fit_m: "4 * (m - 100) + 4 \<le> length ?blk" using that len by simp
      show ?thesis
        using get_put_u32 [OF fit fit_m] m False fr(1) by (auto simp: eq nth_bid_def)
    qed
    then show ?thesis
      using False v data fr bm1 fit len set_block_wf [OF bm1, of "put_u32 ?blk ?k b"]
      by (intro exI [of _ b]) (simp add: eq)
  qed
qed

text \<open>The state after the blocks \<open>a, \<dots>, k - 1\<close> of a file have been allocated.\<close>

definition grown :: "inode_manager \<Rightarrow> inode \<Rightarrow> nat \<Rightarrow> nat \<Rightarrow> inode_manager \<Rightarrow> inode \<Rightarrow> bool" where
  "grown im ino a k im' ino' \<longleftrightarrow> bm_wf (bmgr im') \<and> next_inum im' = next_inum im
     \<and> ino' = ino\<lparr>i_blocks := i_blocks ino'\<rparr> \<and> inode_valid ino' \<and> ind ino' = ind ino
     \<and> (\<forall>m < MAXFILE. m \<notin> {a..<k} \<longrightarrow> nth_bid im' ino' m = nth_bid im ino m)
     \<and> (\<forall>m \<in> {a..<k}. is_data_block (nth_bid im' ino' m) \<and> nth_bid im' ino' m \<notin> used im)
     \<and> inj_on (nth_bid im' ino') {a..<k}
     \<and> used im' = used im \<union> nth_bid im' ino' ` {a..<k}
     \<and> (\<forall>x. x \<noteq> ind ino \<longrightarrow> block_at im' x = block_at im x)
     \<and> (k \<le> 100 \<longrightarrow> dsk (bmgr im') = dsk (bmgr im))"

lemma grown_step:
  assumes g: "grown im ino a k im1 ino1" and "a \<le> k" and k: "k < MAXFILE"
    and ind: "100 \<le> k \<Longrightarrow> ind ino < 12"
    and run: "alloc_nth_block im1 ino1 k buf False = Inr (im2, ino2)"
  shows "grown im ino a (Suc k) im2 ino2"
proof -
  have "100 \<le> k \<Longrightarrow> ind ino1 < 12" using g ind by (simp add: grown_def)
  then have "\<exists>b. is_data_block b \<and> b \<notin> used im1 \<and> used im2 = insert b (used im1) \<and> bm_wf (bmgr im2)
    \<and> (\<forall>m < MAXFILE. nth_bid im2 ino2 m = (if m = k then b else nth_bid im1 ino1 m))
    \<and> ino2 = ino1\<lparr>i_blocks := i_blocks ino2\<rparr> \<and> inode_valid ino2 \<and> ind ino2 = ind ino1
    \<and> next_inum im2 = next_inum im1 \<and> (\<forall>x. x \<noteq> ind ino1 \<longrightarrow> block_at im2 x = block_at im1 x)
    \<and> (k < 100 \<longrightarrow> dsk (bmgr im2) = dsk (bmgr im1))"
    using g by (intro alloc_nth_block_spec [OF _ _ k _ run]) (simp_all add: grown_def)
  then obtain b where b:
    "is_data_block b" "b \<notin> used im1" "used im2 = insert b (used im1)" "bm_wf (bmgr im2)"
    "\<And>m. m < MAXFILE \<Longrightarrow> nth_bid im2 ino2 m = (if m = k then b else nth_bid im1 ino1 m)"
    "ino2 = ino1\<lparr>i_blocks := i_blocks ino2\<rparr>" "inode_valid ino2" "ind ino2 = ind ino1"
    "next_inum im2 = next_inum im1" "\<And>x. x \<noteq> ind ino1 \<Longrightarrow> block_at im2 x = block_at im1 x"
    "k < 100 \<Longrightarrow> dsk (bmgr im2) = dsk (bmgr im1)"
    by blast
  have new: "nth_bid im2 ino2 m = nth_bid im1 ino1 m" if "m \<in> {a..<k}" for m
    using b(5) [of m] that k by simp
  have img: "nth_bid im2 ino2 ` {a..<k} = nth_bid im1 ino1 ` {a..<k}"
    using new by (intro image_cong) auto
  have nk: "nth_bid im2 ino2 k = b" using b(5) [OF k] by simp
  have ivl: "{a..<Suc k} = insert k {a..<k}" using assms(2) by auto
  have u1: "used im1 = used im \<union> nth_bid im1 ino1 ` {a..<k}" using g by (simp add: grown_def)
  have inj: "inj_on (nth_bid im2 ino2) {a..<k}"
    using g inj_on_cong [of "{a..<k}" "nth_bid im2 ino2" "nth_bid im1 ino1"] new
    by (simp add: grown_def)
  have inj': "inj_on (nth_bid im2 ino2) {a..<Suc k}"
    unfolding ivl using inj nk b(2) u1 img by auto
  have old: "nth_bid im2 ino2 m = nth_bid im ino m" if "m < MAXFILE" "m \<notin> {a..<Suc k}" for m
    using b(5) [OF that(1)] that g assms(2) by (auto simp: grown_def)
  have mid: "is_data_block (nth_bid im2 ino2 m) \<and> nth_bid im2 ino2 m \<notin> used im" if "m \<in> {a..<Suc k}" for m
  proof (cases "m = k")
    case True
    then show ?thesis using nk b(1,2) u1 by auto
  next
    case False
    with that have "m \<in> {a..<k}" by auto
    then show ?thesis using new g by (auto simp: grown_def)
  qed
  have us: "used im2 = used im \<union> nth_bid im2 ino2 ` {a..<Suc k}"
    unfolding ivl using b(3) u1 img nk by auto
  have blk: "block_at im2 x = block_at im x" if "x \<noteq> ind ino" for x
    using b(10) [of x] that g by (simp add: grown_def)
  have rec: "ino2 = ino\<lparr>i_blocks := i_blocks ino2\<rparr>"
  proof -
    have "ino1 = ino\<lparr>i_blocks := i_blocks ino1\<rparr>" using g by (simp add: grown_def)
    then have "ino1\<lparr>i_blocks := bl\<rparr> = ino\<lparr>i_blocks := bl\<rparr>" for bl
      by (metis inode.surjective inode.update_convs(6))
    then show ?thesis using b(6) by simp
  qed
  have "bm_wf (bmgr im2)" "next_inum im2 = next_inum im" "inode_valid ino2" "ind ino2 = ind ino"
    using b(4,7,8,9) g by (simp_all add: grown_def)
  moreover have "dsk (bmgr im2) = dsk (bmgr im)" if "Suc k \<le> 100"
    using b(11) that g by (simp add: grown_def)
  ultimately show ?thesis
    unfolding grown_def using inj' old mid us blk rec by blast
qed

lemma alloc_nth_block_Inl:
  assumes bm: "bm_wf (bmgr im)" and n: "n < MAXFILE" and ind: "100 \<le> n \<Longrightarrow> ind ino < 12"
    and run: "alloc_nth_block im ino n buf False = Inl e"
  shows "e = Exit" and "\<forall>b. is_data_block b \<longrightarrow> b \<in> used im"
proof -
  have "alloc_block (bmgr im) = Inl e"
  proof (cases "alloc_block (bmgr im)")
    case (Inl e')
    then show ?thesis using run by (simp add: alloc_nth_block_def)
  next
    case (Inr p)
    obtain b bm1 where p: "p = (b, bm1)" by (cases p)
    with Inr have al: "alloc_block (bmgr im) = Inr (b, bm1)" by simp
    have bm1: "bm_wf bm1" by (rule alloc_block_wf [OF bm al])
    have len: "length (blocks (dsk bm1) (ind ino)) = 512" by (rule bm_wfD(2) [OF bm1])
    show ?thesis
    proof (cases "n < 100")
      case True
      then show ?thesis using run al by (simp add: alloc_nth_block_def)
    next
      case False
      then have "n - 100 < 128" "ind ino < 32768" "4 * (n - 100) + 4 \<le> 512"
        using n ind low_legal [of "ind ino"] by simp_all
      then show ?thesis
        using False run al len by (simp add: alloc_nth_block_def Let_def write_block_legal)
    qed
  qed
  then show "e = Exit" "\<forall>b. is_data_block b \<longrightarrow> b \<in> used im"
    using alloc_block_Inl [OF bm] by (auto simp: used_blocks_def)
qed

definition free_blocks :: "inode_manager \<Rightarrow> blockid set" where
  "free_blocks im = {b. is_data_block b \<and> b \<notin> used im}"

lemma grow_loop:
  assumes bm: "bm_wf (bmgr im)" and v: "inode_valid ino" and "a \<le> k" and "k \<le> MAXFILE"
    and ind: "100 < k \<Longrightarrow> ind ino < 12"
  shows "(\<exists>im' ino'. for_each (\<lambda>start (im, ino). alloc_nth_block im ino start [] False) [a..<k] (im, ino)
            = Inr (im', ino') \<and> grown im ino a k im' ino') \<or>
    (for_each (\<lambda>start (im, ino). alloc_nth_block im ino start [] False) [a..<k] (im, ino) = Inl Exit
      \<and> card (free_blocks im) < k - a)"
  using assms(3-5)
proof (induction k rule: dec_induct)
  case base
  show ?case using bm v by (simp add: grown_def)
next
  case (step k)
  let ?body = "\<lambda>start (im, ino). alloc_nth_block im ino start [] False"
  have k: "k < MAXFILE" and ind: "100 \<le> k \<Longrightarrow> ind ino < 12" using step.prems by simp_all
  have split: "for_each ?body [a..<Suc k] s = bind_res (for_each ?body [a..<k] s) (\<lambda>s. ?body k s)" for s
    using step.hyps by (simp only: for_each_upt_Suc)
  from step.IH k ind consider (ok) im1 ino1 where "for_each ?body [a..<k] (im, ino) = Inr (im1, ino1)"
      "grown im ino a k im1 ino1"
    | (no) "for_each ?body [a..<k] (im, ino) = Inl Exit" "card (free_blocks im) < k - a" by force
  then show ?case
  proof cases
    case no
    then have "for_each ?body [a..<Suc k] (im, ino) = Inl Exit" by (simp only: split bind_res.simps)
    then show ?thesis using no(2) step.hyps(1) by simp
  next
    case ok
    have ind1: "100 \<le> k \<Longrightarrow> ind ino1 < 12" using ok(2) ind by (simp add: grown_def)
    have bm1: "bm_wf (bmgr im1)" using ok(2) by (simp add: grown_def)
    show ?thesis
    proof (cases "alloc_nth_block im1 ino1 k [] False")
      case (Inl e)
      note full = alloc_nth_block_Inl [OF bm1 k ind1 Inl]
      have "for_each ?body [a..<Suc k] (im, ino) = Inl Exit"
        using ok(1) Inl full(1) by (simp only: split bind_res.simps prod.case)
      moreover have "free_blocks im \<subseteq> nth_bid im1 ino1 ` {a..<k}"
        using full(2) ok(2) by (auto simp: free_blocks_def grown_def)
      then have "card (free_blocks im) \<le> card (nth_bid im1 ino1 ` {a..<k})"
        by (intro card_mono) simp_all
      then have "card (free_blocks im) \<le> k - a"
        using card_image_le [of "{a..<k}" "nth_bid im1 ino1"] by simp
      ultimately show ?thesis using step.hyps(1) by simp
    next
      case (Inr p)
      obtain im2 ino2 where p: "p = (im2, ino2)" by (cases p)
      have "grown im ino a (Suc k) im2 ino2"
        using grown_step [OF ok(2) step.hyps(1) k ind] Inr p by blast
      moreover have "for_each ?body [a..<Suc k] (im, ino) = Inr (im2, ino2)"
        using ok(1) Inr p by (simp only: split bind_res.simps prod.case)
      ultimately show ?thesis by blast
    qed
  qed
qed

section \<open>Writing the data\<close>

definition chunk :: "bytes \<Rightarrow> nat \<Rightarrow> block" where
  "chunk buf n = resize_str 512 (slice_at (512 * n) 512 buf)"

lemma length_chunk [simp]: "length (chunk buf n) = 512"
  by (simp add: chunk_def resize_str_def slice_at_def)

lemma concat_chunks: "concat (map (chunk buf) [0..<k]) = resize_str (512 * k) buf"
proof (induction k)
  case 0
  show ?case by (simp add: resize_str_def)
next
  case (Suc k)
  have "resize_str (512 * k) buf @ chunk buf k = resize_str (512 * k + 512) buf"
  proof (cases "512 * k \<le> length buf")
    case True
    then show ?thesis by (simp add: resize_str_def chunk_def slice_at_def take_add)
  next
    case False
    then show ?thesis
      by (simp add: resize_str_def chunk_def slice_at_def flip: replicate_add)
  qed
  then show ?case using Suc.IH by (simp add: add.commute)
qed

lemma take_chunks: "length buf \<le> 512 * k \<Longrightarrow> take (length buf) (concat (map (chunk buf) [0..<k])) = buf"
  by (simp add: concat_chunks resize_str_def)

text \<open>The state after the first \<open>k\<close> blocks of the data have been written.\<close>

definition written :: "inode_manager \<Rightarrow> inode \<Rightarrow> bytes \<Rightarrow> nat \<Rightarrow> inode_manager \<Rightarrow> bool" where
  "written im ino buf k im' \<longleftrightarrow> bm_wf (bmgr im') \<and> next_inum im' = next_inum im \<and> used im' = used im
     \<and> (\<forall>n < k. block_at im' (nth_bid im ino n) = chunk buf n)
     \<and> (\<forall>x. x \<notin> nth_bid im ino ` {..<k} \<longrightarrow> block_at im' x = block_at im x)"

text \<open>A file whose first \<open>N\<close> blocks can be addressed and are distinct data blocks.\<close>

definition mapped :: "inode_manager \<Rightarrow> inode \<Rightarrow> nat \<Rightarrow> bool" where
  "mapped im ino N \<longleftrightarrow> N \<le> MAXFILE \<and> (100 < N \<longrightarrow> ind ino < 12)
     \<and> (\<forall>n < N. is_data_block (nth_bid im ino n)) \<and> inj_on (nth_bid im ino) {..<N}"

lemma written_nth_bid:
  assumes m: "mapped im ino N" and w: "written im ino buf k im'" and "k \<le> N" and n: "n < N"
  shows "nth_bid im' ino n = nth_bid im ino n"
proof (cases "n < 100")
  case False
  then have lo: "ind ino < 12" using m n by (simp add: mapped_def)
  have "ind ino \<notin> nth_bid im ino ` {..<k}"
  proof
    assume "ind ino \<in> nth_bid im ino ` {..<k}"
    then have "is_data_block (ind ino)" using m \<open>k \<le> N\<close> by (auto simp: mapped_def)
    then show False using low_not_data [OF lo] by simp
  qed
  then show ?thesis using w False by (simp add: written_def nth_bid_def)
qed (simp add: nth_bid_def)

lemma write_nth_block_step:
  assumes m: "mapped im ino N" and w: "written im ino buf k im1" and k: "k < N"
  shows "\<exists>im2. write_nth_block im1 ino k (chunk buf k) = Inr im2 \<and> written im ino buf (Suc k) im2"
proof -
  let ?b = "nth_bid im ino k"
  have data: "is_data_block ?b" using m k by (simp add: mapped_def)
  then have legal: "?b < 32768" by blast
  have nb: "nth_bid im1 ino k = ?b" using written_nth_bid [OF m w] k by simp
  have "get_nth_block im1 ino k = Inr ?b"
    using m k nb get_nth_block_eq [of k ino im1] low_legal [of "ind ino"] by (simp add: mapped_def)
  then have run: "write_nth_block im1 ino k (chunk buf k) =
      Inr (im1\<lparr>bmgr := set_block ?b (chunk buf k) (bmgr im1)\<rparr>)"
    using write_block_legal [OF legal] by (simp add: write_nth_block_def)
  have other: "nth_bid im ino n \<noteq> ?b" if "n < k" for n
    using m that k inj_onD [of "nth_bid im ino" "{..<N}" n k] by (auto simp: mapped_def)
  have "written im ino buf (Suc k) (im1\<lparr>bmgr := set_block ?b (chunk buf k) (bmgr im1)\<rparr>)"
    using w other set_block_wf by (auto simp: written_def less_Suc_eq lessThan_Suc)
  then show ?thesis using run by blast
qed

lemma chunk_slice: "512 * k + 512 \<le> length buf \<Longrightarrow> slice_at (512 * k) 512 buf = chunk buf k"
  by (simp add: chunk_def resize_str_def slice_at_def)

lemma write_loop:
  assumes m: "mapped im ino N" and bm: "bm_wf (bmgr im)" and "k \<le> N" and "512 * k \<le> length buf"
  shows "\<exists>im'. for_each (\<lambda>start im. bind_res (assign_str buf (BLOCK_SIZE * start) BLOCK_SIZE)
              (\<lambda>content. write_nth_block im ino start content)) [0..<k] im = Inr im'
    \<and> written im ino buf k im'"
  using assms(3,4)
proof (induction k)
  case 0
  then show ?case using bm by (simp add: written_def)
next
  case (Suc k)
  then obtain im1 where im1: "for_each (\<lambda>start im. bind_res (assign_str buf (BLOCK_SIZE * start) BLOCK_SIZE)
      (\<lambda>content. write_nth_block im ino start content)) [0..<k] im = Inr im1" "written im ino buf k im1"
    by auto
  have "assign_str buf (BLOCK_SIZE * k) BLOCK_SIZE = Inr (chunk buf k)"
    using Suc.prems(2) by (simp add: assign_str_def chunk_slice)
  with write_nth_block_step [OF m im1(2)] Suc.prems(1) im1(1) show ?case
    by (simp only: for_each_upt_Suc bind_res.simps le0)
qed

lemma write_blocks_spec:
  assumes m: "mapped im ino N" and bm: "bm_wf (bmgr im)" and len: "unat sz = length buf"
    and N: "N = unat (blnum sz)"
  shows "\<exists>im'. write_blocks im ino buf sz (blnum sz) = Inr im' \<and> written im ino buf N im'"
proof (cases "N = 0")
  case True
  then have "blnum sz = 0" using N by (simp add: unat_eq_0)
  then show ?thesis using True bm by (simp add: write_blocks_def written_def)
next
  case False
  have ceil: "N = (length buf + 511) div 512" using N len by (simp add: unat_blnum)
  have le: "N \<le> 228" using m by (simp add: mapped_def)
  have nz: "blnum sz \<noteq> 0" using False N by (auto simp: unat_eq_0)
  have lo: "512 * (N - 1) < length buf" and hi: "length buf \<le> 512 * N"
    using False ceil by simp_all
  obtain im1 where im1: "for_each (\<lambda>start im. bind_res (assign_str buf (BLOCK_SIZE * start) BLOCK_SIZE)
      (\<lambda>content. write_nth_block im ino start content)) [0..<N - 1] im = Inr im1"
    "written im ino buf (N - 1) im1"
    using write_loop [OF m bm, of "N - 1" buf] lo by auto
  have "unat (blnum sz * 512) = N * 512" using N le by (simp add: unat_word_ariths)
  then have pad: "unat (blnum sz * 512 - sz) = N * 512 - length buf"
    using len hi by (subst unat_sub) (simp_all add: word_le_nat_alt)
  have tail: "unat (512 - (blnum sz * 512 - sz)) = length buf - 512 * (N - 1)"
  proof -
    have "unat (blnum sz * 512 - sz) \<le> 512" using pad lo hi False by linarith
    then have "unat (512 - (blnum sz * 512 - sz)) = 512 - unat (blnum sz * 512 - sz)"
      by (subst unat_sub) (simp_all add: word_le_nat_alt)
    then show ?thesis using pad lo hi False by linarith
  qed
  have "slice_at (512 * (N - 1)) (length buf - 512 * (N - 1)) buf = slice_at (512 * (N - 1)) 512 buf"
    using hi by (simp add: slice_at_def)
  then have asg: "assign_str buf (512 * (N - 1)) (length buf - 512 * (N - 1)) =
      Inr (slice_at (512 * (N - 1)) 512 buf)" using lo by (simp add: assign_str_def)
  have last: "unat (blnum sz - 1) = N - 1" using nz N by (simp add: unat_minus_one)
  obtain im2 where "write_nth_block im1 ino (N - 1) (chunk buf (N - 1)) = Inr im2" "written im ino buf N im2"
    using write_nth_block_step [OF m im1(2)] False by auto
  then show ?thesis
    using im1(1) asg tail last nz by (simp add: write_blocks_def chunk_def Let_def flip: N)
qed

section \<open>Resizing\<close>

text \<open>The blocks that belong to the files other than \<open>i\<close>.\<close>

definition others :: "inode_manager \<Rightarrow> u32 \<Rightarrow> blockid set" where
  "others im i = (\<Union>j \<in> {j. live im j \<and> j \<noteq> i}. bids im (inode_at im j))"

text \<open>
  The state after the blocks of inode \<open>i\<close> have been brought to the number \<open>N\<close>, with \<open>ino\<close>
  the inode in memory.
\<close>

definition resized :: "inode_manager \<Rightarrow> u32 \<Rightarrow> nat \<Rightarrow> inode_manager \<Rightarrow> inode \<Rightarrow> bool" where
  "resized im i N im1 ino1 \<longleftrightarrow> bm_wf (bmgr im1) \<and> next_inum im1 = next_inum im
     \<and> ino1 = (inode_at im i)\<lparr>i_blocks := i_blocks ino1\<rparr> \<and> inode_valid ino1
     \<and> ind ino1 = ind (inode_at im i) \<and> mapped im1 ino1 N
     \<and> nth_bid im1 ino1 ` {..<N} \<subseteq> used im1 \<and> others im i \<subseteq> used im1
     \<and> nth_bid im1 ino1 ` {..<N} \<inter> others im i = {}
     \<and> (\<forall>x. N \<le> 100 \<or> x \<noteq> ind ino1 \<longrightarrow> block_at im1 x = block_at im x)"

lemma others_facts:
  assumes wf: "im_wf im"
  shows "others im i \<subseteq> used im" and "b \<in> others im i \<Longrightarrow> is_data_block b"
    and "live im i \<Longrightarrow> bids im (inode_at im i) \<inter> others im i = {}"
  using im_wfD(4,5) [OF wf] bids_used bids_data by (fastforce simp: others_def apart_def)+

lemma resized_same:
  assumes wf: "im_wf im" and lv: "live im i" and N: "N \<le> nblk (inode_at im i)"
  shows "resized im i N im (inode_at im i)"
proof -
  let ?ino = "inode_at im i"
  note ok = im_wfD(4) [OF wf lv]
  have sub: "nth_bid im ?ino ` {..<N} \<subseteq> bids im ?ino" using N by (auto simp: bids_def)
  have "mapped im ?ino N"
    using ok N inj_on_subset [of "nth_bid im ?ino" "{..<nblk ?ino}" "{..<N}"]
    by (auto simp: mapped_def ino_ok_def large_def)
  then show ?thesis
    using im_wfD(1) [OF wf] sub others_facts(1) [OF wf, of i] others_facts(3) [OF wf lv] bids_used [OF ok]
    by (simp add: resized_def) blast
qed

lemma resized_free:
  assumes wf: "im_wf im" and lv: "live im i" and N: "N \<le> nblk (inode_at im i)"
  shows "\<exists>im1. for_each (\<lambda>start s. free_nth_block s (inode_at im i) start) [N..<nblk (inode_at im i)] im
      = Inr im1 \<and> resized im i N im1 (inode_at im i)"
proof -
  let ?ino = "inode_at im i"
  note ok = im_wfD(4) [OF wf lv] and same = resized_same [OF wf lv N]
  obtain im1 where im1: "for_each (\<lambda>start im. free_nth_block im ?ino start) [N..<nblk ?ino] im = Inr im1"
    "bm_wf (bmgr im1)" "dsk (bmgr im1) = dsk (bmgr im)" "next_inum im1 = next_inum im"
    "used im1 = used im - nth_bid im ?ino ` {N..<nblk ?ino}"
    using free_loop [OF im_wfD(1) [OF wf], of "[N..<nblk ?ino]" ?ino] ino_ok_get_nth(1) [OF ok] by auto
  have "nth_bid im ?ino ` {N..<nblk ?ino} \<subseteq> bids im ?ino" by (auto simp: bids_def)
  then have oth: "others im i \<subseteq> used im1"
    using im1(5) others_facts(1) [OF wf, of i] others_facts(3) [OF wf lv] by blast
  have "nth_bid im ?ino ` {..<N} \<inter> nth_bid im ?ino ` {N..<nblk ?ino} = nth_bid im ?ino ` ({..<N} \<inter> {N..<nblk ?ino})"
    using ok N by (intro inj_on_image_Int [symmetric, of _ "{..<nblk ?ino}"]) (auto simp: ino_ok_def)
  also have "{..<N} \<inter> {N..<nblk ?ino} = {}" by auto
  finally have mine: "nth_bid im ?ino ` {..<N} \<subseteq> used im1"
    using same im1(5) by (auto simp: resized_def)
  have "mapped im1 ?ino N" using same dsk_irrelevant(3) [OF im1(3)] by (simp add: resized_def mapped_def)
  then have "resized im i N im1 ?ino"
    using same oth mine im1 dsk_irrelevant(3) [OF im1(3)] by (simp add: resized_def)
  then show ?thesis using im1(1) by blast
qed

lemma resized_grow:
  assumes wf: "im_wf im" and lv: "live im i" and N: "nblk (inode_at im i) \<le> N" "N \<le> MAXFILE"
    and low: "100 < N \<Longrightarrow> ind (inode_at im i) < 12"
    and g: "grown im (inode_at im i) (nblk (inode_at im i)) N im1 ino1"
  shows "resized im i N im1 ino1"
proof -
  let ?ino = "inode_at im i" and ?a = "nblk (inode_at im i)"
  note ok = im_wfD(4) [OF wf lv]
  have old: "nth_bid im1 ino1 n = nth_bid im ?ino n" if "n < ?a" for n
    using g that N by (simp add: grown_def)
  have oldimg: "nth_bid im1 ino1 ` {..<?a} = bids im ?ino"
    unfolding bids_def using old by (intro image_cong) auto
  have ivl: "{..<N} = {..<?a} \<union> {?a..<N}" using N by auto
  have new: "nth_bid im1 ino1 ` {?a..<N} \<inter> used im = {}" using g by (auto simp: grown_def)
  have oldinj: "inj_on (nth_bid im1 ino1) {..<?a}"
    using ok old inj_on_cong [of "{..<?a}" "nth_bid im1 ino1" "nth_bid im ?ino"] by (simp add: ino_ok_def)
  have dis: "nth_bid im1 ino1 ` {..<?a} \<inter> nth_bid im1 ino1 ` {?a..<N} = {}"
    using new oldimg bids_used [OF ok] by blast
  have "inj_on (nth_bid im1 ino1) {..<N}"
    unfolding ivl inj_on_Un using oldinj g dis by (auto simp: grown_def)
  moreover have "is_data_block (nth_bid im1 ino1 n)" if "n < N" for n
    using that g ok old by (cases "n < ?a") (auto simp: grown_def ino_ok_def)
  moreover have "100 < N \<Longrightarrow> ind ino1 < 12" using low g unfolding grown_def by metis
  ultimately have map: "mapped im1 ino1 N" using N unfolding mapped_def by blast
  have img: "nth_bid im1 ino1 ` {..<N} = bids im ?ino \<union> nth_bid im1 ino1 ` {?a..<N}"
    unfolding ivl image_Un oldimg by simp
  have us: "used im1 = used im \<union> nth_bid im1 ino1 ` {?a..<N}" using g unfolding grown_def by blast
  have mine: "nth_bid im1 ino1 ` {..<N} \<subseteq> used im1"
    unfolding img us using bids_used [OF ok] by blast
  have oth: "others im i \<subseteq> used im1" unfolding us using others_facts(1) [OF wf, of i] by blast
  have sep: "nth_bid im1 ino1 ` {..<N} \<inter> others im i = {}"
    unfolding img using others_facts(1) [OF wf, of i] others_facts(3) [OF wf lv] new by blast
  have "block_at im1 x = block_at im x" if "N \<le> 100 \<or> x \<noteq> ind ino1" for x
    using that g unfolding grown_def by metis
  then show ?thesis
    using g map mine oth sep unfolding resized_def grown_def by blast
qed

lemma resize_file_spec:
  assumes wf: "im_wf im" and lv: "live im i" and N: "N = unat (blnum sz)" "N \<le> MAXFILE"
    and low: "100 < N \<Longrightarrow> ind (inode_at im i) < 12"
  shows "(\<exists>im1 ino1. resize_file im (inode_at im i) (blnum (i_size (inode_at im i))) (blnum sz) = Inr (im1, ino1)
            \<and> resized im i N im1 ino1) \<or>
    (resize_file im (inode_at im i) (blnum (i_size (inode_at im i))) (blnum sz) = Inl Exit
      \<and> card (free_blocks im) < N - nblk (inode_at im i))"
proof -
  let ?ino = "inode_at im i" and ?a = "nblk (inode_at im i)"
  have lt: "blnum sz < blnum (i_size ?ino) \<longleftrightarrow> N < ?a" "blnum (i_size ?ino) < blnum sz \<longleftrightarrow> ?a < N"
    using N(1) by (simp_all add: word_less_nat_alt nblk_def)
  consider "N < ?a" | "N = ?a" | "?a < N" by linarith
  then show ?thesis
  proof cases
    case 1
    then obtain im1 where "for_each (\<lambda>start im. free_nth_block im ?ino start) [N..<?a] im = Inr im1"
      "resized im i N im1 ?ino"
      using resized_free [OF wf lv, of N] by auto
    then show ?thesis using 1 lt N(1) by (simp add: resize_file_def nblk_def)
  next
    case 2
    then show ?thesis using lt resized_same [OF wf lv] by (simp add: resize_file_def)
  next
    case 3
    have "resize_file im ?ino (blnum (i_size ?ino)) (blnum sz) =
        for_each (\<lambda>start (im, ino). alloc_nth_block im ino start [] False) [?a..<N] (im, ?ino)"
      using 3 lt N(1) by (simp add: resize_file_def nblk_def)
    moreover have v: "inode_valid ?ino" by simp
    ultimately show ?thesis
      using grow_loop [OF im_wfD(1) [OF wf] v, of ?a N] resized_grow [OF wf lv _ N(2) low] 3 N(2) low
      by fastforce
  qed
qed

section \<open>Writing a file\<close>

text \<open>The indirect block of \<open>i\<close>, when it needs one, is usable and not shared.\<close>

definition own_indirect :: "inode_manager \<Rightarrow> u32 \<Rightarrow> bool" where
  "own_indirect im i \<longleftrightarrow> ind (inode_at im i) < 12
     \<and> (\<forall>j. live im j \<and> j \<noteq> i \<and> large (inode_at im j) \<longrightarrow> ind (inode_at im j) \<noteq> ind (inode_at im i))"

lemma resized_keeps:
  assumes wf: "im_wf im" and lv: "live im j" and ne: "j \<noteq> i"
    and own: "100 < N \<Longrightarrow> own_indirect im i"
    and r: "resized im i N im1 ino1" and w: "written im1 ino1 buf N im2"
  shows "keeps im im2 (inode_at im j)"
proof -
  let ?b = "inode_at im j"
  note ok = im_wfD(4) [OF wf lv]
  have m: "mapped im1 ino1 N" and ind1: "ind ino1 = ind (inode_at im i)"
    and blk1: "\<And>x. N \<le> 100 \<or> x \<noteq> ind ino1 \<Longrightarrow> block_at im1 x = block_at im x"
    and u: "others im i \<subseteq> used im1" and sep: "nth_bid im1 ino1 ` {..<N} \<inter> others im i = {}"
    using r unfolding resized_def by blast+
  have blk2: "\<And>x. x \<notin> nth_bid im1 ino1 ` {..<N} \<Longrightarrow> block_at im2 x = block_at im1 x"
    and u2: "used im2 = used im1" using w unfolding written_def by blast+
  have mine: "bids im ?b \<subseteq> others im i" using lv ne by (auto simp: others_def)
  have "block_at im2 b = block_at im b \<and> b \<in> used im2" if b: "b \<in> bids im ?b" for b
  proof -
    have "b \<notin> nth_bid im1 ino1 ` {..<N}" using sep mine b by blast
    moreover have "N \<le> 100 \<or> b \<noteq> ind ino1"
      using own low_not_data [of b] bids_data [OF ok b] ind1 unfolding own_indirect_def
      by (metis linorder_not_less)
    ultimately show ?thesis using blk1 blk2 u u2 mine b by auto
  qed
  moreover have "block_at im2 (ind ?b) = block_at im (ind ?b)" if lg: "large ?b"
  proof -
    have lo: "ind ?b < 12" using ok lg by (simp add: ino_ok_def)
    have "ind ?b \<notin> nth_bid im1 ino1 ` {..<N}"
      using m low_not_data [OF lo] unfolding mapped_def by (metis image_iff lessThan_iff)
    moreover have "N \<le> 100 \<or> ind ?b \<noteq> ind ino1"
      using own lg lv ne ind1 unfolding own_indirect_def by (metis linorder_not_less)
    ultimately show ?thesis using blk1 blk2 by simp
  qed
  ultimately show ?thesis unfolding keeps_def by blast
qed

lemma resized_finish:
  assumes wf: "im_wf im" and lv: "live im i" and own: "100 < N \<Longrightarrow> own_indirect im i"
    and N: "N = unat (blnum sz)" and len: "unat sz = length buf"
    and r: "resized im i N im1 ino1" and w: "written im1 ino1 buf N im2"
    and x: "i_type x = i_type ino1" "i_size x = sz" "i_blocks x = i_blocks ino1"
  shows "im_wf (set_inode i x im2)"
    and "fs_view (set_inode i x im2) = (fs_view im)(i \<mapsto> (i_type (inode_at im i), buf))"
proof -
  let ?im' = "set_inode i x im2"
  have m: "mapped im1 ino1 N" and v1: "inode_valid ino1" and nx1: "next_inum im1 = next_inum im"
    and dsk1: "\<And>y. N \<le> 100 \<or> y \<noteq> ind ino1 \<Longrightarrow> block_at im1 y = block_at im y"
    and ind1: "ind ino1 = ind (inode_at im i)" and mineu: "nth_bid im1 ino1 ` {..<N} \<subseteq> used im1"
    and sep: "nth_bid im1 ino1 ` {..<N} \<inter> others im i = {}"
    using r unfolding resized_def by blast+
  have ty1: "i_type ino1 = i_type (inode_at im i)"
    using r unfolding resized_def by (metis inode.select_convs(1) inode.surjective inode.update_convs(6))
  have bm2: "bm_wf (bmgr im2)" and nx2: "next_inum im2 = next_inum im1" and u2: "used im2 = used im1"
    and ch: "\<And>n. n < N \<Longrightarrow> block_at im2 (nth_bid im1 ino1 n) = chunk buf n"
    using w unfolding written_def by blast+
  have vi: "valid_inum i" using lv by (simp add: live_def)
  have vx: "inode_valid x" using v1 x(3) by (simp add: inode_valid_def)
  have nb: "nblk x = N" using x(2) N by (simp add: nblk_def)
  have bid2: "nth_bid im2 x n = nth_bid im1 ino1 n" if "n < N" for n
  proof -
    have "nth_bid im2 x n = nth_bid im2 ino1 n" using x(3) by (simp add: nth_bid_def)
    then show ?thesis using written_nth_bid [OF m w order_refl that] by simp
  qed
  have img2: "bids im2 x = nth_bid im1 ino1 ` {..<N}"
    unfolding bids_def nb using bid2 by (intro image_cong) auto
  have inj: "inj_on (nth_bid im2 x) {..<N}"
    using m bid2 inj_on_cong [of "{..<N}" "nth_bid im2 x" "nth_bid im1 ino1"] by (simp add: mapped_def)
  have ok2: "ino_ok im2 x"
    unfolding ino_ok_def nb large_def
    using m vx inj bid2 mineu u2 x(3) by (auto simp: mapped_def)
  have keepx: "keeps im2 ?im' x" by (rule keeps_set_inode [OF ok2 vi])
  have bidx: "bids ?im' x = nth_bid im1 ino1 ` {..<N}" using keeps_bids [OF keepx] img2 by simp
  have "map (\<lambda>n. block_at im2 (nth_bid im2 x n)) [0..<N] = map (chunk buf) [0..<N]"
    using ch bid2 by simp
  then have "contents im2 x = take (length buf) (concat (map (chunk buf) [0..<N]))"
    by (simp only: contents_def nb x(2) len)
  moreover have "length buf \<le> 512 * N" using size_le_blocks [of x] nb x(2) len by simp
  ultimately have ct: "contents ?im' x = buf" using keeps_contents [OF keepx] take_chunks by simp
  have at: "inode_at ?im' j = (if j = i then x else inode_at im j)" if "valid_inum j" for j
  proof -
    have "IBLOCK j 32768 \<notin> nth_bid im1 ino1 ` {..<N}"
      using m IBLOCK_not_data [OF that] unfolding mapped_def by (metis image_iff lessThan_iff)
    then have "block_at im2 (IBLOCK j 32768) = block_at im1 (IBLOCK j 32768)"
      using w unfolding written_def by blast
    moreover have "N \<le> 100 \<or> IBLOCK j 32768 \<noteq> ind ino1"
      using m low_not_inode [OF _ that, of "ind ino1"] unfolding mapped_def by (metis linorder_not_less)
    ultimately have "inode_at im2 j = inode_at im j" using dsk1 by (simp add: inode_at_def)
    then show ?thesis using inode_at_set_inode [OF vx vi that, of im2] by simp
  qed
  have keep2: "keeps im im2 (inode_at im j)" if "live im j" "j \<noteq> i" for j
    by (rule resized_keeps [OF wf that own r w])
  have keep: "keeps im ?im' (inode_at im j)" if "live im j" "j \<noteq> i" for j
    using keep2 [OF that] keeps_set_inode [OF keeps_ino_ok [OF keep2 [OF that] im_wfD(4) [OF wf that(1)]] vi, of x]
      keeps_bids [OF keep2 [OF that]] by (auto simp: keeps_def)
  have bm: "bm_wf (bmgr ?im')" by (rule set_inode_wf [OF bm2 vx])
  have nx: "2 \<le> next_inum ?im'" "next_inum ?im' \<le> 1024" using im_wfD(2,3) [OF wf] nx1 nx2 by simp_all
  have oth: "inode_at ?im' j = inode_at im j" if "valid_inum j" "j \<noteq> i" for j using at that by simp
  have okk: "ino_ok ?im' (inode_at ?im' i)" using at [OF vi] keeps_ino_ok [OF keepx ok2] by simp
  have ap: "apart ?im' (inode_at ?im' i) (inode_at im j)" if "live im j" "j \<noteq> i" for j
  proof -
    have "bids im (inode_at im j) \<subseteq> others im i" using that by (auto simp: others_def)
    then have "bids ?im' x \<inter> bids ?im' (inode_at im j) = {}"
      using bidx keeps_bids [OF keep [OF that]] sep by blast
    moreover have "\<not> (large x \<and> large (inode_at im j) \<and> ind x = ind (inode_at im j))"
      using own that x(3) ind1 nb unfolding own_indirect_def large_def by metis
    ultimately show ?thesis using at [OF vi] by (simp add: apart_def)
  qed
  note upd = im_wf_update [OF wf bm nx oth keep okk ap]
  have "live ?im' i" using lv at [OF vi] x(1) ty1 by (simp add: live_def)
  then have "fs_view ?im' i = Some (i_type (inode_at im i), buf)"
    using at [OF vi] x(1) ty1 ct by (simp add: fs_view_def)
  then show "im_wf ?im'" "fs_view ?im' = (fs_view im)(i \<mapsto> (i_type (inode_at im i), buf))"
    using upd by auto
qed

lemma write_file_refines:
  assumes wf: "im_wf im" and lv: "live im i" and len: "unat sz = length buf"
    and fits: "length buf \<le> MAXFILE * BLOCK_SIZE"
    and own: "NDIRECT * BLOCK_SIZE < length buf \<Longrightarrow> own_indirect im i"
  shows "(\<exists>im'. write_file im i buf sz clk = Inr im' \<and> im_wf im'
            \<and> fs_view im' = (fs_view im)(i \<mapsto> (i_type (inode_at im i), buf))) \<or>
    (write_file im i buf sz clk = Inl Exit \<and>
      card (free_blocks im) < unat (blnum sz) - nblk (inode_at im i))"
proof -
  let ?ino = "inode_at im i"
  obtain N where N: "N = unat (blnum sz)" by simp
  have vi: "valid_inum i" using lv by (simp add: live_def)
  have ceil: "N = (length buf + 511) div 512" using N len by (simp add: unat_blnum)
  have max: "N \<le> MAXFILE" using ceil fits by simp
  have own': "100 < N \<Longrightarrow> own_indirect im i" using own ceil by simp
  then have low: "100 < N \<Longrightarrow> ind ?ino < 12" by (simp add: own_indirect_def)
  note get = get_inode_eq [OF im_wfD(1) [OF wf], of i]
  consider (ok) im1 ino1 where
      "resize_file im ?ino (blnum (i_size ?ino)) (blnum sz) = Inr (im1, ino1)" "resized im i N im1 ino1"
    | (full) "resize_file im ?ino (blnum (i_size ?ino)) (blnum sz) = Inl Exit"
      "card (free_blocks im) < N - nblk ?ino"
    using resize_file_spec [OF wf lv N max low] by blast
  then show ?thesis
  proof cases
    case full
    then show ?thesis using get vi N by (simp add: write_file_def)
  next
    case ok
    let ?ino2 = "ino1\<lparr>i_size := sz\<rparr>"
    let ?x = "?ino2\<lparr>i_atime := clk 0, i_mtime := clk 1, i_ctime := clk 2\<rparr>"
    have m: "mapped im1 ino1 N" and bm1: "bm_wf (bmgr im1)" and v1: "inode_valid ino1"
      using ok(2) unfolding resized_def by blast+
    have bid: "nth_bid im1 ?ino2 = nth_bid im1 ino1" by (simp add: nth_bid_def fun_eq_iff)
    have m2: "mapped im1 ?ino2 N" using m bid by (simp add: mapped_def)
    obtain im2 where wr: "write_blocks im1 ?ino2 buf sz (blnum sz) = Inr im2"
      and w2: "written im1 ?ino2 buf N im2" using write_blocks_spec [OF m2 bm1 len N] by blast
    have w: "written im1 ino1 buf N im2" using w2 bid by (simp add: written_def)
    have bm2: "bm_wf (bmgr im2)" using w unfolding written_def by blast
    have "put_inode im2 i ?x = Inr (set_inode i ?x im2)"
      using v1 by (intro put_inode_eq [OF bm2 vi]) (simp add: inode_valid_def)
    then have run: "write_file im i buf sz clk = Inr (set_inode i ?x im2)"
      using get vi ok(1) wr by (simp add: write_file_def Let_def)
    show ?thesis using run resized_finish [OF wf lv own' N len ok(2) w, of ?x] by auto
  qed
qed

end
