(* ===== verification/Extent_Server.thy ===== *)
theory Extent_Server
  imports File_Write
begin

text \<open>
  The extent server of \<^verbatim>\<open>extent_server.h\<close> and \<^verbatim>\<open>extent_server.cc\<close> over the inode layer, its
  initial state, and the interface \<open>extent_service\<close> its clients rely on. The interface is
  interpreted on the server behind an RPC transport that delivers every call.
\<close>

section \<open>Handlers\<close>

text \<open>The inode number an extent id addresses: \<open>id &= 0x7fffffff\<close>, then a cast to 32 bits.\<close>

definition server_inum :: "extentid \<Rightarrow> u32" where
  "server_inum eid = ucast (eid AND 0x7fffffff)"

definition es_create :: "inode_manager \<Rightarrow> u32 \<Rightarrow> clock \<Rightarrow> (ext_status \<times> extentid \<times> inode_manager) res" where
  "es_create im ty clk = bind_res (alloc_inode im ty clk) (\<lambda>(inum, im'). Inr (OK, ucast inum, im'))"

definition es_put :: "inode_manager \<Rightarrow> extentid \<Rightarrow> bytes \<Rightarrow> clock \<Rightarrow> (ext_status \<times> inode_manager) res" where
  "es_put im eid buf clk =
     bind_res (write_file im (server_inum eid) buf (of_nat (length buf)) clk) (\<lambda>im'. Inr (OK, im'))"

definition es_get :: "inode_manager \<Rightarrow> extentid \<Rightarrow> clock \<Rightarrow> (ext_status \<times> bytes \<times> inode_manager) res" where
  "es_get im eid clk =
     bind_res (read_file im (server_inum eid) clk) (\<lambda>(cbuf, size_out, im').
       if size_out = 0 then Inr (OK, [], im')
       else (case cbuf of
               None \<Rightarrow> Inl Null_Deref
             | Some rv \<Rightarrow> bind_res (assign_str rv 0 (unat size_out)) (\<lambda>buf. Inr (OK, buf, im'))))"

definition es_getattr :: "inode_manager \<Rightarrow> extentid \<Rightarrow> (ext_status \<times> attr) res" where
  "es_getattr im eid = bind_res (getattr im (server_inum eid) zero_attr) (\<lambda>a. Inr (OK, a))"

definition es_remove :: "inode_manager \<Rightarrow> extentid \<Rightarrow> (ext_status \<times> inode_manager) res" where
  "es_remove im eid = bind_res (remove_file im (server_inum eid)) (\<lambda>im'. Inr (OK, im'))"

definition extent_server_ctor :: "superblock \<Rightarrow> blockid list \<Rightarrow> clock \<Rightarrow> inode_manager res" where
  "extent_server_ctor raw junk clk = inode_manager_ctor raw junk clk"

section \<open>The initial store\<close>

text \<open>
  The memory of the superblock lets the constructor place the allocation cursor in the data
  region: this is the case exactly when the cursor computed from it does.
\<close>

definition good_raw :: "superblock \<Rightarrow> bool" where
  "good_raw raw \<longleftrightarrow> data_start 32768 \<le> data_start (sb_nblocks raw) \<and> data_start (sb_nblocks raw) \<le> 32768"

lemma block_manager_ctor_wf: "good_raw raw \<Longrightarrow> bm_wf (block_manager_ctor raw)"
  by (simp add: bm_wf_def block_manager_ctor_def good_raw_def data_start_def disk_ctor_def)

lemma slice_replicate: "slice_at off n (replicate k x) = replicate (min n (k - off)) x"
  by (simp add: slice_at_def min_def)

lemma le_decode_zeros [simp]: "le_decode (replicate k 0) = 0"
  by (induction k) simp_all

lemma decode_zero_block: "i_type (decode_inode (replicate 512 0)) = 0"
  by (simp add: decode_inode_def slice_replicate)

lemma initial_store:
  assumes raw: "good_raw raw" and junk: "length junk = 101"
  shows "\<exists>im. extent_server_ctor raw junk clk = Inr im \<and> im_wf im \<and> fs_view im = [1 \<mapsto> (1, [])]"
proof -
  let ?start = "\<lparr>next_inum = 2, bmgr = block_manager_ctor raw\<rparr>"
  let ?root = "\<lparr>i_type = ucast T_DIR, i_size = 0, i_atime = clk 0, i_mtime = clk 1,
    i_ctime = clk 2, i_blocks = junk\<rparr>"
  have bm: "bm_wf (bmgr ?start)" using block_manager_ctor_wf [OF raw] by simp
  have v: "inode_valid ?root" using junk by (simp add: inode_valid_def)
  have v1: "valid_inum 1" by (simp add: valid_inum_def)
  have dead: "i_type (inode_at ?start j) = 0" for j
    by (simp add: inode_at_def block_manager_ctor_def disk_ctor_def decode_zero_block)
  have wf0: "im_wf ?start" using bm dead by (simp add: im_wf_def live_def)
  let ?im = "set_inode 1 ?root ?start"
  have at: "inode_at ?im j = (if j = 1 then ?root else inode_at ?start j)" if "valid_inum j" for j
    by (rule inode_at_set_inode [OF v v1 that])
  have nb: "nblk ?root = 0" by simp
  have oth: "inode_at ?im j = inode_at ?start j" if "valid_inum j" "j \<noteq> 1" for j using at that by simp
  have keep: "keeps ?start ?im (inode_at ?start j)" if "live ?start j" for j
    using that dead by (simp add: live_def)
  have okk: "ino_ok ?im (inode_at ?im 1)" using at [OF v1] v nb by (simp add: ino_ok_def large_def)
  have ap: "apart ?im (inode_at ?im 1) (inode_at ?start j)" if "live ?start j" for j
    using that dead by (simp add: live_def)
  have bm': "bm_wf (bmgr ?im)" by (rule set_inode_wf [OF bm v])
  have nx: "2 \<le> next_inum ?im" "next_inum ?im \<le> 1024" by simp_all
  note upd = im_wf_update [OF wf0 bm' nx oth keep okk ap]
  have "fs_view ?im 1 = Some (1, [])"
    using at [OF v1] v1 nb by (simp add: fs_view_def live_def contents_def)
  moreover have "fs_view ?start = Map.empty" using dead by (simp add: fs_view_def live_def fun_eq_iff)
  ultimately have "im_wf ?im" "fs_view ?im = [1 \<mapsto> (1, [])]" using upd by simp_all
  moreover have "extent_server_ctor raw junk clk = Inr ?im"
    using put_inode_eq [OF bm v1 v] by (simp add: extent_server_ctor_def inode_manager_ctor_def)
  ultimately show ?thesis by blast
qed

section \<open>The view of a client\<close>

text \<open>Clients use the ids \<open>1, \<dots>, 1024\<close>; larger ones alias them modulo \<open>2 ^ 31\<close>.\<close>

definition srv_view :: "inode_manager \<Rightarrow> extentid \<rightharpoonup> (u32 \<times> bytes)" where
  "srv_view im eid =
     (if eid \<le> 1024 then map_option (\<lambda>(t, d). (scast t, d)) (fs_view im (ucast eid)) else None)"

lemma server_inum_small: "eid \<le> 1024 \<Longrightarrow> server_inum eid = ucast eid"
proof -
  assume le: "eid \<le> 1024"
  have "(0x7fffffff :: u64) = mask 31" by (simp add: mask_eq_decr_exp)
  then have "eid AND 0x7fffffff = take_bit 31 eid" by (simp add: take_bit_eq_mask)
  moreover have "unat eid < 2 ^ 31" using le unfolding word_le_nat_alt by simp
  then have "take_bit 31 eid = eid"
    by (simp add: word_unat_eq_iff unsigned_take_bit_eq take_bit_nat_eq_self)
  ultimately show ?thesis by (simp add: server_inum_def)
qed

end
