(* ===== verification/Extent_Service.thy ===== *)
theory Extent_Service
  imports Extent_Server
begin

text \<open>
  The interface between the extent server and its clients. The RPC library is not part of
  the repository: a record of stubs stands for \<open>rpcc::call\<close>, one stub per procedure. A stub
  takes the state on the other side of the wire and returns the status code, the reply (\<open>None\<close>
  when the out-parameter was left untouched) and the new state. The locale \<open>extent_service\<close>
  states what the clients rely on; it is interpreted on the handlers of \<open>Extent_Server\<close>
  behind a transport that delivers every call, one at a time, to a server that answers
  no more once it has exited.
\<close>

section \<open>Stubs\<close>

record 's extent_rpc =
  rpc_create :: "'s \<Rightarrow> u32 \<Rightarrow> int \<times> extentid option \<times> 's"
  rpc_get :: "'s \<Rightarrow> extentid \<Rightarrow> int \<times> bytes option \<times> 's"
  rpc_getattr :: "'s \<Rightarrow> extentid \<Rightarrow> int \<times> attr option \<times> 's"
  rpc_put :: "'s \<Rightarrow> extentid \<Rightarrow> bytes \<Rightarrow> int \<times> 's"
  rpc_remove :: "'s \<Rightarrow> extentid \<Rightarrow> int \<times> 's"
  rpc_remove_bare :: "'s \<Rightarrow> extentid \<Rightarrow> int \<times> 's"

text \<open>
  \<open>rpc_remove_bare\<close> is the call \<open>cl->call(extent_protocol::remove, eid)\<close> of the caching
  client, which passes no reply argument; what it does depends on the overloads of the RPC
  library, so nothing is assumed of it.

  An out-parameter after a call: the reply, or what it held before.
\<close>

definition out_param :: "'a option \<Rightarrow> 'a \<Rightarrow> 'a" where
  "out_param r old = (case r of Some x \<Rightarrow> x | None \<Rightarrow> old)"

lemma out_param_simps [simp]: "out_param (Some x) old = x" "out_param None old = old"
  by (simp_all add: out_param_def)

section \<open>The plain client\<close>

definition ec_create :: "'s extent_rpc \<Rightarrow> 's \<Rightarrow> u32 \<Rightarrow> extentid \<Rightarrow> int \<times> extentid \<times> 's" where
  "ec_create rpc s ty eid = (let (ret, r, s') = rpc_create rpc s ty in (ret, out_param r eid, s'))"

definition ec_get :: "'s extent_rpc \<Rightarrow> 's \<Rightarrow> extentid \<Rightarrow> bytes \<Rightarrow> int \<times> bytes \<times> 's" where
  "ec_get rpc s eid buf = (let (ret, r, s') = rpc_get rpc s eid in (ret, out_param r buf, s'))"

definition ec_getattr :: "'s extent_rpc \<Rightarrow> 's \<Rightarrow> extentid \<Rightarrow> attr \<Rightarrow> int \<times> attr \<times> 's" where
  "ec_getattr rpc s eid a = (let (ret, r, s') = rpc_getattr rpc s eid in (ret, out_param r a, s'))"

definition ec_put :: "'s extent_rpc \<Rightarrow> 's \<Rightarrow> extentid \<Rightarrow> bytes \<Rightarrow> int \<times> 's" where
  "ec_put rpc s eid buf = rpc_put rpc s eid buf"

definition ec_remove :: "'s extent_rpc \<Rightarrow> 's \<Rightarrow> extentid \<Rightarrow> int \<times> 's" where
  "ec_remove rpc s eid = rpc_remove rpc s eid"

section \<open>The interface\<close>

locale extent_service =
  fixes rpc :: "'s extent_rpc"
    and inv :: "'s \<Rightarrow> bool"
    and view :: "'s \<Rightarrow> extentid \<rightharpoonup> (u32 \<times> bytes)"
    and admissible :: "'s \<Rightarrow> extentid \<Rightarrow> bytes \<Rightarrow> bool"
  assumes create_law: "inv s \<Longrightarrow> ty \<in> {T_DIR, T_FILE, T_SYMLK} \<Longrightarrow>
      rpc_create rpc s ty = (0, r, s') \<Longrightarrow>
      \<exists>eid. r = Some eid \<and> inv s' \<and> view s eid = None \<and> view s' = (view s)(eid \<mapsto> (ty, []))"
    and get_law: "inv s \<Longrightarrow> view s eid = Some (ty, d) \<Longrightarrow>
      \<exists>s'. rpc_get rpc s eid = (0, Some d, s') \<and> inv s' \<and> view s' = view s"
    and getattr_law: "inv s \<Longrightarrow> view s eid = Some (ty, d) \<Longrightarrow>
      \<exists>a s'. rpc_getattr rpc s eid = (0, Some a, s') \<and> a_type a = ty \<and> a_size a = of_nat (length d)
        \<and> inv s' \<and> view s' = view s"
    and put_law: "inv s \<Longrightarrow> view s eid = Some (ty, d) \<Longrightarrow> admissible s eid buf \<Longrightarrow>
      rpc_put rpc s eid buf = (0, s') \<Longrightarrow> inv s' \<and> view s' = (view s)(eid \<mapsto> (ty, buf))"
    and remove_law: "inv s \<Longrightarrow> view s eid = Some (ty, d) \<Longrightarrow>
      \<exists>s'. rpc_remove rpc s eid = (0, s') \<and> inv s' \<and> view s' = (view s)(eid := None)"
begin

text \<open>Writing an extent and reading it back through the plain client.\<close>

lemma client_put_get:
  assumes "inv s" and "view s eid = Some (ty, d)" and "admissible s eid buf"
    and "ec_put rpc s eid buf = (0, s1)"
  shows "\<exists>s2. ec_get rpc s1 eid old = (0, buf, s2) \<and> view s2 = (view s)(eid \<mapsto> (ty, buf))"
proof -
  have "inv s1" "view s1 = (view s)(eid \<mapsto> (ty, buf))"
    using put_law [OF assms(1-3)] assms(4) by (simp_all add: ec_put_def)
  with get_law [of s1 eid ty buf] show ?thesis by (auto simp: ec_get_def)
qed

lemma client_create_get:
  assumes "inv s" and "ty \<in> {T_DIR, T_FILE, T_SYMLK}" and "ec_create rpc s ty old = (0, eid, s1)"
  shows "view s eid = None \<and> (\<exists>s2. ec_get rpc s1 eid buf = (0, [], s2) \<and> inv s2
    \<and> view s2 = (view s)(eid \<mapsto> (ty, [])))"
proof -
  obtain r where r: "rpc_create rpc s ty = (0, r, s1)" "eid = out_param r old"
    using assms(3) by (auto simp: ec_create_def split: prod.splits)
  from create_law [OF assms(1,2) r(1)] r(2)
  have "view s eid = None" "inv s1" "view s1 = (view s)(eid \<mapsto> (ty, []))" by auto
  with get_law [of s1 eid ty "[]"] show ?thesis by (auto simp: ec_get_def)
qed

end

section \<open>The server behind a direct transport\<close>

text \<open>
  The server process: its store, or the fault that ended it, and the position in the
  sequence of clock readings; every call has three readings at its disposal, the most
  any handler takes. A lost call returns a negative code.
\<close>

record server =
  sv_store :: "inode_manager res"
  sv_ticks :: nat

definition serve ::
  "clock \<Rightarrow> nat \<Rightarrow> (inode_manager \<Rightarrow> clock \<Rightarrow> (ext_status \<times> 'r \<times> inode_manager) res) \<Rightarrow>
   server \<Rightarrow> int \<times> 'r option \<times> server" where
  "serve time_at lost handler s =
     (case sv_store s of
        Inl e \<Rightarrow> (- 1 - int lost, None, s)
      | Inr im \<Rightarrow>
          (case handler im (\<lambda>k. time_at (sv_ticks s + k)) of
             Inl e \<Rightarrow> (- 1 - int lost, None, s\<lparr>sv_store := Inl e\<rparr>)
           | Inr (st, r, im') \<Rightarrow>
               (ext_status_code st, Some r, \<lparr>sv_store = Inr im', sv_ticks = sv_ticks s + 3\<rparr>)))"

definition no_reply :: "int \<times> unit option \<times> server \<Rightarrow> int \<times> server" where
  "no_reply p = (case p of (st, _, s) \<Rightarrow> (st, s))"

definition direct_rpc :: "clock \<Rightarrow> nat \<Rightarrow> (server \<Rightarrow> extentid \<Rightarrow> int \<times> server) \<Rightarrow> server extent_rpc" where
  "direct_rpc time_at lost bare =
     \<lparr>rpc_create = (\<lambda>s ty. serve time_at lost (\<lambda>im clk. es_create im ty clk) s),
      rpc_get = (\<lambda>s eid. serve time_at lost (\<lambda>im clk. es_get im eid clk) s),
      rpc_getattr = (\<lambda>s eid. serve time_at lost
        (\<lambda>im clk. bind_res (es_getattr im eid) (\<lambda>(st, a). Inr (st, a, im))) s),
      rpc_put = (\<lambda>s eid buf. no_reply (serve time_at lost
        (\<lambda>im clk. bind_res (es_put im eid buf clk) (\<lambda>(st, im'). Inr (st, (), im'))) s)),
      rpc_remove = (\<lambda>s eid. no_reply (serve time_at lost
        (\<lambda>im clk. bind_res (es_remove im eid) (\<lambda>(st, im'). Inr (st, (), im'))) s)),
      rpc_remove_bare = bare\<rparr>"

definition server_inv :: "server \<Rightarrow> bool" where
  "server_inv s \<longleftrightarrow> (\<exists>im. sv_store s = Inr im \<and> im_wf im)"

definition server_view :: "server \<Rightarrow> extentid \<rightharpoonup> (u32 \<times> bytes)" where
  "server_view s eid = (case sv_store s of Inl e \<Rightarrow> None | Inr im \<Rightarrow> srv_view im eid)"

definition server_admits :: "server \<Rightarrow> extentid \<Rightarrow> bytes \<Rightarrow> bool" where
  "server_admits s eid buf \<longleftrightarrow> length buf \<le> MAXFILE * BLOCK_SIZE
     \<and> (NDIRECT * BLOCK_SIZE < length buf \<longrightarrow>
        (\<exists>im. sv_store s = Inr im \<and> own_indirect im (ucast eid)))"

section \<open>The handlers on the view\<close>

lemma srv_view_Some:
  assumes "srv_view im eid = Some (ty, d)"
  shows "eid \<le> 1024" "live im (ucast eid)" "ty = scast (i_type (inode_at im (ucast eid)))"
    "d = contents im (inode_at im (ucast eid))" "server_inum eid = ucast eid"
  using assms server_inum_small [of eid] by (auto simp: srv_view_def fs_view_def split: if_splits)

lemma unat_ucast_small: "(a::u64) \<le> 1024 \<Longrightarrow> unat (ucast a :: u32) = unat a"
  by (simp add: unsigned_ucast_eq unsigned_take_bit_eq take_bit_nat_eq_self word_le_nat_alt)

lemma ucast_inject_small: "(a::u64) \<le> 1024 \<Longrightarrow> b \<le> 1024 \<Longrightarrow> (ucast a :: u32) = ucast b \<longleftrightarrow> a = b"
  by (simp add: word_unat_eq_iff unat_ucast_small)

lemma srv_view_update:
  assumes "fs_view im' = (fs_view im)(ucast eid := x)" and "eid \<le> 1024"
  shows "srv_view im' = (srv_view im)(eid := map_option (\<lambda>(t, d). (scast t, d)) x)"
  using assms ucast_inject_small [OF _ assms(2)] by (auto simp: srv_view_def fun_eq_iff)

lemma es_get_spec:
  assumes wf: "im_wf im" and v: "srv_view im eid = Some (ty, d)"
  shows "\<exists>im'. es_get im eid clk = Inr (OK, d, im') \<and> im_wf im' \<and> srv_view im' = srv_view im"
proof -
  note v = srv_view_Some [OF v]
  let ?i = "ucast eid :: u32" and ?ino = "inode_at im (ucast eid)"
  define rv where "rv = concat (map (\<lambda>n. block_at im (nth_bid im ?ino n)) [0..<nblk ?ino])"
  have d: "d = take (unat (i_size ?ino)) rv" using v(4) by (simp add: contents_def rv_def)
  have read: "read_file im ?i clk = (if i_size ?ino = 0 then Inr (None, 0, im)
     else Inr (Some rv, i_size ?ino, set_inode ?i (?ino\<lparr>i_atime := clk 0\<rparr>) im))"
    using read_file_eq [OF wf v(2), of clk] by (simp only: Let_def rv_def)
  show ?thesis
  proof (cases "i_size ?ino = 0")
    case True
    then show ?thesis
      using wf d read by (simp add: es_get_def v(5))
  next
    case False
    let ?im' = "set_inode ?i (?ino\<lparr>i_atime := clk 0\<rparr>) im"
    have "unat (i_size ?ino) \<le> length rv"
      using size_le_blocks [of ?ino] by (simp only: rv_def length_file_blocks [OF im_wfD(1) [OF wf]])
    then have "es_get im eid clk = Inr (OK, d, ?im')"
      using False d read by (simp add: es_get_def v(5) assign_str_def slice_at_def)
    moreover have "im_wf ?im'" "fs_view ?im' = fs_view im"
      using touch_inode [OF wf v(2), of "?ino\<lparr>i_atime := clk 0\<rparr>"] by simp_all
    ultimately show ?thesis by (simp add: srv_view_def fun_eq_iff)
  qed
qed

lemma es_getattr_spec:
  assumes wf: "im_wf im" and v: "srv_view im eid = Some (ty, d)"
  shows "\<exists>a. es_getattr im eid = Inr (OK, a) \<and> a_type a = ty \<and> a_size a = of_nat (length d)"
proof -
  note v = srv_view_Some [OF v]
  have "length d = unat (i_size (inode_at im (ucast eid)))"
    using v(4) length_contents [OF im_wfD(1) [OF wf]] by simp
  then show ?thesis
    using v get_inode_eq [OF im_wfD(1) [OF wf], of "ucast eid"]
    by (simp add: es_getattr_def getattr_def live_def)
qed

lemma es_put_spec:
  assumes wf: "im_wf im" and v: "srv_view im eid = Some (ty, d)"
    and len: "length buf \<le> MAXFILE * BLOCK_SIZE"
    and own: "NDIRECT * BLOCK_SIZE < length buf \<Longrightarrow> own_indirect im (ucast eid)"
  shows "(\<exists>im'. es_put im eid buf clk = Inr (OK, im') \<and> im_wf im' \<and> srv_view im' = (srv_view im)(eid \<mapsto> (ty, buf)))
    \<or> es_put im eid buf clk = Inl Exit"
proof -
  note v = srv_view_Some [OF v]
  have "unat (of_nat (length buf) :: u32) = length buf"
    using len by (simp add: unat_of_nat)
  from write_file_refines [OF wf v(2) this len own, of clk] show ?thesis
    using srv_view_update [OF _ v(1)] v(3,5) by (fastforce simp: es_put_def)
qed

lemma es_remove_spec:
  assumes wf: "im_wf im" and v: "srv_view im eid = Some (ty, d)"
  shows "\<exists>im'. es_remove im eid = Inr (OK, im') \<and> im_wf im' \<and> srv_view im' = (srv_view im)(eid := None)"
proof -
  note v = srv_view_Some [OF v]
  from remove_file_refines [OF wf v(2)] obtain im' where
    "remove_file im (ucast eid) = Inr im'" "im_wf im'" "fs_view im' = (fs_view im)(ucast eid := None)" by blast
  then show ?thesis using srv_view_update [OF _ v(1), of im' im None] v(5) by (simp add: es_remove_def)
qed

lemma es_create_spec:
  assumes wf: "im_wf im" and ty: "ty \<in> {T_DIR, T_FILE, T_SYMLK}"
    and run: "es_create im ty clk = Inr (st, eid, im')"
  shows "st = OK" "im_wf im'" "srv_view im eid = None" "srv_view im' = (srv_view im)(eid \<mapsto> (ty, []))"
    "2 \<le> eid" "eid \<le> 1024"
proof -
  obtain h where h: "alloc_inode im ty clk = Inr (h, im')" "eid = ucast h" "st = OK"
    using run by (auto simp: es_create_def elim!: bind_res_InrE)
  have nz: "(ucast ty :: u16) \<noteq> 0" and cast: "(scast (ucast ty :: u16) :: u32) = ty" using ty by auto
  note ref = alloc_inode_refines [OF wf nz h(1)]
  have un: "unat eid = unat h"
    using ref(4) h(2)
    by (simp add: unsigned_ucast_eq unsigned_take_bit_eq take_bit_nat_eq_self word_le_nat_alt)
  then show le: "2 \<le> eid" "eid \<le> 1024" using ref(3,4) unfolding word_le_nat_alt by simp_all
  have cast_back: "ucast eid = h" using un unat_ucast_small [OF le(2)] by (simp add: word_unat_eq_iff)
  show "st = OK" "im_wf im'" using h(3) ref(1) by simp_all
  show "srv_view im eid = None" using ref(5) cast_back by (simp add: srv_view_def fs_view_def)
  show "srv_view im' = (srv_view im)(eid \<mapsto> (ty, []))"
    using srv_view_update [OF _ le(2), of im' im "Some (ucast ty, [])"] ref(2) cast_back cast by simp
qed

section \<open>The interpretation\<close>

lemma ext_status_code_0 [simp]: "ext_status_code st = 0 \<longleftrightarrow> st = OK"
  by (cases st) simp_all

lemma serve_ok:
  assumes "sv_store s = Inr im"
    and "handler im (\<lambda>k. time_at (sv_ticks s + k)) = Inr (OK, r, im')"
  shows "serve time_at lost handler s = (0, Some r, \<lparr>sv_store = Inr im', sv_ticks = sv_ticks s + 3\<rparr>)"
  using assms by (simp add: serve_def)

lemma serve_zero:
  assumes "serve time_at lost handler s = (0, r, s')"
  obtains im x im' where "sv_store s = Inr im" "r = Some x"
    "handler im (\<lambda>k. time_at (sv_ticks s + k)) = Inr (OK, x, im')"
    "s' = \<lparr>sv_store = Inr im', sv_ticks = sv_ticks s + 3\<rparr>"
  using assms by (auto simp: serve_def split: sum.splits)

lemma server_viewD:
  assumes "server_inv s" and "server_view s eid = Some v"
  obtains im where "sv_store s = Inr im" "im_wf im" "srv_view im eid = Some v"
  using assms by (auto simp: server_inv_def server_view_def)

lemma server_view_Inr [simp]: "server_view \<lparr>sv_store = Inr im, sv_ticks = t\<rparr> = srv_view im"
  "sv_store s = Inr im \<Longrightarrow> server_view s = srv_view im"
  by (simp_all add: server_view_def fun_eq_iff)

lemma server_inv_Inr [simp]: "server_inv \<lparr>sv_store = Inr im, sv_ticks = t\<rparr> \<longleftrightarrow> im_wf im"
  by (simp add: server_inv_def)

interpretation direct: extent_service "direct_rpc time_at lost bare" server_inv server_view server_admits
  for time_at :: clock and lost :: nat and bare :: "server \<Rightarrow> extentid \<Rightarrow> int \<times> server"
proof
  fix s s' :: server and ty r
  assume inv: "server_inv s" and ty: "ty \<in> {T_DIR, T_FILE, T_SYMLK}"
    and run: "rpc_create (direct_rpc time_at lost bare) s ty = (0, r, s')"
  from run have "serve time_at lost (\<lambda>im clk. es_create im ty clk) s = (0, r, s')"
    by (simp add: direct_rpc_def)
  then obtain im eid im' where h: "sv_store s = Inr im" "r = Some eid"
    "es_create im ty (\<lambda>k. time_at (sv_ticks s + k)) = Inr (OK, eid, im')"
    "s' = \<lparr>sv_store = Inr im', sv_ticks = sv_ticks s + 3\<rparr>" by (rule serve_zero)
  have "im_wf im" using inv h(1) by (simp add: server_inv_def)
  from es_create_spec [OF this ty h(3)] show "\<exists>eid. r = Some eid \<and> server_inv s' \<and> server_view s eid = None
      \<and> server_view s' = (server_view s)(eid \<mapsto> (ty, []))"
    using h by simp
next
  fix s :: server and eid ty d
  assume "server_inv s" and "server_view s eid = Some (ty, d)"
  then obtain im where im: "sv_store s = Inr im" "im_wf im" "srv_view im eid = Some (ty, d)"
    by (rule server_viewD)
  from es_get_spec [OF im(2,3)] obtain im' where g:
    "es_get im eid (\<lambda>k. time_at (sv_ticks s + k)) = Inr (OK, d, im')" "im_wf im'" "srv_view im' = srv_view im"
    by blast
  then show "\<exists>s'. rpc_get (direct_rpc time_at lost bare) s eid = (0, Some d, s') \<and> server_inv s'
      \<and> server_view s' = server_view s"
    using im(1) by (simp add: direct_rpc_def serve_ok [where im = im and im' = im'])
  from es_getattr_spec [OF im(2,3)] obtain a where
    a: "es_getattr im eid = Inr (OK, a)" "a_type a = ty" "a_size a = of_nat (length d)" by blast
  then show "\<exists>a s'. rpc_getattr (direct_rpc time_at lost bare) s eid = (0, Some a, s') \<and> a_type a = ty
      \<and> a_size a = of_nat (length d) \<and> server_inv s' \<and> server_view s' = server_view s"
    using im by (simp add: direct_rpc_def serve_ok [where im = im and im' = im])
  from es_remove_spec [OF im(2,3)] obtain im'' where
    "es_remove im eid = Inr (OK, im'')" "im_wf im''" "srv_view im'' = (srv_view im)(eid := None)" by blast
  then show "\<exists>s'. rpc_remove (direct_rpc time_at lost bare) s eid = (0, s') \<and> server_inv s'
      \<and> server_view s' = (server_view s)(eid := None)"
    using im(1) by (simp add: direct_rpc_def no_reply_def serve_ok [where im = im and im' = im''])
next
  fix s s' :: server and eid ty d buf
  assume inv: "server_inv s" and v: "server_view s eid = Some (ty, d)" and ad: "server_admits s eid buf"
    and run: "rpc_put (direct_rpc time_at lost bare) s eid buf = (0, s')"
  from inv v obtain im where im: "sv_store s = Inr im" "im_wf im" "srv_view im eid = Some (ty, d)"
    by (rule server_viewD)
  from run obtain r where "serve time_at lost
      (\<lambda>im clk. bind_res (es_put im eid buf clk) (\<lambda>(st, im'). Inr (st, (), im'))) s = (0, r, s')"
    by (auto simp: direct_rpc_def no_reply_def split: prod.splits)
  then obtain x im' where "bind_res (es_put im eid buf (\<lambda>k. time_at (sv_ticks s + k)))
      (\<lambda>(st, im'). Inr (st, (), im')) = Inr (OK, x, im')" "s' = \<lparr>sv_store = Inr im', sv_ticks = sv_ticks s + 3\<rparr>"
    by (rule serve_zero) (use im(1) in simp)
  then show "server_inv s' \<and> server_view s' = (server_view s)(eid \<mapsto> (ty, buf))"
    using es_put_spec [OF im(2,3), of buf "\<lambda>k. time_at (sv_ticks s + k)"] ad im(1)
    by (auto simp: server_admits_def)
qed

end
