(* ===== verification/Store_Properties.thy ===== *)
theory Store_Properties
  imports Extent_Service
begin

text \<open>
  The properties of the disk, block, inode and extent server layers, each with a concrete
  instance of its hypotheses: a store freshly formatted by the constructor, with the root
  directory as its only file.
\<close>

section \<open>A formatted store\<close>

definition example_raw :: superblock where
  "example_raw = \<lparr>sb_size = 0, sb_nblocks = 32768, sb_ninodes = 0\<rparr>"

definition example_store :: inode_manager where
  "example_store = set_inode 1
     \<lparr>i_type = ucast T_DIR, i_size = 0, i_atime = 0, i_mtime = 0, i_ctime = 0,
      i_blocks = replicate 101 0\<rparr>
     \<lparr>next_inum = 2, bmgr = block_manager_ctor example_raw\<rparr>"

lemma example_raw_good: "good_raw example_raw"
  by (simp add: good_raw_def example_raw_def)

lemma example_ctor: "extent_server_ctor example_raw (replicate 101 0) (\<lambda>k. 0) = Inr example_store"
  using put_inode_eq [of "\<lparr>next_inum = 2, bmgr = block_manager_ctor example_raw\<rparr>" 1]
    block_manager_ctor_wf [OF example_raw_good]
  by (simp add: extent_server_ctor_def inode_manager_ctor_def example_store_def valid_inum_def inode_valid_def)

lemma example_store:
  shows "im_wf example_store" and "fs_view example_store = [1 \<mapsto> (1, [])]"
    and "live example_store 1" and "bm_wf (bmgr example_store)"
proof -
  from initial_store [OF example_raw_good, of "replicate 101 0" "\<lambda>k. 0"] example_ctor
  show wf: "im_wf example_store" and v: "fs_view example_store = [1 \<mapsto> (1, [])]" by auto
  have "fs_view example_store 1 \<noteq> None" using v by simp
  then show "live example_store 1" by (auto simp: fs_view_def split: if_splits)
  show "bm_wf (bmgr example_store)" by (rule im_wfD(1) [OF wf])
qed

lemma example_used: "used_blocks (bmgr example_store) = {}"
  by (simp only: example_store_def set_inode_simps) (simp add: block_manager_ctor_def used_blocks_def)

lemma example_free: "0 < card {b. is_data_block b \<and> b \<notin> used_blocks (bmgr example_store)}"
  unfolding card_gt_0_iff example_used using is_data_block_def [of 1036] by auto

lemma example_view: "srv_view example_store 1 = Some (1, [])"
  by (simp add: srv_view_def example_store)

definition example_server :: server where
  "example_server = \<lparr>sv_store = Inr example_store, sv_ticks = 0\<rparr>"

lemma example_server:
  shows "server_inv example_server" and "server_view example_server 1 = Some (1, [])"
    and "server_admits example_server 1 [104, 105]"
  by (simp_all add: example_server_def example_store example_view server_admits_def)

section \<open>Files\<close>

text \<open>C7: Writing a file. On a well-formed store, \<open>write_file\<close> either returns a well-formed
  store whose view differs only in that the file now holds exactly the data written, or it
  exits; it exits only when the free data blocks are fewer than the blocks the file grows by.
  No other outcome (null dereference, access out of bounds, uninitialised read) is possible.
  A file of more than 100 blocks needs an indirect block that no other large file uses.\<close>

theorem write_file_correct:
  assumes "im_wf im" and "live im i" and "unat sz = length buf"
    and "length buf \<le> MAXFILE * BLOCK_SIZE"
    and "NDIRECT * BLOCK_SIZE < length buf \<Longrightarrow> own_indirect im i"
  shows "(\<exists>im'. write_file im i buf sz clk = Inr im' \<and> im_wf im'
            \<and> fs_view im' = (fs_view im)(i \<mapsto> (i_type (inode_at im i), buf))) \<or>
    (write_file im i buf sz clk = Inl Exit \<and>
      card {b. is_data_block b \<and> b \<notin> used_blocks (bmgr im)} < unat (blnum sz) - nblk (inode_at im i))"
  using write_file_refines [OF assms] by (simp add: free_blocks_def)

theorem write_file_correct_witness:
  "(\<exists>im'. write_file example_store 1 [104, 105] 2 (\<lambda>k. 7) = Inr im' \<and> im_wf im'
      \<and> fs_view im' = (fs_view example_store)(1 \<mapsto> (i_type (inode_at example_store 1), [104, 105]))) \<or>
    (write_file example_store 1 [104, 105] 2 (\<lambda>k. 7) = Inl Exit \<and>
      card {b. is_data_block b \<and> b \<notin> used_blocks (bmgr example_store)}
        < unat (blnum 2) - nblk (inode_at example_store 1))"
  by (rule write_file_correct) (simp_all add: example_store)

text \<open>Reading a file. On a well-formed store, \<open>extent_server::get\<close> of a live file returns
  \<open>OK\<close> with exactly the bytes of the view and leaves the view alone.\<close>

theorem get_correct:
  assumes "im_wf im" and "srv_view im eid = Some (ty, d)"
  shows "\<exists>im'. es_get im eid clk = Inr (OK, d, im') \<and> im_wf im' \<and> srv_view im' = srv_view im"
  using assms by (rule es_get_spec)

theorem get_correct_witness:
  "\<exists>im'. es_get example_store 1 (\<lambda>k. 5) = Inr (OK, [], im') \<and> im_wf im'
     \<and> srv_view im' = srv_view example_store"
  by (rule get_correct [OF example_store(1) example_view])

text \<open>C39: Put followed by get, through the client stubs. When the put of an admissible string
  succeeds, the next get returns that string, and the contents of every other extent are what
  they were.\<close>

theorem put_get_roundtrip:
  assumes "server_inv s" and "server_view s eid = Some (ty, d)" and "server_admits s eid buf"
    and "ec_put (direct_rpc time_at lost bare) s eid buf = (0, s1)"
  shows "\<exists>s2. ec_get (direct_rpc time_at lost bare) s1 eid old = (0, buf, s2)
    \<and> server_view s2 = (server_view s)(eid \<mapsto> (ty, buf))"
  using assms by (rule direct.client_put_get)

text \<open>A short put into the example store succeeds: one block is needed and one is free.\<close>

lemma example_put:
  "\<exists>s1. ec_put (direct_rpc (\<lambda>k. 9) 0 (\<lambda>s e. (0, s))) example_server 1 [104, 105] = (0, s1)"
proof -
  have "\<exists>im'. write_file example_store 1 [104, 105] 2 (\<lambda>k. 9) = Inr im'"
    using write_file_refines [OF example_store(1,3), of 2 "[104, 105]" "\<lambda>k. 9"] example_free
    by (auto simp: free_blocks_def blnum_def)
  then show ?thesis
    by (auto simp: ec_put_def direct_rpc_def no_reply_def serve_def example_server_def es_put_def
        server_inum_small)
qed

theorem put_get_roundtrip_witness:
  "\<exists>s1 s2. ec_put (direct_rpc (\<lambda>k. 9) 0 (\<lambda>s e. (0, s))) example_server 1 [104, 105] = (0, s1)
    \<and> ec_get (direct_rpc (\<lambda>k. 9) 0 (\<lambda>s e. (0, s))) s1 1 [] = (0, [104, 105], s2)"
  using example_put put_get_roundtrip [OF example_server] by blast

text \<open>C12: Creating a file. On a well-formed store, \<open>alloc_inode\<close> returns an inode number from 2 to
  1024 that was free, the store stays well formed, and the view gains an empty file of the
  given type; it exits exactly when all these numbers are in use.\<close>

theorem alloc_inode_correct:
  assumes wf: "im_wf im" and ty: "(ucast ty :: u16) \<noteq> 0"
  shows "(\<exists>h im'. alloc_inode im ty clk = Inr (h, im') \<and> 2 \<le> h \<and> h \<le> 1024 \<and> fs_view im h = None
            \<and> im_wf im' \<and> fs_view im' = (fs_view im)(h \<mapsto> (ucast ty, []))) \<or>
    (alloc_inode im ty clk = Inl Exit \<and> (\<forall>h. 2 \<le> h \<and> h \<le> 1024 \<longrightarrow> fs_view im h \<noteq> None))"
proof (cases "alloc_inode im ty clk")
  case (Inl e)
  then show ?thesis using alloc_inode_Inl [OF wf] by (auto simp: fs_view_def)
next
  case (Inr p)
  obtain h im' where "p = (h, im')" by (cases p)
  with Inr alloc_inode_refines [OF wf ty] show ?thesis by (auto simp: fs_view_def)
qed

theorem alloc_inode_correct_witness:
  "(\<exists>h im'. alloc_inode example_store 2 (\<lambda>k. 0) = Inr (h, im') \<and> 2 \<le> h \<and> h \<le> 1024
      \<and> fs_view example_store h = None
      \<and> im_wf im' \<and> fs_view im' = (fs_view example_store)(h \<mapsto> (ucast (2 :: u32), []))) \<or>
    (alloc_inode example_store 2 (\<lambda>k. 0) = Inl Exit \<and>
      {h. 2 \<le> h \<and> h \<le> 1024 \<and> fs_view example_store h = None} = {})"
  using alloc_inode_correct [OF example_store(1), of 2 "\<lambda>k. 0"] by auto

text \<open>C13: Removing a file. On a well-formed store, \<open>remove_file\<close> of a live file always returns, the
  store stays well formed and the view loses that file only.\<close>

theorem remove_file_correct:
  assumes "im_wf im" and "live im i"
  shows "\<exists>im'. remove_file im i = Inr im' \<and> im_wf im' \<and> fs_view im' = (fs_view im)(i := None)"
  using assms by (rule remove_file_refines)

theorem remove_file_correct_witness:
  "\<exists>im'. remove_file example_store 1 = Inr im' \<and> im_wf im' \<and> fs_view im' = (fs_view example_store)(1 := None)"
  by (rule remove_file_correct [OF example_store(1,3)])

text \<open>C23: Formatting. The constructors of the extent server produce a well-formed store whose only
  file is the empty root directory, provided the memory the superblock is built in happens
  to place the allocation cursor in the data region.\<close>

theorem format_correct:
  assumes "good_raw raw" and "length junk = 101"
  shows "\<exists>im. extent_server_ctor raw junk clk = Inr im \<and> im_wf im \<and> fs_view im = [1 \<mapsto> (1, [])]"
  using assms by (rule initial_store)

theorem format_correct_witness:
  "\<exists>im. extent_server_ctor example_raw (replicate 101 3) (\<lambda>k. 1) = Inr im \<and> im_wf im
     \<and> fs_view im = [1 \<mapsto> (1, [])]"
  by (rule format_correct [OF example_raw_good]) simp

section \<open>Blocks\<close>

text \<open>The block allocator is complete. On a formatted disk \<open>alloc_block\<close> exits exactly when no
  block of the data region is free: the next-fit scan and the first-fit scan after it cover
  the region.\<close>

theorem alloc_block_complete:
  assumes "bm_wf bm"
  shows "alloc_block bm = Inl e \<longleftrightarrow> e = Exit \<and> (\<forall>b. is_data_block b \<longrightarrow> using_blocks bm b \<noteq> 0)"
  using assms by (rule alloc_block_Inl)

theorem alloc_block_complete_witness:
  "alloc_block (bmgr example_store) = Inl Exit \<longleftrightarrow>
    {b. is_data_block b \<and> using_blocks (bmgr example_store) b = 0} = {}"
  using alloc_block_complete [OF example_store(4), of Exit] by auto


lemma example_alloc: "\<exists>bm'. alloc_block (block_manager_ctor example_raw) = Inr (1036, bm')"
  by (simp add: alloc_block_def block_manager_ctor_def example_raw_def IBLOCK_def Let_def find_fit_block.simps)


text \<open>A superblock whose number of blocks is too small puts the cursor inside the inode table.\<close>

lemma low_cursor:
  assumes "sb_nblocks raw < 32768"
  shows "unat (IBLOCK 1024 (sb_nblocks raw) + 1) = 1028 + unat (sb_nblocks raw) div 4096"
    and "unat (1017 + sb_nblocks raw div 4096) = 1017 + unat (sb_nblocks raw) div 4096"
    and "valid_inum (1017 + sb_nblocks raw div 4096)"
proof -
  have "unat (sb_nblocks raw) < 32768" using assms by (simp add: word_less_nat_alt)
  then have q: "unat (sb_nblocks raw) div 4096 < 8" by auto
  then show a: "unat (IBLOCK 1024 (sb_nblocks raw) + 1) = 1028 + unat (sb_nblocks raw) div 4096"
    by (simp add: IBLOCK_def unat_word_ariths unat_div)
  from q show b: "unat (1017 + sb_nblocks raw div 4096) = 1017 + unat (sb_nblocks raw) div 4096"
    by (simp add: unat_word_ariths unat_div)
  from b q show "valid_inum (1017 + sb_nblocks raw div 4096)" by (simp add: valid_inum_unat)
qed

lemma low_cursor_block:
  assumes "sb_nblocks raw < 32768"
  shows "IBLOCK 1024 (sb_nblocks raw) + 1 = IBLOCK (1017 + sb_nblocks raw div 4096) 32768"
proof -
  have "unat (1017 + sb_nblocks raw div 4096) \<le> 1024"
    using low_cursor(3) [OF assms] by (simp add: valid_inum_unat)
  from unat_IBLOCK [OF this]
  have "unat (IBLOCK 1024 (sb_nblocks raw) + 1) = unat (IBLOCK (1017 + sb_nblocks raw div 4096) 32768)"
    unfolding low_cursor(1,2) [OF assms] by linarith
  then show ?thesis by (rule unsigned_word_eqI)
qed

lemma low_ctor:
  assumes "sb_nblocks raw < 32768" and "length junk = 101"
  defines "i \<equiv> 1017 + sb_nblocks raw div 4096"
  shows "\<exists>im. inode_manager_ctor raw junk clk = Inr im
    \<and> sb_nblocks (sb (bmgr im)) = 32768 \<and> (\<forall>b. using_blocks (bmgr im) b = 0)
    \<and> next_block (bmgr im) = IBLOCK i 32768 \<and> blocks (dsk (bmgr im)) (IBLOCK i 32768) = replicate 512 0"
proof -
  let ?im = "\<lparr>next_inum = 2, bmgr = block_manager_ctor raw\<rparr>"
  let ?root = "\<lparr>i_type = ucast T_DIR, i_size = 0, i_atime = clk 0, i_mtime = clk 1,
                  i_ctime = clk 2, i_blocks = junk\<rparr>"
  have v: "inode_valid ?root" using assms(2) by (simp add: inode_valid_def)
  have one: "IBLOCK 1 32768 = (12::u32)" by (simp add: IBLOCK_def)
  have ne: "IBLOCK i 32768 \<noteq> 12"
  proof
    assume "IBLOCK i 32768 = 12"
    then have "unat (IBLOCK i 32768) = 12" by simp
    then show False using low_cursor(2,3) [OF assms(1)] by (simp add: i_def valid_inum_unat)
  qed
  have "put_inode ?im 1 ?root = Inr (set_inode 1 ?root ?im)"
    using length_encode_inode [OF v]
    by (simp add: put_inode_def set_inode_def write_block_legal Let_def block_manager_ctor_def disk_ctor_def one)
  then show ?thesis using ne low_cursor_block [OF assms(1)]
    by (simp add: inode_manager_ctor_def set_inode_def block_manager_ctor_def disk_ctor_def one i_def)
qed

text \<open>C34: The block allocator before the superblock is set. The constructor computes the cursor from
  the number of blocks it finds in the memory of the new object, before it assigns the real
  one. Whenever that number is below 32768 (in particular when the memory holds zeros), the
  cursor lies inside the inode table: the first block any direct allocation of any inode
  writes is the block of inode \<open>1017 + n div 4096\<close>, which was a free inode of zeros and whose
  contents are then the 512 bytes of file data.\<close>

theorem low_superblock_overlap:
  fixes raw :: superblock
  defines "i \<equiv> 1017 + sb_nblocks raw div 4096"
  assumes low: "sb_nblocks raw < 32768" and junk: "length junk = 101"
    and n: "n < 100" and buf: "length buf = 512"
  shows "\<exists>im im' ino'. extent_server_ctor raw junk clk = Inr im
    \<and> alloc_nth_block im ino n buf True = Inr (im', ino')
    \<and> valid_inum i \<and> get_inode im i = Inr (Some (decode_inode (replicate 512 0)))
    \<and> get_inode im' i = Inr (Some (decode_inode buf))"
proof -
  obtain im where c: "extent_server_ctor raw junk clk = Inr im"
    and s: "sb_nblocks (sb (bmgr im)) = 32768" and u: "using_blocks (bmgr im) (IBLOCK i 32768) = 0"
    and b: "next_block (bmgr im) = IBLOCK i 32768"
    and z: "blocks (dsk (bmgr im)) (IBLOCK i 32768) = replicate 512 0"
    using low_ctor [OF low junk] unfolding i_def extent_server_ctor_def by blast
  have v: "valid_inum i" unfolding i_def by (rule low_cursor(3) [OF low])
  note L = IBLOCK_legal(1) [OF v]
  have "IBLOCK i 32768 \<noteq> - 1" using L by auto
  then obtain bm where a: "alloc_block (bmgr im) = Inr (IBLOCK i 32768, bm)"
    and sb': "sb bm = sb (bmgr im)"
    using L s u b by (auto simp: alloc_block_def Let_def find_fit_block.simps)
  have w: "write_block bm (IBLOCK i 32768) (Buffer buf) = Inr (set_block (IBLOCK i 32768) buf bm)"
    by (rule write_block_legal [OF L buf])
  have "alloc_nth_block im ino n buf True = Inr (im\<lparr>bmgr := set_block (IBLOCK i 32768) buf bm\<rparr>,
      ino\<lparr>i_blocks := (i_blocks ino)[n := IBLOCK i 32768]\<rparr>)"
    using n by (simp add: alloc_nth_block_def a w)
  moreover have "\<not> (i \<le> 0 \<or> 1024 < i)" using v by (auto simp: valid_inum_def)
  ultimately show ?thesis using c v L s z sb' by (simp add: get_inode_def)
qed

lemma type_of_bytes: "i_type (decode_inode (replicate 512 0)) = 0" "i_type (decode_inode (replicate 512 2)) \<noteq> 0"
proof -
  have two: "slice_at 0 2 (replicate 512 (c::8 word)) = [c, c]" for c
    by (simp add: slice_at_def take_replicate numeral_2_eq_2)
  show "i_type (decode_inode (replicate 512 0)) = 0" "i_type (decode_inode (replicate 512 2)) \<noteq> 0"
    by (simp_all only: decode_inode_def inode.simps two) simp_all
qed

theorem low_superblock_overlap_witness:
  "\<exists>im im' ino' d e. extent_server_ctor \<lparr>sb_size = 0, sb_nblocks = 0, sb_ninodes = 0\<rparr> (replicate 101 0) (\<lambda>_. 0) = Inr im
    \<and> alloc_nth_block im (decode_inode []) 0 (replicate 512 2) True = Inr (im', ino')
    \<and> get_inode im 1017 = Inr (Some d) \<and> i_type d = 0 \<and> get_inode im' 1017 = Inr (Some e) \<and> i_type e \<noteq> 0"
proof -
  let ?raw = "\<lparr>sb_size = 0, sb_nblocks = 0, sb_ninodes = 0\<rparr>"
  have i: "1017 + sb_nblocks ?raw div 4096 = 1017" by simp
  have "sb_nblocks ?raw < 32768" by simp
  from low_superblock_overlap [OF this length_replicate zero_less_numeral length_replicate,
      of 0 "\<lambda>_. 0" "decode_inode []" 2, unfolded i]
  show ?thesis using type_of_bytes by blast
qed

section \<open>Inodes on disk\<close>

text \<open>The inode table. On a formatted disk, an inode stored by \<open>put_inode\<close> is what \<open>get_inode\<close>
  reads back at its number, every other inode is unchanged, and so is every block outside
  the table.\<close>

theorem put_get_inode:
  assumes wf: "bm_wf (bmgr im)" and i: "valid_inum i" and j: "valid_inum j"
    and v: "length (i_blocks ino) = NDIRECT + 1"
  shows "\<exists>im'. put_inode im i ino = Inr im'
    \<and> get_inode im' j = (if j = i then Inr (Some ino) else get_inode im j)
    \<and> (\<forall>b. b < 12 \<or> is_data_block b \<longrightarrow> blocks (dsk (bmgr im')) b = blocks (dsk (bmgr im)) b)"
proof -
  have v': "inode_valid ino" using v by (simp add: inode_valid_def)
  have "get_inode (set_inode i ino im) j = (if j = i then Inr (Some ino) else get_inode im j)"
    using j inode_at_set_inode [OF v' i j]
    by (simp add: get_inode_eq [OF wf] get_inode_eq [OF set_inode_wf [OF wf v']])
  moreover have "blocks (dsk (bmgr (set_inode i ino im))) b = blocks (dsk (bmgr im)) b"
    if "b < 12 \<or> is_data_block b" for b
    using that low_not_inode [OF _ i, of b] IBLOCK_not_data [OF i, of b] by auto
  ultimately show ?thesis using put_inode_eq [OF wf i v'] by blast
qed

theorem put_get_inode_witness:
  "\<exists>im'. put_inode example_store 3 (inode_at example_store 1) = Inr im'
    \<and> get_inode im' 3 = (if (3::u32) = 3 then Inr (Some (inode_at example_store 1)) else get_inode example_store 3)
    \<and> (\<forall>b. b < 12 \<or> is_data_block b \<longrightarrow>
         blocks (dsk (bmgr im')) b = blocks (dsk (bmgr example_store)) b)"
  by (rule put_get_inode [OF example_store(4)])
    (simp_all add: valid_inum_def inode_at_valid [unfolded inode_valid_def, simplified])

text \<open>The bytes of an inode. Decoding the 424 bytes of an encoded inode, whatever follows them
  in the block, gives the inode back.\<close>

theorem inode_bytes_roundtrip:
  assumes "length (i_blocks ino) = NDIRECT + 1"
  shows "decode_inode (encode_inode ino @ rest) = ino \<and> length (encode_inode ino) = sizeof_inode"
proof -
  have "inode_valid ino" using assms by (simp add: inode_valid_def)
  then show ?thesis using ino.dec_enc ino.enc_length by blast
qed

theorem inode_bytes_roundtrip_witness:
  "decode_inode (encode_inode (inode_at example_store 1) @ [0]) = inode_at example_store 1
    \<and> length (encode_inode (inode_at example_store 1)) = sizeof_inode"
  by (rule inode_bytes_roundtrip) (simp add: inode_at_valid [unfolded inode_valid_def, simplified])

section \<open>Where the inode layer breaks its promises\<close>

text \<open>C33: The indirect block is never allocated. Extending a file past its 100 direct blocks
  allocates one block only, the data block; its number is stored in whatever block the last
  address of the inode names. When two inodes name the same block (inodes made by
  \<open>alloc_inode\<close> on a formatted disk all name block 0), the new block of one file becomes the
  block at the same position of the other.\<close>

theorem indirect_block_shared:
  assumes wf: "bm_wf (bmgr im)" and a: "length (i_blocks a) = NDIRECT + 1"
    and n: "NDIRECT \<le> n" "n < MAXFILE" and shared: "i_blocks a ! NDIRECT = i_blocks b ! NDIRECT"
    and low: "i_blocks a ! NDIRECT < 12"
    and run: "alloc_nth_block im a n buf False = Inr (im', a')"
  shows "\<exists>new. used_blocks (bmgr im') = insert new (used_blocks (bmgr im)) \<and> new \<notin> used_blocks (bmgr im)
    \<and> get_nth_block im' a' n = Inr new \<and> get_nth_block im' b n = Inr new"
proof -
  have v: "inode_valid a" using a by (simp add: inode_valid_def)
  have lo: "ind a < 12" and lob: "ind b < 32768" using low shared low_legal by simp_all
  obtain new where new:
    "new \<notin> used_blocks (bmgr im)" "used_blocks (bmgr im') = insert new (used_blocks (bmgr im))"
    "nth_bid im' a' n = new" "ind a' = ind a"
    using alloc_nth_block_spec [OF wf v n(2) lo run] n(2) by (elim exE conjE) simp
  have "nth_bid im' b n = new" using new(3,4) n(1) shared by (simp add: nth_bid_def)
  moreover have "ind a' < 32768" using new(4) low low_legal by simp
  ultimately show ?thesis
    using new(1-3) get_nth_block_eq [OF n(2), of a' im'] get_nth_block_eq [OF n(2), of b im'] lob
    by (intro exI [of _ new]) simp
qed

definition example_inode :: inode where
  "example_inode = \<lparr>i_type = ucast T_FILE, i_size = 0, i_atime = 0, i_mtime = 0, i_ctime = 0,
     i_blocks = replicate 101 0\<rparr>"

lemma example_alloc_indirect:
  "\<exists>im'. alloc_nth_block example_store example_inode 100 [] False = Inr (im', example_inode)"
proof -
  obtain b bm where al: "alloc_block (bmgr example_store) = Inr (b, bm)"
    using alloc_block_Inl [OF example_store(4)] example_free
    by (cases "alloc_block (bmgr example_store)") (auto simp: card_gt_0_iff used_blocks_def)
  have wf: "bm_wf bm" by (rule alloc_block_wf [OF example_store(4) al])
  show ?thesis
    using bm_wfD(2) [OF wf, of 0] by (simp add: alloc_nth_block_def al example_inode_def write_block_legal)
qed

theorem indirect_block_shared_witness:
  "\<exists>im' new. alloc_nth_block example_store example_inode 100 [] False = Inr (im', example_inode)
    \<and> new \<notin> used_blocks (bmgr example_store) \<and> used_blocks (bmgr im') = {new}
    \<and> get_nth_block im' (example_inode\<lparr>i_type := ucast T_DIR\<rparr>) 100 = Inr new"
proof -
  obtain im' where run: "alloc_nth_block example_store example_inode 100 [] False = Inr (im', example_inode)"
    using example_alloc_indirect by blast
  show ?thesis
    using indirect_block_shared [OF example_store(4) _ _ _ _ _ run, of "example_inode\<lparr>i_type := ucast T_DIR\<rparr>"] run
    by (auto simp: example_inode_def example_used)
qed

end
