(* ===== verification/Extent_Cache.thy ===== *)
theory Extent_Cache
  imports Extent_Service
begin

text \<open>
  The caching extent client of \<^verbatim>\<open>extent_client_cache.h\<close> and \<^verbatim>\<open>extent_client_cache.cc\<close>: a table
  from extents to cached data and attributes, each entry in one of four states, over the
  stubs of \<open>Extent_Service\<close>. The log file \<^verbatim>\<open>of\<close> and the mutex are left out: every operation
  runs as one step. The lemmas show that the cache is transparent: what a client sees through
  it is the server's map with the pending writes and removals applied.
\<close>

section \<open>The table\<close>

datatype cache_state = NONE | UPDATE | MODIFIED | REMOVED

record extent =
  x_data :: bytes
  x_state :: cache_state
  x_attr :: attr

type_synonym cache_table = "extentid \<rightharpoonup> extent"

text \<open>
  The constructor of an extent sets the state only: its attributes are \<open>junk\<close>, whatever the
  memory holds. \<open>entry\<close> is \<open>operator[]\<close> of the map, which constructs a missing entry.
\<close>

definition extent_ctor :: "attr \<Rightarrow> extent" where
  "extent_ctor junk = \<lparr>x_data = [], x_state = NONE, x_attr = junk\<rparr>"

definition entry :: "attr \<Rightarrow> cache_table \<Rightarrow> extentid \<Rightarrow> extent" where
  "entry junk tbl eid = (case tbl eid of Some x \<Rightarrow> x | None \<Rightarrow> extent_ctor junk)"

section \<open>Operations\<close>

definition cc_create ::
  "'s extent_rpc \<Rightarrow> attr \<Rightarrow> clock \<Rightarrow> cache_table \<Rightarrow> 's \<Rightarrow> u32 \<Rightarrow> extentid \<Rightarrow> int \<times> extentid \<times> cache_table \<times> 's" where
  "cc_create rpc junk clk tbl s ty eid0 =
     (let (ret, r, s') = rpc_create rpc s ty;
          eid = out_param r eid0;
          x = entry junk tbl eid;
          x' = x\<lparr>x_attr := (x_attr x)\<lparr>a_atime := clk 0, a_type := ty, a_size := 0\<rparr>, x_state := NONE\<rparr>
      in (ret, eid, tbl(eid \<mapsto> x'), s'))"

definition cc_get ::
  "'s extent_rpc \<Rightarrow> attr \<Rightarrow> clock \<Rightarrow> cache_table \<Rightarrow> 's \<Rightarrow> extentid \<Rightarrow> bytes \<Rightarrow> int \<times> bytes \<times> cache_table \<times> 's" where
  "cc_get rpc junk clk tbl s eid buf =
     (case tbl eid of
        Some x \<Rightarrow>
          (case x_state x of
             UPDATE \<Rightarrow> (0, x_data x, tbl(eid \<mapsto> x\<lparr>x_attr := (x_attr x)\<lparr>a_atime := clk 0\<rparr>\<rparr>), s)
           | MODIFIED \<Rightarrow> (0, x_data x, tbl(eid \<mapsto> x\<lparr>x_attr := (x_attr x)\<lparr>a_atime := clk 0\<rparr>\<rparr>), s)
           | NONE \<Rightarrow>
               (let (ret, r, s') = rpc_get rpc s eid; buf' = out_param r buf
                in if ret = ext_status_code OK
                   then (ret, buf', tbl(eid \<mapsto> \<lparr>x_data = buf', x_state = UPDATE,
                           x_attr = (x_attr x)\<lparr>a_atime := clk 0, a_size := of_nat (length buf')\<rparr>\<rparr>), s')
                   else (ret, buf', tbl, s'))
           | REMOVED \<Rightarrow> (ext_status_code NOENT, buf, tbl, s))
      | None \<Rightarrow>
          (let (_, r, s1) = rpc_get rpc s eid; buf' = out_param r buf;
               (ret, ra, s2) = rpc_getattr rpc s1 eid; a = out_param ra junk
           in if ret = ext_status_code OK
              then (ret, buf', tbl(eid \<mapsto> \<lparr>x_data = buf', x_state = UPDATE,
                      x_attr = a\<lparr>a_atime := clk 0\<rparr>\<rparr>), s2)
              else (ret, buf', tbl, s2)))"

definition cc_getattr ::
  "'s extent_rpc \<Rightarrow> cache_table \<Rightarrow> 's \<Rightarrow> extentid \<Rightarrow> attr \<Rightarrow> int \<times> attr \<times> cache_table \<times> 's" where
  "cc_getattr rpc tbl s eid a =
     (case tbl eid of
        Some x \<Rightarrow>
          if x_state x = REMOVED then (ext_status_code NOENT, a, tbl, s)
          else (0, x_attr x, tbl, s)
      | None \<Rightarrow>
          (let (ret, r, s') = rpc_getattr rpc s eid; a' = out_param r a
           in if ret = ext_status_code OK
              then (ret, a', tbl(eid \<mapsto> \<lparr>x_data = [], x_state = NONE, x_attr = a'\<rparr>), s')
              else (ret, a', tbl, s')))"

definition cc_put ::
  "attr \<Rightarrow> clock \<Rightarrow> cache_table \<Rightarrow> extentid \<Rightarrow> bytes \<Rightarrow> int \<times> cache_table" where
  "cc_put junk clk tbl eid buf =
     (if tbl eid \<noteq> None \<and> x_state (the (tbl eid)) = REMOVED then (ext_status_code NOENT, tbl)
      else (0, tbl(eid \<mapsto> \<lparr>x_data = buf, x_state = MODIFIED,
                 x_attr = (x_attr (entry junk tbl eid))
                   \<lparr>a_mtime := clk 0, a_ctime := clk 1, a_size := of_nat (length buf)\<rparr>\<rparr>)))"

definition cc_remove :: "attr \<Rightarrow> cache_table \<Rightarrow> extentid \<Rightarrow> int \<times> cache_table" where
  "cc_remove junk tbl eid =
     (if tbl eid \<noteq> None \<and> x_state (the (tbl eid)) = REMOVED then (ext_status_code NOENT, tbl)
      else (0, tbl(eid \<mapsto> (entry junk tbl eid)\<lparr>x_state := REMOVED\<rparr>)))"

definition cc_flush :: "'s extent_rpc \<Rightarrow> cache_table \<Rightarrow> 's \<Rightarrow> extentid \<Rightarrow> int \<times> cache_table \<times> 's" where
  "cc_flush rpc tbl s eid =
     (case tbl eid of
        Some x \<Rightarrow>
          (let (ret, s') = (case x_state x of
                 MODIFIED \<Rightarrow> rpc_put rpc s eid (x_data x)
               | REMOVED \<Rightarrow> rpc_remove_bare rpc s eid
               | NONE \<Rightarrow> (0, s)
               | UPDATE \<Rightarrow> (0, s))
           in (ret, tbl(eid := None), s'))
      | None \<Rightarrow> (ext_status_code NOENT, tbl, s))"

lemmas cc_defs = cc_create_def cc_get_def cc_getattr_def cc_put_def cc_remove_def cc_flush_def
  extent_ctor_def entry_def

text \<open>Attributes that were answered once are answered from the table from then on.\<close>

lemma cc_getattr_again:
  assumes run: "cc_getattr rpc tbl s e a0 = (0, a, tbl', s')"
  shows "cc_getattr rpc tbl' t e a1 = (0, a, tbl', t)"
proof (cases "tbl e")
  case None
  obtain ret r s1 where "rpc_getattr rpc s e = (ret, r, s1)" by (metis prod_cases3)
  then show ?thesis using run None by (auto simp: cc_getattr_def Let_def split: if_splits)
next
  case (Some x)
  then show ?thesis using run by (auto simp: cc_getattr_def split: if_splits)
qed

section \<open>What a client sees through its cache\<close>

definition cview :: "('s \<Rightarrow> extentid \<rightharpoonup> (u32 \<times> bytes)) \<Rightarrow> cache_table \<Rightarrow> 's \<Rightarrow> extentid \<rightharpoonup> (u32 \<times> bytes)" where
  "cview view tbl s eid =
     (case tbl eid of
        None \<Rightarrow> view s eid
      | Some x \<Rightarrow>
          (case x_state x of
             NONE \<Rightarrow> view s eid
           | UPDATE \<Rightarrow> view s eid
           | MODIFIED \<Rightarrow> map_option (\<lambda>(ty, _). (ty, x_data x)) (view s eid)
           | REMOVED \<Rightarrow> None))"

text \<open>
  An entry agrees with the server: the extent exists there, fresh data is the server's data,
  and the cached type and size are those of the visible contents.
\<close>

definition entry_ok :: "extent \<Rightarrow> u32 \<Rightarrow> bytes \<Rightarrow> bool" where
  "entry_ok x ty d \<longleftrightarrow> (x_state x = UPDATE \<longrightarrow> x_data x = d)
     \<and> (x_state x \<noteq> REMOVED \<longrightarrow> a_type (x_attr x) = ty
         \<and> a_size (x_attr x) = of_nat (length (if x_state x = MODIFIED then x_data x else d)))"

definition cache_ok :: "('s \<Rightarrow> extentid \<rightharpoonup> (u32 \<times> bytes)) \<Rightarrow> cache_table \<Rightarrow> 's \<Rightarrow> bool" where
  "cache_ok view tbl s \<longleftrightarrow>
     (\<forall>eid x. tbl eid = Some x \<longrightarrow> (\<exists>ty d. view s eid = Some (ty, d) \<and> entry_ok x ty d))"

lemma cache_okD: "cache_ok view tbl s \<Longrightarrow> tbl eid = Some x \<Longrightarrow> view s eid = Some (ty, d) \<Longrightarrow> entry_ok x ty d"
  by (fastforce simp: cache_ok_def)

lemma cache_ok_absent: "cache_ok view tbl s \<Longrightarrow> view s eid = None \<Longrightarrow> tbl eid = None"
  by (cases "tbl eid") (fastforce simp: cache_ok_def)+

lemma cache_ok_update:
  assumes "cache_ok view tbl s" and "view s eid = Some (ty, d)" and "entry_ok x ty d"
    and "view s' = view s"
  shows "cache_ok view (tbl(eid \<mapsto> x)) s'"
  using assms by (simp add: cache_ok_def)

lemma cache_ok_same: "cache_ok view tbl s \<Longrightarrow> view s' = view s \<Longrightarrow> cache_ok view tbl s'"
  by (simp add: cache_ok_def)

lemma cview_same: "view s' = view s \<Longrightarrow> cview view tbl s' = cview view tbl s"
  by (rule ext) (auto simp: cview_def split: option.splits cache_state.splits)

lemma cview_SomeE:
  assumes "cview view tbl s eid = Some (ty, d)"
  obtains d0 where "view s eid = Some (ty, d0)" "tbl eid = None \<longrightarrow> d0 = d"
    "\<forall>x. tbl eid = Some x \<longrightarrow> x_state x \<noteq> REMOVED \<and> d = (if x_state x = MODIFIED then x_data x else d0)"
  using assms by (auto simp: cview_def split: option.splits cache_state.splits)

lemma cview_update:
  assumes "view s' = view s"
  shows "cview view (tbl(eid \<mapsto> x)) s' = (cview view tbl s)(eid :=
    (case x_state x of MODIFIED \<Rightarrow> map_option (\<lambda>(ty, _). (ty, x_data x)) (view s eid)
     | REMOVED \<Rightarrow> None | _ \<Rightarrow> view s eid))"
  by (rule ext) (auto simp: cview_def assms split: option.splits cache_state.splits)

section \<open>The operations on the visible map\<close>

context extent_service
begin

abbreviation "seen \<equiv> cview view"
abbreviation "agrees \<equiv> cache_ok view"

lemma cache_get:
  assumes inv: "inv s" and ok: "agrees tbl s" and v: "seen tbl s eid = Some (ty, d)"
  shows "\<exists>tbl' s'. cc_get rpc junk clk tbl s eid buf = (0, d, tbl', s') \<and> inv s' \<and> view s' = view s
    \<and> agrees tbl' s' \<and> seen tbl' s' = seen tbl s \<and> tbl' eid \<noteq> None"
proof -
  obtain d0 where d0: "view s eid = Some (ty, d0)" "tbl eid = None \<longrightarrow> d0 = d"
    "\<forall>x. tbl eid = Some x \<longrightarrow> x_state x \<noteq> REMOVED \<and> d = (if x_state x = MODIFIED then x_data x else d0)"
    by (rule cview_SomeE [OF v])
  show ?thesis
  proof (cases "tbl eid")
    case None
    then have v0: "view s eid = Some (ty, d)" using d0(1,2) by simp
    obtain s1 where s1: "rpc_get rpc s eid = (0, Some d, s1)" "inv s1" "view s1 = view s"
      using get_law [OF inv v0] by blast
    obtain a s2 where s2: "rpc_getattr rpc s1 eid = (0, Some a, s2)" "a_type a = ty"
      "a_size a = of_nat (length d)" "inv s2" "view s2 = view s"
      using getattr_law [OF s1(2), unfolded s1(3), OF v0] by blast
    let ?x = "\<lparr>x_data = d, x_state = UPDATE, x_attr = a\<lparr>a_atime := clk 0\<rparr>\<rparr>"
    have "cc_get rpc junk clk tbl s eid buf = (0, d, tbl(eid \<mapsto> ?x), s2)"
      using None s1(1) s2(1) by (simp add: cc_get_def)
    moreover have "entry_ok ?x ty d" using s2 by (simp add: entry_ok_def)
    moreover have "seen (tbl(eid \<mapsto> ?x)) s2 = seen tbl s"
      using cview_update [OF s2(5), of tbl eid ?x] v v0 by (simp add: fun_upd_idem)
    ultimately show ?thesis
      using s2 cache_ok_update [OF ok v0] by auto
  next
    case (Some x)
    note e = cache_okD [OF ok Some d0(1)]
    have fresh: ?thesis
      if new: "cc_get rpc junk clk tbl s eid buf = (0, d, tbl(eid \<mapsto> x'), s')" "entry_ok x' ty d0"
        "inv s'" "view s' = view s" "x_state x' = MODIFIED \<and> x_data x' = d \<or> x_state x' = UPDATE \<and> d = d0"
      for x' s'
    proof -
      have "seen (tbl(eid \<mapsto> x')) s' = seen tbl s"
        using cview_update [OF new(4), of tbl eid x'] v d0(1) new(5) by (auto simp: fun_upd_idem)
      then show ?thesis using new cache_ok_update [OF ok d0(1)] by auto
    qed
    show ?thesis
    proof (cases "x_state x")
      case UPDATE
      then show ?thesis
        using e Some d0(3)
        by (intro fresh [of "x\<lparr>x_attr := (x_attr x)\<lparr>a_atime := clk 0\<rparr>\<rparr>" s])
          (auto simp: cc_get_def entry_ok_def inv)
    next
      case MODIFIED
      then show ?thesis
        using e Some d0(3)
        by (intro fresh [of "x\<lparr>x_attr := (x_attr x)\<lparr>a_atime := clk 0\<rparr>\<rparr>" s])
          (auto simp: cc_get_def entry_ok_def inv)
    next
      case NONE
      then have dd: "d = d0" using Some d0(3) by simp
      obtain s1 where s1: "rpc_get rpc s eid = (0, Some d, s1)" "inv s1" "view s1 = view s"
        using get_law [OF inv d0(1)] dd by blast
      show ?thesis
        using NONE e Some s1 dd
        by (intro fresh [of "\<lparr>x_data = d, x_state = UPDATE,
              x_attr = (x_attr x)\<lparr>a_atime := clk 0, a_size := of_nat (length d)\<rparr>\<rparr>" s1])
          (auto simp: cc_get_def entry_ok_def)
    next
      case REMOVED
      then show ?thesis using d0(3) Some by simp
    qed
  qed
qed

lemma cache_getattr:
  assumes inv: "inv s" and ok: "agrees tbl s" and v: "seen tbl s eid = Some (ty, d)"
  shows "\<exists>a tbl' s'. cc_getattr rpc tbl s eid a0 = (0, a, tbl', s') \<and> a_type a = ty
    \<and> a_size a = of_nat (length d) \<and> inv s' \<and> view s' = view s \<and> agrees tbl' s'
    \<and> seen tbl' s' = seen tbl s \<and> tbl' eid \<noteq> None"
proof -
  obtain d0 where d0: "view s eid = Some (ty, d0)" "tbl eid = None \<longrightarrow> d0 = d"
    "\<forall>x. tbl eid = Some x \<longrightarrow> x_state x \<noteq> REMOVED \<and> d = (if x_state x = MODIFIED then x_data x else d0)"
    by (rule cview_SomeE [OF v])
  show ?thesis
  proof (cases "tbl eid")
    case None
    then have v0: "view s eid = Some (ty, d)" using d0(1,2) by simp
    obtain a s1 where s1: "rpc_getattr rpc s eid = (0, Some a, s1)" "a_type a = ty"
      "a_size a = of_nat (length d)" "inv s1" "view s1 = view s"
      using getattr_law [OF inv v0] by blast
    let ?x = "\<lparr>x_data = [], x_state = NONE, x_attr = a\<rparr>"
    have "cc_getattr rpc tbl s eid a0 = (0, a, tbl(eid \<mapsto> ?x), s1)"
      using None s1(1) by (simp add: cc_getattr_def)
    moreover have "entry_ok ?x ty d" using s1 by (simp add: entry_ok_def)
    moreover have "seen (tbl(eid \<mapsto> ?x)) s1 = seen tbl s"
      using cview_update [OF s1(5), of tbl eid ?x] v v0 by (simp add: fun_upd_idem)
    ultimately show ?thesis
      using s1 cache_ok_update [OF ok v0] by auto
  next
    case (Some x)
    then show ?thesis
      using cache_okD [OF ok Some d0(1)] d0(3) inv ok by (auto simp: cc_getattr_def entry_ok_def)
  qed
qed

lemma cache_put:
  assumes ok: "agrees tbl s" and v: "seen tbl s eid = Some (ty, d)"
    and typed: "tbl eid = None \<longrightarrow> a_type junk = ty"
  shows "\<exists>tbl'. cc_put junk clk tbl eid buf = (0, tbl') \<and> agrees tbl' s
    \<and> seen tbl' s = (seen tbl s)(eid \<mapsto> (ty, buf)) \<and> (\<exists>x. tbl' eid = Some x \<and> x_state x = MODIFIED \<and> x_data x = buf)"
proof -
  obtain d0 where d0: "view s eid = Some (ty, d0)" "tbl eid = None \<longrightarrow> d0 = d"
    "\<forall>x. tbl eid = Some x \<longrightarrow> x_state x \<noteq> REMOVED \<and> d = (if x_state x = MODIFIED then x_data x else d0)"
    by (rule cview_SomeE [OF v])
  let ?x = "\<lparr>x_data = buf, x_state = MODIFIED, x_attr = (x_attr (entry junk tbl eid))
       \<lparr>a_mtime := clk 0, a_ctime := clk 1, a_size := of_nat (length buf)\<rparr>\<rparr>"
  have "cc_put junk clk tbl eid buf = (0, tbl(eid \<mapsto> ?x))"
    using d0(3) by (auto simp: cc_put_def)
  moreover have "a_type (x_attr (entry junk tbl eid)) = ty"
    using typed cache_okD [OF ok _ d0(1)] d0(3)
    by (cases "tbl eid") (auto simp: entry_def extent_ctor_def entry_ok_def)
  then have "agrees (tbl(eid \<mapsto> ?x)) s"
    by (intro cache_ok_update [OF ok d0(1)]) (simp_all add: entry_ok_def)
  moreover have "seen (tbl(eid \<mapsto> ?x)) s = (seen tbl s)(eid \<mapsto> (ty, buf))"
    using cview_update [of view s s tbl eid ?x] d0(1) by simp
  ultimately show ?thesis by auto
qed

lemma cache_remove:
  assumes ok: "agrees tbl s" and v: "seen tbl s eid = Some (ty, d)"
  shows "\<exists>tbl'. cc_remove junk tbl eid = (0, tbl') \<and> agrees tbl' s \<and> seen tbl' s = (seen tbl s)(eid := None)
    \<and> (\<exists>x. tbl' eid = Some x \<and> x_state x = REMOVED)"
proof -
  obtain d0 where d0: "view s eid = Some (ty, d0)" "tbl eid = None \<longrightarrow> d0 = d"
    "\<forall>x. tbl eid = Some x \<longrightarrow> x_state x \<noteq> REMOVED \<and> d = (if x_state x = MODIFIED then x_data x else d0)"
    by (rule cview_SomeE [OF v])
  let ?x = "(entry junk tbl eid)\<lparr>x_state := REMOVED\<rparr>"
  have "cc_remove junk tbl eid = (0, tbl(eid \<mapsto> ?x))"
    using d0(3) by (auto simp: cc_remove_def)
  moreover have "agrees (tbl(eid \<mapsto> ?x)) s"
    by (intro cache_ok_update [OF ok d0(1)]) (simp_all add: entry_ok_def)
  moreover have "seen (tbl(eid \<mapsto> ?x)) s = (seen tbl s)(eid := None)"
    using cview_update [of view s s tbl eid ?x] by simp
  ultimately show ?thesis by auto
qed

lemma cache_create:
  assumes inv: "inv s" and ok: "agrees tbl s" and ty: "ty \<in> {T_DIR, T_FILE, T_SYMLK}"
    and run: "cc_create rpc junk clk tbl s ty eid0 = (0, eid, tbl', s')"
  shows "seen tbl s eid = None \<and> inv s' \<and> agrees tbl' s' \<and> seen tbl' s' = (seen tbl s)(eid \<mapsto> (ty, []))
    \<and> tbl' eid \<noteq> None"
proof -
  obtain r where r: "rpc_create rpc s ty = (0, r, s')" "eid = out_param r eid0"
    "tbl' = tbl(eid \<mapsto> (entry junk tbl eid)\<lparr>x_attr := (x_attr (entry junk tbl eid))
        \<lparr>a_atime := clk 0, a_type := ty, a_size := 0\<rparr>, x_state := NONE\<rparr>)"
    using run by (auto simp: cc_create_def Let_def split: prod.splits)
  have c: "inv s'" "view s eid = None" "view s' = (view s)(eid \<mapsto> (ty, []))"
    using create_law [OF inv ty r(1)] r(2) by auto
  have t: "tbl eid = None" by (rule cache_ok_absent [OF ok c(2)])
  have old: "agrees tbl s'" using ok t by (auto simp: cache_ok_def c(3))
  have v': "view s' eid = Some (ty, [])" by (simp add: c(3))
  have "agrees tbl' s'"
    unfolding r(3) by (rule cache_ok_update [OF old v']) (simp_all add: entry_ok_def)
  moreover have "seen tbl' s' = (seen tbl s)(eid \<mapsto> (ty, []))"
    by (rule ext) (auto simp: r(3) cview_def c(3) split: option.splits cache_state.splits)
  moreover have "seen tbl s eid = None" using t c(2) by (simp add: cview_def)
  ultimately show ?thesis using c(1) r(3) by simp
qed

lemma cache_flush:
  assumes inv: "inv s" and ok: "agrees tbl s" and v: "seen tbl s eid = Some (ty, d)"
    and fits: "admissible s eid d" and run: "cc_flush rpc tbl s eid = (ret, tbl', s')"
    and ret: "tbl eid \<noteq> None \<longrightarrow> ret = 0"
  shows "inv s' \<and> agrees tbl' s' \<and> seen tbl' s' = seen tbl s \<and> tbl' = tbl(eid := None)
    \<and> view s' = (view s)(eid \<mapsto> (ty, d))"
proof -
  obtain d0 where d0: "view s eid = Some (ty, d0)" "tbl eid = None \<longrightarrow> d0 = d"
    "\<forall>x. tbl eid = Some x \<longrightarrow> x_state x \<noteq> REMOVED \<and> d = (if x_state x = MODIFIED then x_data x else d0)"
    by (rule cview_SomeE [OF v])
  have fin: ?thesis if t: "tbl' = tbl(eid := None)" and i: "inv s'" and vs: "view s' = (view s)(eid \<mapsto> (ty, d))"
  proof -
    have "agrees tbl' s'" using ok by (auto simp: t cache_ok_def vs)
    moreover have "seen tbl' s' = seen tbl s"
      using v by (auto simp: fun_eq_iff t cview_def vs split: option.splits cache_state.splits)
    ultimately show ?thesis using t i vs by blast
  qed
  show ?thesis
  proof (cases "tbl eid")
    case None
    then show ?thesis
      using run inv d0(1,2) by (intro fin) (auto simp: cc_flush_def fun_upd_idem)
  next
    case (Some x)
    show ?thesis
    proof (cases "x_state x = MODIFIED")
      case True
      then have "rpc_put rpc s eid d = (0, s')" "tbl' = tbl(eid := None)"
        using run Some ret d0(3) by (auto simp: cc_flush_def split: prod.splits)
      then show ?thesis using put_law [OF inv d0(1) fits] by (intro fin) blast+
    next
      case False
      then have "s' = s" "tbl' = tbl(eid := None)" "d = d0"
        using run Some d0(3) by (auto simp: cc_flush_def split: cache_state.splits)
      then show ?thesis using inv d0(1) by (intro fin) (simp_all add: fun_upd_idem)
    qed
  qed
qed

end

section \<open>Sequences of operations\<close>

text \<open>
  A run of the operations of one client, and the same operations on a plain map. The plain map
  also records which extents were used before: writing an extent that the client never read
  makes an entry whose attributes come from uninitialised memory.
\<close>

datatype cache_op = Get extentid | Getattr extentid | Put extentid bytes | Remove extentid

datatype cache_reply = Data bytes | Attr u32 u32 | Done

fun cache_step ::
  "'s extent_rpc \<Rightarrow> attr \<Rightarrow> clock \<Rightarrow> cache_op \<Rightarrow> cache_table \<Rightarrow> 's \<Rightarrow> int \<times> cache_reply \<times> cache_table \<times> 's" where
  "cache_step rpc junk clk (Get eid) tbl s =
     (let (ret, buf, tbl', s') = cc_get rpc junk clk tbl s eid [] in (ret, Data buf, tbl', s'))"
| "cache_step rpc junk clk (Getattr eid) tbl s =
     (let (ret, a, tbl', s') = cc_getattr rpc tbl s eid zero_attr in (ret, Attr (a_type a) (a_size a), tbl', s'))"
| "cache_step rpc junk clk (Put eid buf) tbl s =
     (let (ret, tbl') = cc_put junk clk tbl eid buf in (ret, Done, tbl', s))"
| "cache_step rpc junk clk (Remove eid) tbl s =
     (let (ret, tbl') = cc_remove junk tbl eid in (ret, Done, tbl', s))"

fun cache_run ::
  "'s extent_rpc \<Rightarrow> attr \<Rightarrow> clock \<Rightarrow> cache_op list \<Rightarrow> cache_table \<Rightarrow> 's \<Rightarrow> (int \<times> cache_reply) list \<times> cache_table \<times> 's" where
  "cache_run rpc junk clk [] tbl s = ([], tbl, s)"
| "cache_run rpc junk clk (a # ops) tbl s =
     (let (ret, r, tbl1, s1) = cache_step rpc junk clk a tbl s;
          (rs, tbl', s') = cache_run rpc junk (\<lambda>k. clk (k + 2)) ops tbl1 s1
      in ((ret, r) # rs, tbl', s'))"

type_synonym plain_map = "(extentid \<rightharpoonup> (u32 \<times> bytes)) \<times> extentid set"

fun plain_step :: "cache_op \<Rightarrow> plain_map \<Rightarrow> (cache_reply \<times> plain_map) option" where
  "plain_step (Get eid) (m, T) =
     (case m eid of None \<Rightarrow> None | Some (ty, d) \<Rightarrow> Some (Data d, m, insert eid T))"
| "plain_step (Getattr eid) (m, T) =
     (case m eid of None \<Rightarrow> None | Some (ty, d) \<Rightarrow> Some (Attr ty (of_nat (length d)), m, insert eid T))"
| "plain_step (Put eid buf) (m, T) =
     (case m eid of None \<Rightarrow> None
      | Some (ty, d) \<Rightarrow> if eid \<in> T then Some (Done, m(eid \<mapsto> (ty, buf)), T) else None)"
| "plain_step (Remove eid) (m, T) =
     (case m eid of None \<Rightarrow> None | Some (ty, d) \<Rightarrow> Some (Done, m(eid := None), insert eid T))"

fun plain_run :: "cache_op list \<Rightarrow> plain_map \<Rightarrow> (cache_reply list \<times> plain_map) option" where
  "plain_run [] p = Some ([], p)"
| "plain_run (a # ops) p =
     (case plain_step a p of None \<Rightarrow> None
      | Some (r, p1) \<Rightarrow> map_option (\<lambda>(rs, p'). (r # rs, p')) (plain_run ops p1))"

fun extent_of :: "cache_op \<Rightarrow> extentid" where
  "extent_of (Get e) = e"
| "extent_of (Getattr e) = e"
| "extent_of (Put e buf) = e"
| "extent_of (Remove e) = e"

text \<open>An extent that is written must be in the table, or its attributes are invented.\<close>

fun known :: "cache_table \<Rightarrow> cache_op \<Rightarrow> bool" where
  "known tbl (Put e buf) \<longleftrightarrow> tbl e \<noteq> None"
| "known tbl _ \<longleftrightarrow> True"

text \<open>The two states of a simulation.\<close>

definition cache_sim :: "('s \<Rightarrow> bool) \<Rightarrow> ('s \<Rightarrow> extentid \<rightharpoonup> (u32 \<times> bytes)) \<Rightarrow> cache_table \<Rightarrow> 's \<Rightarrow> plain_map \<Rightarrow> bool" where
  "cache_sim good view tbl s p \<longleftrightarrow>
     good s \<and> cache_ok view tbl s \<and> cview view tbl s = fst p \<and> (\<forall>eid \<in> snd p. tbl eid \<noteq> None)"

lemma cache_tbl_grows:
  assumes "cache_step rpc junk clk a tbl s = (ret, r, tbl', s')" and "tbl eid \<noteq> None"
  shows "tbl' eid \<noteq> None"
  using assms
  by (cases a) (auto simp: cc_get_def cc_getattr_def cc_put_def cc_remove_def Let_def
      split: prod.splits option.splits cache_state.splits if_splits)

text \<open>An operation leaves the entries of other extents alone.\<close>

lemma cc_far:
  shows "cc_get rpc junk clk tbl s e buf = (ret, b, tbl', s') \<Longrightarrow> x \<noteq> e \<Longrightarrow> tbl' x = tbl x"
    and "cc_getattr rpc tbl s e a0 = (ret, a, tbl', s') \<Longrightarrow> x \<noteq> e \<Longrightarrow> tbl' x = tbl x"
    and "cc_put junk clk tbl e buf = (ret, tbl') \<Longrightarrow> x \<noteq> e \<Longrightarrow> tbl' x = tbl x"
    and "cc_remove junk tbl e = (ret, tbl') \<Longrightarrow> x \<noteq> e \<Longrightarrow> tbl' x = tbl x"
  by (auto simp: cc_get_def cc_getattr_def cc_put_def cc_remove_def Let_def
      split: prod.splits option.splits cache_state.splits if_splits)

lemma cache_step_far:
  assumes "cache_step rpc junk clk a tbl s = (ret, r, tbl', s')" and "x \<noteq> extent_of a"
  shows "tbl' x = tbl x"
  using assms by (cases a) (auto dest: cc_far split: prod.splits)

text \<open>Only a removal marks an extent as removed.\<close>

lemma cc_removed:
  shows "cc_get rpc junk clk tbl s e buf = (ret, b, tbl', s') \<Longrightarrow> tbl' x = Some y \<Longrightarrow> x_state y = REMOVED \<Longrightarrow> tbl x = Some y"
    and "cc_getattr rpc tbl s e a0 = (ret, a, tbl', s') \<Longrightarrow> tbl' x = Some y \<Longrightarrow> x_state y = REMOVED \<Longrightarrow> tbl x = Some y"
    and "cc_put junk clk tbl e buf = (ret, tbl') \<Longrightarrow> tbl' x = Some y \<Longrightarrow> x_state y = REMOVED \<Longrightarrow> tbl x = Some y"
  by (auto simp: cc_get_def cc_getattr_def cc_put_def Let_def
      split: prod.splits option.splits cache_state.splits if_splits)

lemma cache_step_removed:
  assumes "cache_step rpc junk clk a tbl s = (ret, r, tbl', s')" and "\<forall>e. a \<noteq> Remove e"
    and "tbl' x = Some y" and "x_state y = REMOVED"
  shows "\<exists>z. tbl x = Some z \<and> x_state z = REMOVED"
  using assms by (cases a) (auto dest: cc_removed split: prod.splits)

lemma cc_flush_tbl: "cc_flush rpc tbl s e = (ret, tbl', s') \<Longrightarrow> tbl' = tbl(e := None)"
  by (auto simp: cc_flush_def split: option.splits prod.splits)

context extent_service
begin

text \<open>One operation, told apart from the rest of the table: only the entry of its extent changes.\<close>

lemma cache_step_law:
  assumes inv: "inv s" and ok: "agrees tbl s" and plain: "plain_step a (seen tbl s, UNIV) = Some (r, m', U)"
    and known: "known tbl a"
  shows "\<exists>tbl' s'. cache_step rpc junk clk a tbl s = (0, r, tbl', s') \<and> inv s' \<and> view s' = view s \<and> agrees tbl' s'
    \<and> seen tbl' s' = m' \<and> tbl' (extent_of a) \<noteq> None \<and> (\<forall>x. x \<noteq> extent_of a \<longrightarrow> tbl' x = tbl x)"
proof -
  note far = cache_step_far [of rpc junk clk a tbl s]
  show ?thesis
  proof (cases a)
    case (Get eid)
    with plain obtain ty d where v: "seen tbl s eid = Some (ty, d)" and r: "r = Data d" "m' = seen tbl s"
      by (auto split: option.splits)
    show ?thesis
      using cache_get [OF inv ok v, of junk clk "[]"] far by (force simp: Get r)
  next
    case (Getattr eid)
    with plain obtain ty d where v: "seen tbl s eid = Some (ty, d)"
      and r: "r = Attr ty (of_nat (length d))" "m' = seen tbl s" by (auto split: option.splits)
    show ?thesis
      using cache_getattr [OF inv ok v, of zero_attr] far by (force simp: Getattr r)
  next
    case (Put eid buf)
    with plain obtain ty d where v: "seen tbl s eid = Some (ty, d)"
      and r: "r = Done" "m' = (seen tbl s)(eid \<mapsto> (ty, buf))" by (auto split: option.splits)
    show ?thesis
      using cache_put [OF ok v, of junk clk buf] known inv far by (force simp: Put r)
  next
    case (Remove eid)
    with plain obtain ty d where v: "seen tbl s eid = Some (ty, d)"
      and r: "r = Done" "m' = (seen tbl s)(eid := None)" by (auto split: option.splits)
    show ?thesis
      using cache_remove [OF ok v, of junk] inv far by (force simp: Remove r)
  qed
qed

lemma cache_step_sim:
  assumes sim: "cache_sim inv view tbl s p" and plain: "plain_step a p = Some (r, p')"
  shows "\<exists>tbl' s'. cache_step rpc junk clk a tbl s = (0, r, tbl', s') \<and> cache_sim inv view tbl' s' p'"
proof -
  obtain m T where p: "p = (m, T)" by (cases p)
  have st: "inv s" "agrees tbl s" "seen tbl s = m" "\<forall>eid \<in> T. tbl eid \<noteq> None"
    using sim by (simp_all add: cache_sim_def p)
  obtain m' T' where p': "p' = (m', T')" by (cases p')
  have T': "T' \<subseteq> insert (extent_of a) T" and all: "plain_step a (m, UNIV) = Some (r, m', UNIV)"
    using plain by (cases a; auto simp: p p' split: option.splits if_splits)+
  have known: "known tbl a"
    using plain st(4) by (cases a) (auto simp: p split: option.splits if_splits)
  obtain tbl' s' where step: "cache_step rpc junk clk a tbl s = (0, r, tbl', s')" and "inv s'" "agrees tbl' s'"
    "seen tbl' s' = m'" "tbl' (extent_of a) \<noteq> None"
    using cache_step_law [where junk = junk and clk = clk, OF st(1,2) all [folded st(3)] known] by blast
  moreover have "tbl' e \<noteq> None" if "e \<in> T'" for e
    using that T' st(4) cache_tbl_grows [OF step] \<open>tbl' (extent_of a) \<noteq> None\<close> by blast
  ultimately show ?thesis by (auto simp: cache_sim_def p')
qed

lemma cache_run_sim:
  assumes "cache_sim inv view tbl s p" and "plain_run ops p = Some (rs, p')"
  shows "\<exists>tbl' s'. cache_run rpc junk clk ops tbl s = (map (Pair 0) rs, tbl', s') \<and> cache_sim inv view tbl' s' p'"
  using assms
proof (induction ops arbitrary: clk tbl s p rs)
  case Nil
  then show ?case by simp
next
  case (Cons a ops)
  from Cons.prems(2) obtain r p1 rs1 where a: "plain_step a p = Some (r, p1)"
    and ops: "plain_run ops p1 = Some (rs1, p')" and rs: "rs = r # rs1"
    by (auto split: option.splits)
  obtain tbl1 s1 where st: "cache_step rpc junk clk a tbl s = (0, r, tbl1, s1)" "cache_sim inv view tbl1 s1 p1"
    using cache_step_sim [OF Cons.prems(1) a] by blast
  from Cons.IH [OF st(2) ops, of "\<lambda>k. clk (k + 2)"] st(1) rs show ?case by auto
qed

end

section \<open>Flushing a removal\<close>

text \<open>
  The flush of a removed extent calls the procedure without a reply argument. Where the RPC
  library performs the removal all the same, flushing is transparent here too.
\<close>

locale removing_service = extent_service +
  assumes bare_law: "inv s \<Longrightarrow> view s eid = Some (ty, d) \<Longrightarrow>
      \<exists>s'. rpc_remove_bare rpc s eid = (0, s') \<and> inv s' \<and> view s' = (view s)(eid := None)"
begin

lemma cache_remove_flush:
  assumes inv: "inv s" and ok: "agrees tbl s" and v: "seen tbl s eid = Some (ty, d)"
    and rm: "cc_remove junk tbl eid = (r1, tbl1)"
  shows "\<exists>tbl2 s2. cc_flush rpc tbl1 s eid = (0, tbl2, s2) \<and> inv s2 \<and> agrees tbl2 s2
    \<and> seen tbl2 s2 = (seen tbl s)(eid := None) \<and> view s2 eid = None"
proof -
  from cache_remove [OF ok v, of junk] rm obtain x where
    p: "agrees tbl1 s" "seen tbl1 s = (seen tbl s)(eid := None)" "tbl1 eid = Some x" "x_state x = REMOVED"
    by auto
  obtain ty0 d0 where "view s eid = Some (ty0, d0)" using p(1,3) unfolding cache_ok_def by blast
  then obtain s2 where s2: "rpc_remove_bare rpc s eid = (0, s2)" "inv s2" "view s2 = (view s)(eid := None)"
    using bare_law [OF inv] by blast
  have "agrees (tbl1(eid := None)) s2" using p(1) by (auto simp: cache_ok_def s2(3))
  moreover have "seen (tbl1(eid := None)) s2 = seen tbl1 s"
    using p(3,4) by (auto simp: fun_eq_iff cview_def s2(3) split: option.splits cache_state.splits)
  moreover have "cc_flush rpc tbl1 s eid = (0, tbl1(eid := None), s2)"
    using p(3,4) s2(1) by (simp add: cc_flush_def)
  ultimately show ?thesis using s2 p(2) by simp
qed

end

interpretation direct_removing: removing_service
  "direct_rpc time_at lost (rpc_remove (direct_rpc time_at lost bare))" server_inv server_view server_admits
  for time_at :: clock and lost :: nat and bare :: "server \<Rightarrow> extentid \<Rightarrow> int \<times> server"
proof
  fix s :: server and eid ty d
  assume "server_inv s" "server_view s eid = Some (ty, d)"
  then show "\<exists>s'. rpc_remove_bare (direct_rpc time_at lost (rpc_remove (direct_rpc time_at lost bare))) s eid = (0, s')
      \<and> server_inv s' \<and> server_view s' = (server_view s)(eid := None)"
    using direct.remove_law [of s eid ty d time_at lost bare] by (simp add: direct_rpc_def)
qed

end
