(* ===== verification/Extent_Room.thy ===== *)
theory Extent_Room
  imports Extent_Cache
begin

text \<open>
  When the extent server is sure to accept a write. \<open>roomy_service\<close> adds to the interface of
  \<open>Extent_Cache\<close> a condition under which writing an extent succeeds and which reads, attribute
  queries and the creation of files keep. The server has room for a file when the blocks it
  grows by are free; files that need an indirect block are left out.
\<close>

locale roomy_service = extent_service +
  fixes room :: "'a \<Rightarrow> extentid \<Rightarrow> bytes \<Rightarrow> bool"
  assumes room_put: "inv s \<Longrightarrow> view s eid = Some (ty, d) \<Longrightarrow> room s eid buf \<Longrightarrow>
      \<exists>s'. rpc_put rpc s eid buf = (0, s') \<and> inv s' \<and> view s' = (view s)(eid \<mapsto> (ty, buf)) \<and> room s' eid buf"
    and room_get: "inv s \<Longrightarrow> view s e \<noteq> None \<Longrightarrow> rpc_get rpc s e = (ret, r, s') \<Longrightarrow> room s eid buf \<Longrightarrow> room s' eid buf"
    and room_getattr: "inv s \<Longrightarrow> view s e \<noteq> None \<Longrightarrow> rpc_getattr rpc s e = (ret, ra, s') \<Longrightarrow> room s eid buf \<Longrightarrow> room s' eid buf"
    and room_create: "inv s \<Longrightarrow> ty \<in> {T_DIR, T_FILE, T_SYMLK} \<Longrightarrow> rpc_create rpc s ty = (0, ri, s') \<Longrightarrow>
      room s eid buf \<Longrightarrow> room s' eid buf"
    and room_empty: "inv s \<Longrightarrow> view s eid \<noteq> None \<Longrightarrow> room s eid []"

context roomy_service
begin

text \<open>
  A flush brings the server up to what the client sees, whatever the state of the entry. For a
  removed extent this takes a call without reply argument that removes it all the same.
\<close>

definition removes_bare :: bool where
  "removes_bare \<longleftrightarrow> (\<forall>s e ty d. inv s \<longrightarrow> view s e = Some (ty, d) \<longrightarrow>
     (\<exists>s'. rpc_remove_bare rpc s e = (0, s') \<and> inv s' \<and> view s' = (view s)(e := None)))"

lemma cache_flush_any:
  assumes inv: "inv s" and ok: "agrees tbl s"
    and room: "\<And>x. tbl e = Some x \<Longrightarrow> x_state x = MODIFIED \<Longrightarrow> room s e (x_data x)"
    and bare: "\<And>x. tbl e = Some x \<Longrightarrow> x_state x = REMOVED \<Longrightarrow> removes_bare"
    and run: "cc_flush rpc tbl s e = (ret, tbl', s')"
  shows "inv s' \<and> tbl' = tbl(e := None) \<and> view s' = (view s)(e := seen tbl s e)"
proof (cases "tbl e")
  case None
  then show ?thesis using run inv by (simp add: cc_flush_def cview_def fun_upd_idem)
next
  case (Some x)
  obtain ty d where v: "view s e = Some (ty, d)" using ok Some by (fastforce simp: cache_ok_def)
  show ?thesis
  proof (cases "x_state x")
    case MODIFIED
    then show ?thesis
      using room_put [OF inv v room [OF Some MODIFIED]] run Some v by (auto simp: cc_flush_def cview_def)
  next
    case REMOVED
    obtain s1 where "rpc_remove_bare rpc s e = (0, s1)" "inv s1" "view s1 = (view s)(e := None)"
      using bare [OF Some REMOVED, unfolded removes_bare_def] inv v by blast
    then show ?thesis using REMOVED run Some v by (auto simp: cc_flush_def cview_def)
  qed (use run Some inv v in \<open>auto simp: cc_flush_def cview_def fun_upd_idem\<close>)
qed

end

section \<open>Room on the server\<close>

definition blocks_for :: "nat \<Rightarrow> nat" where
  "blocks_for n = (n + 511) div 512"

definition server_room :: "server \<Rightarrow> extentid \<Rightarrow> bytes \<Rightarrow> bool" where
  "server_room s eid buf \<longleftrightarrow> length buf \<le> NDIRECT * BLOCK_SIZE
     \<and> (\<exists>im ty d. sv_store s = Inr im \<and> srv_view im eid = Some (ty, d)
          \<and> blocks_for (length buf) \<le> card (free_blocks im) + blocks_for (length d))"

lemma server_room_same:
  assumes "server_room s eid buf" and "sv_store s = Inr im" and "sv_store s' = Inr im'"
    and "free_blocks im' = free_blocks im" and "srv_view im eid \<noteq> None \<Longrightarrow> srv_view im' eid = srv_view im eid"
  shows "server_room s' eid buf"
  using assms by (auto simp: server_room_def)

lemma es_get_free:
  assumes wf: "im_wf im" and v: "srv_view im eid = Some (ty, d)" and run: "es_get im eid clk = Inr (st, b, im')"
  shows "free_blocks im' = free_blocks im"
proof -
  note v = srv_view_Some [OF v]
  have "im' = im \<or> im' = set_inode (ucast eid) ((inode_at im (ucast eid))\<lparr>i_atime := clk 0\<rparr>) im"
    using run read_file_eq [OF wf v(2), of clk]
    by (auto simp: es_get_def v(5) Let_def split: if_splits option.splits elim!: bind_res_InrE)
  then show ?thesis by (auto simp: free_blocks_def)
qed

lemma es_create_free:
  assumes wf: "im_wf im" and run: "es_create im ty clk = Inr (st, eid, im')"
  shows "free_blocks im' = free_blocks im"
proof -
  obtain h where "alloc_inode im ty clk = Inr (h, im')"
    using run by (auto simp: es_create_def elim!: bind_res_InrE)
  then obtain nx where "im' = set_inode h (found_inode h ty clk im) (im\<lparr>next_inum := nx\<rparr>)"
    using alloc_inode_cases [OF wf, of ty clk] by auto
  then show ?thesis by (simp add: free_blocks_def)
qed

lemma es_put_room:
  assumes wf: "im_wf im" and v: "srv_view im eid = Some (ty, d)" and len: "length buf \<le> NDIRECT * BLOCK_SIZE"
    and room: "blocks_for (length buf) \<le> card (free_blocks im) + blocks_for (length d)"
  shows "\<exists>im'. es_put im eid buf clk = Inr (OK, im') \<and> im_wf im' \<and> srv_view im' = (srv_view im)(eid \<mapsto> (ty, buf))"
proof -
  note w = srv_view_Some [OF v]
  have len': "length buf \<le> MAXFILE * BLOCK_SIZE" and own: "NDIRECT * BLOCK_SIZE < length buf \<Longrightarrow> own_indirect im (ucast eid)"
    using len by simp_all
  have sz: "unat (of_nat (length buf) :: u32) = length buf" using len by (simp add: unat_of_nat)
  have "length d = unat (i_size (inode_at im (ucast eid)))"
    using w(4) length_contents [OF im_wfD(1) [OF wf]] by simp
  then have "\<not> card (free_blocks im) < unat (blnum (of_nat (length buf))) - nblk (inode_at im (ucast eid))"
    using room by (simp add: blocks_for_def unat_blnum sz nblk_eq)
  with write_file_refines [OF wf w(2) sz len' own, of clk] obtain im' where
    "write_file im (ucast eid) buf (of_nat (length buf)) clk = Inr im'" by blast
  then have "es_put im eid buf clk \<noteq> Inl Exit" by (simp add: es_put_def w(5))
  then show ?thesis using es_put_spec [OF wf v len' own, of clk] by blast
qed

interpretation direct_roomy: roomy_service
  "direct_rpc time_at lost bare" server_inv server_view server_admits server_room
  for time_at :: clock and lost :: nat and bare :: "server \<Rightarrow> extentid \<Rightarrow> int \<times> server"
proof
  fix s :: server and eid ty d buf
  assume inv: "server_inv s" and v: "server_view s eid = Some (ty, d)" and room: "server_room s eid buf"
  obtain im where im: "sv_store s = Inr im" "im_wf im" "srv_view im eid = Some (ty, d)"
    by (rule server_viewD [OF inv v])
  obtain im' where put: "es_put im eid buf (\<lambda>k. time_at (sv_ticks s + k)) = Inr (OK, im')" "im_wf im'"
    "srv_view im' = (srv_view im)(eid \<mapsto> (ty, buf))"
    using es_put_room [OF im(2,3), of buf "\<lambda>k. time_at (sv_ticks s + k)"] room im by (auto simp: server_room_def)
  then show "\<exists>s'. rpc_put (direct_rpc time_at lost bare) s eid buf = (0, s')
      \<and> server_inv s' \<and> server_view s' = (server_view s)(eid \<mapsto> (ty, buf)) \<and> server_room s' eid buf"
    using im(1) room by (simp add: direct_rpc_def no_reply_def serve_ok [where im = im and im' = im'] server_room_def)
next
  fix s s' :: server and e eid buf ret r
  assume inv: "server_inv s" and v: "server_view s e \<noteq> None" and room: "server_room s eid buf"
  obtain ty d where v': "server_view s e = Some (ty, d)" using v by auto
  obtain im where im: "sv_store s = Inr im" "im_wf im" "srv_view im e = Some (ty, d)"
    by (rule server_viewD [OF inv v'])
  show "server_room s' eid buf"
    if "rpc_get (direct_rpc time_at lost bare) s e = (ret, r, s')"
  proof -
    obtain im' where g: "es_get im e (\<lambda>k. time_at (sv_ticks s + k)) = Inr (OK, d, im')" "srv_view im' = srv_view im"
      using es_get_spec [OF im(2,3)] by blast
    then have "sv_store s' = Inr im'"
      using that im(1) by (auto simp: direct_rpc_def serve_ok [where im = im and im' = im'])
    then show ?thesis
      using server_room_same [OF room im(1)] es_get_free [OF im(2,3) g(1)] g(2) by simp
  qed
  show "server_room s' eid buf"
    if "rpc_getattr (direct_rpc time_at lost bare) s e = (ret, ra, s')" for ra
  proof -
    obtain a where "es_getattr im e = Inr (OK, a)" using es_getattr_spec [OF im(2,3)] by blast
    then have "sv_store s' = Inr im"
      using that im(1) by (auto simp: direct_rpc_def serve_ok [where im = im and im' = im])
    then show ?thesis using server_room_same [OF room im(1)] by simp
  qed
next
  fix s s' :: server and ty eid buf ri
  assume inv: "server_inv s" and ty: "ty \<in> {T_DIR, T_FILE, T_SYMLK}" and room: "server_room s eid buf"
    and run: "rpc_create (direct_rpc time_at lost bare) s ty = (0, ri, s')"
  from run have "serve time_at lost (\<lambda>im clk. es_create im ty clk) s = (0, ri, s')"
    by (simp add: direct_rpc_def)
  then obtain im i im' where h: "sv_store s = Inr im" "es_create im ty (\<lambda>k. time_at (sv_ticks s + k)) = Inr (OK, i, im')"
    "s' = \<lparr>sv_store = Inr im', sv_ticks = sv_ticks s + 3\<rparr>" by (rule serve_zero)
  have wf: "im_wf im" using inv h(1) by (simp add: server_inv_def)
  note c = es_create_spec [OF wf ty h(2)]
  have "srv_view im eid \<noteq> None \<Longrightarrow> srv_view im' eid = srv_view im eid" using c(3,4) by (cases "eid = i") auto
  then show "server_room s' eid buf"
    using server_room_same [OF room h(1), of s' im'] es_create_free [OF wf h(2)] h(3) by simp
next
  fix s :: server and eid
  assume inv: "server_inv s" and v: "server_view s eid \<noteq> None"
  obtain ty d where v': "server_view s eid = Some (ty, d)" using v by auto
  show "server_room s eid []"
    by (rule server_viewD [OF inv v']) (auto simp: server_room_def blocks_for_def)
qed

lemma direct_removes_bare:
  "direct_roomy.removes_bare time_at lost (rpc_remove (direct_rpc time_at lost bare))"
  unfolding direct_roomy.removes_bare_def using direct_removing.bare_law by blast

end
