(* ===== verification/Cache_Properties.thy ===== *)
theory Cache_Properties
  imports Extent_Room Store_Properties
begin

text \<open>
  The properties of the caching extent client in front of the extent server, each with a
  concrete instance of its hypotheses: a client with an empty cache and a server with a freshly
  formatted disk.
\<close>

section \<open>The server behind its stubs\<close>

text \<open>\<open>wired\<close>: the flush of a removal performs the removal.\<close>

definition wired :: "clock \<Rightarrow> nat \<Rightarrow> server extent_rpc" where
  "wired time_at lost =
     direct_rpc time_at lost (rpc_remove (direct_rpc time_at lost (\<lambda>s eid. (0, s))))"

definition example_clock :: clock where "example_clock k = of_nat k"

text \<open>In the examples the flush of a removal fails.\<close>

definition example_bare :: "server \<Rightarrow> extentid \<Rightarrow> int \<times> server" where
  "example_bare s eid = (5, s)"

abbreviation "example_rpc \<equiv> direct_rpc example_clock 0 example_bare"

lemma example_room: "length buf \<le> 512 \<Longrightarrow> server_room example_server 1 buf"
proof -
  assume len: "length buf \<le> 512"
  have "blocks_for (length buf) \<le> 1" using len by (simp add: blocks_for_def)
  then have "blocks_for (length buf) \<le> card (free_blocks example_store) + blocks_for (length ([] :: bytes))"
    using example_free by (simp add: free_blocks_def)
  then show ?thesis using len example_view by (auto simp: server_room_def example_server_def)
qed

lemma empty_cache_ok: "cache_ok view Map.empty s"
  by (simp add: cache_ok_def)

section \<open>Transparency\<close>

text \<open>C8: The cache is transparent. A client that runs any sequence of reads, attribute queries,
  writes and removals through its cache gets the answers, all with status \<open>OK\<close>, that a plain
  map gives which starts as the server's files with the cached changes, and ends with a
  cache that shows the final map; written extents must have been read or queried before.\<close>

theorem cache_transparent:
  assumes "server_inv s" and "cache_ok server_view tbl s"
    and "plain_run ops (cview server_view tbl s, {e. tbl e \<noteq> None}) = Some (rs, m, T)"
  shows "\<exists>tbl' s'. cache_run (direct_rpc time_at lost bare) junk clk ops tbl s = (map (Pair 0) rs, tbl', s')
    \<and> cview server_view tbl' s' = m \<and> server_inv s' \<and> cache_ok server_view tbl' s'"
proof -
  have "cache_sim server_inv server_view tbl s (cview server_view tbl s, {e. tbl e \<noteq> None})"
    using assms(1,2) by (simp add: cache_sim_def)
  from direct.cache_run_sim [OF this assms(3), of time_at lost bare junk clk]
  show ?thesis unfolding cache_sim_def by auto
qed

theorem cache_transparent_witness:
  "\<exists>tbl' s'. cache_run example_rpc zero_attr example_clock
      [Get 1, Put 1 [104, 105], Get 1, Getattr 1, Remove 1] Map.empty example_server =
    ([(0, Data []), (0, Done), (0, Data [104, 105]), (0, Attr 1 2), (0, Done)], tbl', s')
    \<and> cview server_view tbl' s' 1 = None"
proof -
  have "plain_run [Get 1, Put 1 [104, 105], Get 1, Getattr 1, Remove 1]
      (cview server_view Map.empty example_server, {e. (Map.empty :: cache_table) e \<noteq> None}) =
    Some ([Data [], Done, Data [104, 105], Attr 1 2, Done], (cview server_view Map.empty example_server)(1 := None), {1})"
    using example_server(2) by (simp add: cview_def)
  from cache_transparent [OF example_server(1) empty_cache_ok this, of example_clock 0 example_bare zero_attr example_clock]
  obtain tbl' s' where "cache_run example_rpc zero_attr example_clock
      [Get 1, Put 1 [104, 105], Get 1, Getattr 1, Remove 1] Map.empty example_server =
      (map (Pair 0) [Data [], Done, Data [104, 105], Attr 1 2, Done], tbl', s')"
    "cview server_view tbl' s' = (cview server_view Map.empty example_server)(1 := None)" by blast
  then show ?thesis
    by (intro exI [of _ tbl'] exI [of _ s']) (simp del: cache_run.simps cache_step.simps)
qed

lemma example_cached:
  "\<exists>tbl s. cc_get example_rpc zero_attr example_clock Map.empty example_server 1 [] = (0, [], tbl, s)
    \<and> server_inv s \<and> cache_ok server_view tbl s \<and> cview server_view tbl s 1 = Some (1, []) \<and> tbl 1 \<noteq> None
    \<and> server_view s 1 = Some (1, []) \<and> server_room s 1 [104, 105]"
proof -
  have v: "cview server_view Map.empty example_server 1 = Some (1, [])"
    using example_server(2) by (simp add: cview_def)
  obtain tbl s where g: "cc_get example_rpc zero_attr example_clock Map.empty example_server 1 [] = (0, [], tbl, s)"
    "server_inv s" "server_view s = server_view example_server" "cache_ok server_view tbl s"
    "cview server_view tbl s = cview server_view Map.empty example_server" "tbl 1 \<noteq> None"
    using direct.cache_get [OF example_server(1) empty_cache_ok v, of example_clock 0] by blast
  obtain s1 r1 where s1: "rpc_get example_rpc example_server 1 = (0, r1, s1)" "server_inv s1"
    "server_view s1 = server_view example_server"
    using direct.get_law [OF example_server(1,2), of example_clock 0] by blast
  obtain r2 ret2 s2 where s2: "rpc_getattr example_rpc s1 1 = (ret2, r2, s2)"
    by (cases "rpc_getattr example_rpc s1 1")
  have "server_room s1 1 [104, 105]"
    using direct_roomy.room_get [OF example_server(1) _ s1(1) example_room] example_server(2) by simp
  then have "server_room s2 1 [104, 105]"
    using direct_roomy.room_getattr [OF s1(2) _ s2] example_server(2) by (simp add: s1(3))
  moreover have "s = s2" using g(1) s1(1) s2 by (auto simp: cc_get_def Let_def split: if_splits)
  ultimately show ?thesis using g v example_server(2) by auto
qed

text \<open>Removal through the cache. Removing an extent and flushing it removes it from the server,
  and no other extent changes, provided the flush's call reaches the server's \<open>remove\<close>.\<close>

theorem cache_remove_reaches_server:
  assumes "server_inv s" and "cache_ok server_view tbl s" and "cview server_view tbl s eid = Some (ty, d)"
    and "cc_remove junk tbl eid = (r1, tbl1)"
  shows "\<exists>tbl2 s2. cc_flush (wired time_at lost) tbl1 s eid = (0, tbl2, s2) \<and> server_inv s2
    \<and> cache_ok server_view tbl2 s2 \<and> server_view s2 eid = None
    \<and> cview server_view tbl2 s2 = (cview server_view tbl s)(eid := None)"
  using direct_removing.cache_remove_flush [OF assms, of time_at lost "\<lambda>s eid. (0, s)"]
  unfolding wired_def by blast

theorem cache_remove_reaches_server_witness:
  "\<exists>tbl1 tbl2 s2. cc_remove zero_attr Map.empty 1 = (0, tbl1)
    \<and> cc_flush (wired example_clock 0) tbl1 example_server 1 = (0, tbl2, s2) \<and> server_view s2 1 = None"
proof -
  have v: "cview server_view Map.empty example_server 1 = Some (1, [])"
    using example_server(2) by (simp add: cview_def)
  obtain tbl1 where r: "cc_remove zero_attr Map.empty 1 = (0, tbl1)" by (simp add: cc_remove_def)
  from cache_remove_reaches_server [OF example_server(1) empty_cache_ok v r, of example_clock 0] r
  show ?thesis by blast
qed

section \<open>Removed extents and junk attributes\<close>

text \<open>A removed extent stays removed until it is flushed: reading it, asking for its
  attributes, writing it and removing it again all return \<open>NOENT\<close> and change nothing, not even
  the out-parameters, and none of them calls the server.\<close>

theorem removed_is_gone:
  assumes "cc_remove junk tbl eid = (r, tbl1)"
  shows "cc_get rpc junk clk tbl1 s eid buf = (ext_status_code NOENT, buf, tbl1, s)
    \<and> cc_getattr rpc tbl1 s eid a = (ext_status_code NOENT, a, tbl1, s)
    \<and> cc_put junk clk tbl1 eid new = (ext_status_code NOENT, tbl1)
    \<and> cc_remove junk tbl1 eid = (ext_status_code NOENT, tbl1)"
proof -
  have "\<exists>x. tbl1 eid = Some x \<and> x_state x = REMOVED"
    using assms by (auto simp: cc_remove_def split: if_splits)
  then show ?thesis
    by (auto simp: cc_get_def cc_getattr_def cc_put_def cc_remove_def)
qed

theorem removed_is_gone_witness:
  "\<exists>tbl1. cc_remove zero_attr Map.empty 1 = (0, tbl1)
    \<and> cc_get example_rpc zero_attr example_clock tbl1 example_server 1 [7] = (2, [7], tbl1, example_server)"
proof -
  obtain tbl1 where r: "cc_remove zero_attr Map.empty 1 = (0, tbl1)" by (simp add: cc_remove_def)
  from removed_is_gone [OF r, of example_rpc example_clock example_server "[7]"] r show ?thesis by auto
qed

text \<open>Writing an extent that is not in the cache invents its attributes: until the next flush
  the type and access time the client reports are those of uninitialised memory, whatever the
  extent is on the server. The constructor of the file system client does this to the root.\<close>

theorem put_uncached_junk:
  assumes "tbl eid = None"
  shows "\<exists>tbl1 a. cc_put junk clk tbl eid buf = (0, tbl1) \<and> cc_getattr rpc tbl1 s eid a0 = (0, a, tbl1, s)
    \<and> a_type a = a_type junk \<and> a_atime a = a_atime junk \<and> a_size a = of_nat (length buf)"
  using assms by (simp add: cc_put_def cc_getattr_def entry_def extent_ctor_def)

theorem put_uncached_junk_witness:
  "\<exists>tbl1 a. cc_put (zero_attr\<lparr>a_type := 77\<rparr>) example_clock Map.empty 1 [] = (0, tbl1)
    \<and> cc_getattr example_rpc tbl1 example_server 1 zero_attr = (0, a, tbl1, example_server)
    \<and> a_type a = 77 \<and> server_view example_server 1 = Some (T_DIR, [])"
  using put_uncached_junk [of Map.empty 1 "zero_attr\<lparr>a_type := 77\<rparr>" example_clock "[]" example_rpc
      example_server zero_attr] example_server(2) by auto

end
