(* ===== verification/Lock_Server_Cache.thy ===== *)
theory Lock_Server_Cache
  imports Yfs_Prelude
begin

text \<open>
  The lock protocol of \<^verbatim>\<open>lock_protocol.h\<close> and the caching lock server of
  \<^verbatim>\<open>lock_server_cache.h\<close> and \<^verbatim>\<open>lock_server_cache.cc\<close>. A handler is one function: what it does
  under the mutex, the status it returns, and the client it sends a revoke or retry call to.
  The call itself goes through the RPC library. The lemmas give the invariant of an entry and
  refine the handlers to a lock with one holder and a first-in first-out queue.
\<close>

section \<open>The protocol\<close>

type_synonym lockid = u64

datatype lock_status = LOK | LRETRY | LRPCERR | LNOENT | LIOERR

fun lock_status_code :: "lock_status \<Rightarrow> int" where
  "lock_status_code LOK = 0"
| "lock_status_code LRETRY = 1"
| "lock_status_code LRPCERR = 2"
| "lock_status_code LNOENT = 3"
| "lock_status_code LIOERR = 4"

section \<open>State\<close>

datatype server_status = SFree | SLocked | SWaiting

text \<open>One entry of the table; a client is named by its host and port, nobody by the empty string.\<close>

record lock_entry =
  clientId :: string
  clientQ :: "string list"
  clientS :: "string set"
  e_status :: server_status

record lock_server_cache =
  nacquire :: int
  lock_table :: "lockid \<rightharpoonup> lock_entry"

section \<open>Handlers\<close>

text \<open>
  The branch of \<open>acquire\<close> for an entry of the table: the status returned, whether to revoke, and
  the new entry. The front of an empty queue and the removal of an absent name are undefined.
\<close>

definition acquire_entry :: "lock_entry \<Rightarrow> string \<Rightarrow> (lock_status \<times> bool \<times> lock_entry) res" where
  "acquire_entry e cid =
     (case e_status e of
        SFree \<Rightarrow> Inr (LOK, False, e\<lparr>e_status := SLocked, clientId := cid\<rparr>)
      | SLocked \<Rightarrow> Inr (LRETRY, True, e\<lparr>e_status := SWaiting, clientQ := clientQ e @ [cid],
                       clientS := insert cid (clientS e)\<rparr>)
      | SWaiting \<Rightarrow>
          if clientQ e = [] then Inl Out_Of_Bounds
          else if hd (clientQ e) = cid then
            if cid \<notin> clientS e then Inl Out_Of_Bounds
            else (let e' = e\<lparr>clientId := cid, clientQ := tl (clientQ e), clientS := clientS e - {cid}\<rparr>
                  in if clientQ e' = [] then Inr (LOK, False, e'\<lparr>e_status := SLocked\<rparr>)
                     else Inr (LOK, True, e'))
          else if cid \<notin> clientS e then
            Inr (LRETRY, False, e\<lparr>clientQ := clientQ e @ [cid], clientS := insert cid (clientS e)\<rparr>)
          else Inr (LRETRY, False, e))"

text \<open>\<open>acquire\<close> returns the status and the client to revoke, if any.\<close>

definition lsc_acquire ::
  "lock_server_cache \<Rightarrow> lockid \<Rightarrow> string \<Rightarrow> (lock_status \<times> string option \<times> lock_server_cache) res" where
  "lsc_acquire sv lid cid =
     (case lock_table sv lid of
        None \<Rightarrow> Inr (LOK, None, sv\<lparr>lock_table := (lock_table sv)(lid \<mapsto>
                  \<lparr>clientId = cid, clientQ = [], clientS = {}, e_status = SLocked\<rparr>)\<rparr>)
      | Some e \<Rightarrow>
          bind_res (acquire_entry e cid) (\<lambda>(ret, needRevoke, e').
            Inr (ret, if needRevoke then Some (clientId e') else None,
                 sv\<lparr>lock_table := (lock_table sv)(lid \<mapsto> e')\<rparr>)))"

text \<open>\<open>release\<close> always returns \<open>OK\<close>; it gives the client to call with \<open>retry\<close>, if any.\<close>

definition release_entry :: "lock_entry \<Rightarrow> string \<Rightarrow> bool \<times> lock_entry" where
  "release_entry e cid =
     (if clientId e \<noteq> cid then (False, e)
      else case e_status e of
        SFree \<Rightarrow> (False, e)
      | SLocked \<Rightarrow> (False, e\<lparr>e_status := SFree, clientId := []\<rparr>)
      | SWaiting \<Rightarrow> (True, e\<lparr>clientId := []\<rparr>))"

definition lsc_release ::
  "lock_server_cache \<Rightarrow> lockid \<Rightarrow> string \<Rightarrow> lock_status \<times> string option \<times> lock_server_cache" where
  "lsc_release sv lid cid =
     (case lock_table sv lid of
        None \<Rightarrow> (LOK, None, sv)
      | Some e \<Rightarrow>
          (let (needRetry, e') = release_entry e cid
           in (LOK, if needRetry then Some (if clientQ e' = [] then [] else hd (clientQ e')) else None,
               sv\<lparr>lock_table := (lock_table sv)(lid \<mapsto> e')\<rparr>)))"

definition lsc_stat :: "lock_server_cache \<Rightarrow> lockid \<Rightarrow> lock_status \<times> int" where
  "lsc_stat sv lid = (LOK, nacquire sv)"

text \<open>The constructor leaves \<open>nacquire\<close> as the memory holds it.\<close>

definition lsc_ctor :: "int \<Rightarrow> lock_server_cache" where
  "lsc_ctor junk = \<lparr>nacquire = junk, lock_table = Map.empty\<rparr>"

section \<open>The invariant of an entry\<close>

definition entry_inv :: "lock_entry \<Rightarrow> bool" where
  "entry_inv e \<longleftrightarrow> distinct (clientQ e) \<and> clientS e = set (clientQ e) \<and> [] \<notin> set (clientQ e)
     \<and> (e_status e = SWaiting \<longleftrightarrow> clientQ e \<noteq> [])
     \<and> (e_status e = SFree \<longrightarrow> clientId e = []) \<and> (e_status e = SLocked \<longrightarrow> clientId e \<noteq> [])"

definition lock_inv :: "lock_server_cache \<Rightarrow> bool" where
  "lock_inv sv \<longleftrightarrow> (\<forall>lid e. lock_table sv lid = Some e \<longrightarrow> entry_inv e)"

lemma lock_inv_ctor: "lock_inv (lsc_ctor junk)"
  by (simp add: lock_inv_def lsc_ctor_def)

lemma release_entry_inv: "entry_inv e \<Longrightarrow> entry_inv (snd (release_entry e cid))"
  by (auto simp: release_entry_def entry_inv_def split: server_status.splits)

section \<open>The abstract lock\<close>

text \<open>
  Who holds the lock, and who waits for it in which order. Granting the lock to the front
  of the queue does not look at the holder: that the lock is free then is a promise of the
  clients, who ask again only when told to.
\<close>

type_synonym queue_lock = "string option \<times> string list"

fun queue_acquire :: "string \<Rightarrow> queue_lock \<Rightarrow> lock_status \<times> string option \<times> queue_lock" where
  "queue_acquire cid (None, []) = (LOK, None, (Some cid, []))"
| "queue_acquire cid (Some h, []) = (LRETRY, Some h, (Some h, [cid]))"
| "queue_acquire cid (h, x # q) =
     (if x = cid then (LOK, if q = [] then None else Some cid, (Some cid, q))
      else (LRETRY, None, (h, if cid \<in> set (x # q) then x # q else x # q @ [cid])))"

fun queue_release :: "string \<Rightarrow> queue_lock \<Rightarrow> string option \<times> queue_lock" where
  "queue_release cid (h, q) =
     (if h = Some cid then (if q = [] then None else Some (hd q), (None, q)) else (None, (h, q)))"

definition lock_of :: "lock_entry \<Rightarrow> queue_lock" where
  "lock_of e = (if clientId e = [] then None else Some (clientId e), clientQ e)"

definition abs_lock :: "lock_server_cache \<Rightarrow> lockid \<Rightarrow> queue_lock" where
  "abs_lock sv lid =
     (case lock_table sv lid of None \<Rightarrow> (None, []) | Some e \<Rightarrow> lock_of e)"

lemma abs_lock_upd [simp]:
  "abs_lock (sv\<lparr>lock_table := (lock_table sv)(lid \<mapsto> e)\<rparr>) l =
     (if l = lid then lock_of e else abs_lock sv l)"
  by (simp add: abs_lock_def)

lemma lock_inv_upd: "lock_inv sv \<Longrightarrow> entry_inv e \<Longrightarrow> lock_inv (sv\<lparr>lock_table := (lock_table sv)(lid \<mapsto> e)\<rparr>)"
  by (simp add: lock_inv_def)

lemma acquire_entry_refines:
  assumes e: "entry_inv e" and cid: "cid \<noteq> []"
  shows "\<exists>r. acquire_entry e cid = Inr r \<and> entry_inv (snd (snd r)) \<and> queue_acquire cid (lock_of e) =
      (fst r, if fst (snd r) then Some (clientId (snd (snd r))) else None, lock_of (snd (snd r)))"
proof (cases "clientQ e")
  case Nil
  then show ?thesis
    using e cid by (cases "e_status e") (auto simp: acquire_entry_def entry_inv_def lock_of_def)
next
  case (Cons x q)
  then have w: "e_status e = SWaiting" using e by (simp add: entry_inv_def)
  consider "x = cid" "q = []" | "x = cid" "q \<noteq> []" | "x \<noteq> cid" "cid \<in> set q" | "x \<noteq> cid" "cid \<notin> set q"
    by blast
  then show ?thesis
    using e cid Cons w by cases (auto simp: acquire_entry_def entry_inv_def lock_of_def Let_def)
qed

lemma acquire_refines:
  assumes inv: "lock_inv sv" and cid: "cid \<noteq> []"
  shows "\<exists>ret rv sv'. lsc_acquire sv lid cid = Inr (ret, rv, sv') \<and> lock_inv sv'
    \<and> queue_acquire cid (abs_lock sv lid) = (ret, rv, abs_lock sv' lid)
    \<and> (\<forall>l. l \<noteq> lid \<longrightarrow> lock_table sv' l = lock_table sv l)"
proof (cases "lock_table sv lid")
  case None
  then show ?thesis
    using inv cid by (auto simp: lsc_acquire_def abs_lock_def lock_of_def lock_inv_def entry_inv_def)
next
  case (Some e)
  then have e: "entry_inv e" using inv by (simp add: lock_inv_def)
  obtain r where r: "acquire_entry e cid = Inr r" "entry_inv (snd (snd r))"
    "queue_acquire cid (lock_of e) =
      (fst r, if fst (snd r) then Some (clientId (snd (snd r))) else None, lock_of (snd (snd r)))"
    using acquire_entry_refines [OF e cid] by blast
  obtain ret rv e' where [simp]: "r = (ret, rv, e')" by (cases r)
  show ?thesis
    using Some r lock_inv_upd [OF inv, of e' lid] by (simp add: lsc_acquire_def abs_lock_def)
qed

lemma release_entry_refines:
  assumes e: "entry_inv e" and cid: "cid \<noteq> []"
  shows "queue_release cid (lock_of e) = (let (rt, e') = release_entry e cid in
      (if rt then Some (if clientQ e' = [] then [] else hd (clientQ e')) else None, lock_of e'))"
  using e cid by (cases "e_status e") (auto simp: release_entry_def entry_inv_def lock_of_def)

lemma release_refines:
  assumes inv: "lock_inv sv" and cid: "cid \<noteq> []"
  shows "\<exists>rt sv'. lsc_release sv lid cid = (LOK, rt, sv') \<and> lock_inv sv'
    \<and> queue_release cid (abs_lock sv lid) = (rt, abs_lock sv' lid)
    \<and> (\<forall>l. l \<noteq> lid \<longrightarrow> lock_table sv' l = lock_table sv l)"
proof (cases "lock_table sv lid")
  case None
  then show ?thesis using inv by (simp add: lsc_release_def abs_lock_def)
next
  case (Some e)
  then have e: "entry_inv e" using inv by (simp add: lock_inv_def)
  obtain rt e' where r: "release_entry e cid = (rt, e')" by (cases "release_entry e cid")
  then have e': "entry_inv e'" using release_entry_inv [OF e, of cid] by simp
  show ?thesis
    using Some r lock_inv_upd [OF inv e', of lid] release_entry_refines [OF e cid]
    by (simp add: lsc_release_def abs_lock_def)
qed

end
