(* ===== verification/Lock_Client_Cache.thy ===== *)
theory Lock_Client_Cache
  imports Lock_Server_Cache
begin

text \<open>
  The caching lock client of \<^verbatim>\<open>lock_client_cache.h\<close> and \<^verbatim>\<open>lock_client_cache.cc\<close>. An operation of
  the client gives up its mutex around every call to the server and every wait on a condition
  variable; each stretch in between is one function on the client's table. An outcome says how
  the stretch ended. \<open>Lock_System\<close> puts the stretches together into runs.
\<close>

section \<open>The table\<close>

datatype client_status = CNone | CFree | CLocked | CAcquiring | CReleasing

record client_lock =
  c_status :: client_status
  c_revoke :: bool
  c_retry :: bool

type_synonym client_table = "lockid \<rightharpoonup> client_lock"

definition client_lock_ctor :: client_lock where
  "client_lock_ctor = \<lparr>c_status = CNone, c_revoke = False, c_retry = False\<rparr>"

definition lock_at :: "client_table \<Rightarrow> lockid \<Rightarrow> client_lock" where
  "lock_at tbl lid = (case tbl lid of Some e \<Rightarrow> e | None \<Rightarrow> client_lock_ctor)"

lemma lock_at_upd [simp]: "lock_at (tbl(lid \<mapsto> e)) l = (if l = lid then e else lock_at tbl l)"
  by (simp add: lock_at_def)

section \<open>Acquire\<close>

text \<open>
  How a stretch ends: it returns a status, calls the server, calls \<^verbatim>\<open>lu->dorelease\<close> and then the
  server (\<open>Flush_Call\<close>; only \<open>release\<close> and the revoke handler do), waits for the lock to become
  available in this client, or waits for the server's retry call.
\<close>

datatype outcome = Return lock_status | Call_Server | Flush_Call | Wait_Lock | Wait_Retry

text \<open>The head of the loop \<^verbatim>\<open>while (!retry)\<close>.\<close>

definition acquire_loop :: "lock_status \<Rightarrow> client_lock \<Rightarrow> outcome" where
  "acquire_loop ret e = (if c_retry e then Return ret else Call_Server)"

text \<open>From the start, or from the label \<open>recheck\<close>.\<close>

definition lcc_acquire :: "client_table \<Rightarrow> lockid \<Rightarrow> outcome \<times> client_table" where
  "lcc_acquire tbl lid =
     (let e = lock_at tbl lid
      in case c_status e of
           CNone \<Rightarrow> (let e' = e\<lparr>c_status := CAcquiring\<rparr> in (acquire_loop LOK e', tbl(lid \<mapsto> e')))
         | CFree \<Rightarrow> (Return LOK, tbl(lid \<mapsto> e\<lparr>c_status := CLocked\<rparr>))
         | CLocked \<Rightarrow> (Wait_Lock, tbl(lid \<mapsto> e))
         | CAcquiring \<Rightarrow> (Wait_Lock, tbl(lid \<mapsto> e))
         | CReleasing \<Rightarrow> (Wait_Lock, tbl(lid \<mapsto> e)))"

text \<open>After the wait for the retry call, which ends when the flag is set.\<close>

definition lcc_retried :: "client_table \<Rightarrow> lockid \<Rightarrow> outcome \<times> client_table" where
  "lcc_retried tbl lid =
     (let e = lock_at tbl lid
      in if c_retry e
         then (let e' = e\<lparr>c_retry := False\<rparr> in (acquire_loop LRETRY e', tbl(lid \<mapsto> e')))
         else (Wait_Retry, tbl))"

text \<open>After the server's answer.\<close>

definition lcc_acquire_reply :: "client_table \<Rightarrow> lockid \<Rightarrow> lock_status \<Rightarrow> outcome \<times> client_table" where
  "lcc_acquire_reply tbl lid ret =
     (if ret = LRETRY then lcc_retried tbl lid
      else if ret = LOK then (Return ret, tbl(lid \<mapsto> (lock_at tbl lid)\<lparr>c_status := CLocked\<rparr>))
      else (acquire_loop ret (lock_at tbl lid), tbl))"

section \<open>Release and the server's calls\<close>

text \<open>
  To give a lock back the client calls \<^verbatim>\<open>lu->dorelease(lid)\<close>, which flushes the extent, and then the
  server. \<open>lu\<close> says whether the client was made with a \<^verbatim>\<open>lock_release_user\<close>: the pointer is null by
  default, and then the call ends the process.
\<close>

definition dorelease_call :: "bool \<Rightarrow> client_table \<Rightarrow> (outcome \<times> client_table) res" where
  "dorelease_call lu tbl = (if lu then Inr (Flush_Call, tbl) else Inl Null_Deref)"

text \<open>
  \<open>release\<close> either returns or gives the lock back; after the server's answer, as after the revoke handler's own
  call, the lock is gone.
\<close>

definition lcc_release :: "bool \<Rightarrow> client_table \<Rightarrow> lockid \<Rightarrow> (outcome \<times> client_table) res" where
  "lcc_release lu tbl lid =
     (case tbl lid of
        None \<Rightarrow> Inr (Return LOK, tbl)
      | Some e \<Rightarrow>
          if c_revoke e then dorelease_call lu (tbl(lid \<mapsto> e\<lparr>c_revoke := False\<rparr>))
          else (case c_status e of
             CLocked \<Rightarrow> Inr (Return LOK, tbl(lid \<mapsto> e\<lparr>c_status := CFree\<rparr>))
           | CFree \<Rightarrow> Inr (Return LOK, tbl)
           | CReleasing \<Rightarrow> dorelease_call lu tbl
           | CNone \<Rightarrow> Inr (Return LOK, tbl)
           | CAcquiring \<Rightarrow> Inr (Return LOK, tbl)))"

definition lcc_released :: "client_table \<Rightarrow> lockid \<Rightarrow> client_table" where
  "lcc_released tbl lid = tbl(lid \<mapsto> (lock_at tbl lid)\<lparr>c_status := CNone\<rparr>)"

definition lcc_revoke :: "bool \<Rightarrow> client_table \<Rightarrow> lockid \<Rightarrow> (outcome \<times> client_table) res" where
  "lcc_revoke lu tbl lid =
     (let e = lock_at tbl lid
      in case c_status e of
           CNone \<Rightarrow> Inr (Return LOK, tbl(lid \<mapsto> e\<lparr>c_revoke := True\<rparr>))
         | CReleasing \<Rightarrow> Inr (Return LOK, tbl(lid \<mapsto> e\<lparr>c_revoke := True\<rparr>))
         | CAcquiring \<Rightarrow> Inr (Return LOK, tbl(lid \<mapsto> e\<lparr>c_revoke := True\<rparr>))
         | CFree \<Rightarrow> dorelease_call lu (tbl(lid \<mapsto> e\<lparr>c_status := CReleasing\<rparr>))
         | CLocked \<Rightarrow> Inr (Return LOK, tbl(lid \<mapsto> e\<lparr>c_status := CReleasing\<rparr>)))"

definition lcc_retry :: "client_table \<Rightarrow> lockid \<Rightarrow> client_table" where
  "lcc_retry tbl lid = tbl(lid \<mapsto> (lock_at tbl lid)\<lparr>c_retry := True\<rparr>)"

lemmas lcc_defs = lcc_acquire_def lcc_retried_def lcc_acquire_reply_def lcc_release_def
  lcc_released_def lcc_revoke_def lcc_retry_def acquire_loop_def dorelease_call_def Let_def

text \<open>A client that has an object to call never faults.\<close>

lemma lcc_total:
  "\<exists>r tbl'. lcc_release True tbl lid = Inr (r, tbl')" "\<exists>r tbl'. lcc_revoke True tbl lid = Inr (r, tbl')"
  by (simp_all add: lcc_release_def lcc_revoke_def dorelease_call_def Let_def split: option.split client_status.split)

text \<open>A client without it only ever keeps a lock.\<close>

lemma lcc_keeps:
  "lcc_release False tbl lid = Inr (r, tbl') \<Longrightarrow> r = Return LOK" "lcc_revoke False tbl lid = Inr (r, tbl') \<Longrightarrow> r = Return LOK"
  by (auto simp: lcc_release_def lcc_revoke_def dorelease_call_def Let_def split: option.splits client_status.splits if_splits)

end
