(* ===== verification/Lock_Service.thy ===== *)
theory Lock_Service
  imports Yfs_Prelude
begin

text \<open>
  What the users of a lock rely on, whichever lock server and client they talk to: in every
  reachable state at most one party holds the lock. \<open>Lock_Server\<close> and \<open>Lock_System\<close>
  interpret the locale on the blocking server and on the caching server with its clients.
\<close>

locale lock_service =
  fixes reach :: "'s \<Rightarrow> bool"
    and step :: "'s \<Rightarrow> 's \<Rightarrow> bool"
    and holds :: "'s \<Rightarrow> 'c \<Rightarrow> bool"
  assumes reach_step: "reach s \<Longrightarrow> step s s' \<Longrightarrow> reach s'"
    and exclusive: "reach s \<Longrightarrow> holds s c \<Longrightarrow> holds s d \<Longrightarrow> c = d"
begin

lemma reach_steps: "step\<^sup>*\<^sup>* s s' \<Longrightarrow> reach s \<Longrightarrow> reach s'"
  by (induction rule: rtranclp_induct) (auto intro: reach_step)

lemma holders: "reach s \<Longrightarrow> \<exists>h. {c. holds s c} \<subseteq> {h}"
  using exclusive by (cases "\<exists>c. holds s c") blast+

lemma handover:
  assumes "reach s" and "step\<^sup>*\<^sup>* s s'" and "holds s' d" and "d \<noteq> c"
  shows "\<not> holds s' c"
  using exclusive [OF reach_steps [OF assms(2,1)]] assms(3,4) by blast

end

end
