(* ===== verification/Lock_System.thy ===== *)
theory Lock_System
  imports Lock_Client_Cache Lock_Service "HOL-Library.Multiset"
begin

text \<open>
  The caching lock server and its clients together: threads of the clients, messages in
  flight, and the stretches of \<open>Lock_Client_Cache\<close> and the handlers of \<open>Lock_Server_Cache\<close> as the
  steps of a transition relation, in any interleaving. The RPC library delivers every call to
  the server and every answer to the thread that asked, exactly once and in any order; the
  answer to a call does not wait for the revoke or retry call the handler makes, which allows
  more runs than the code has. The invariant shows that at most one thread of all clients is
  between \<open>acquire\<close> and \<open>release\<close> of a lock.
\<close>

section \<open>Runs\<close>

text \<open>
  A thread is outside, waits for another thread of its client, waits for the server's answer,
  waits for the retry call, holds the lock, or waits for the answer to its release.
\<close>

datatype pc = Out | Blocked | Calling | Awaiting | Inside | Releasing

datatype msg = Acq_Req string nat | Acq_Rep string nat lock_status | Rel_Req string nat
  | Rel_Rep string nat | Revoke_Call string | Retry_Call string

fun party :: "msg \<Rightarrow> string" where
  "party (Acq_Req c t) = c"
| "party (Acq_Rep c t ret) = c"
| "party (Rel_Req c t) = c"
| "party (Rel_Rep c t) = c"
| "party (Revoke_Call c) = c"
| "party (Retry_Call c) = c"

record lock_sys =
  srv :: lock_server_cache
  ctab :: "string \<Rightarrow> client_table"
  pcs :: "string \<Rightarrow> nat \<Rightarrow> pc"
  net :: "msg multiset"

definition lock_sys_init :: "int \<Rightarrow> lock_sys" where
  "lock_sys_init junk = \<lparr>srv = lsc_ctor junk, ctab = \<lambda>_. Map.empty, pcs = \<lambda>_ _. Out, net = {#}\<rparr>"

text \<open>A stretch of client \<open>c\<close> run by its thread \<open>t\<close>: new table, new place of the thread, and
  the messages taken from and put on the network.\<close>

definition client_move ::
  "string \<Rightarrow> nat \<Rightarrow> client_table \<Rightarrow> pc \<Rightarrow> msg multiset \<Rightarrow> msg multiset \<Rightarrow> lock_sys \<Rightarrow> lock_sys" where
  "client_move c t tbl p got sent \<sigma> =
     \<sigma>\<lparr>ctab := (ctab \<sigma>)(c := tbl), pcs := (pcs \<sigma>)(c := (pcs \<sigma> c)(t := p)), net := net \<sigma> - got + sent\<rparr>"

text \<open>\<open>Flush_Call\<close> comes from \<open>release\<close> and the revoke handler only, \<open>Call_Server\<close> from \<open>acquire\<close> only.\<close>

fun acquire_pc :: "outcome \<Rightarrow> pc" where
  "acquire_pc (Return ret) = Inside"
| "acquire_pc Call_Server = Calling"
| "acquire_pc Flush_Call = Calling"
| "acquire_pc Wait_Lock = Blocked"
| "acquire_pc Wait_Retry = Awaiting"

fun release_pc :: "outcome \<Rightarrow> pc" where
  "release_pc Flush_Call = Releasing"
| "release_pc _ = Out"

definition sent_if :: "outcome \<Rightarrow> msg \<Rightarrow> msg multiset" where
  "sent_if r m = (if r = Call_Server \<or> r = Flush_Call then {#m#} else {#})"

definition call_to :: "(string \<Rightarrow> msg) \<Rightarrow> string option \<Rightarrow> msg multiset" where
  "call_to mk tgt = (case tgt of None \<Rightarrow> {#} | Some c \<Rightarrow> {#mk c#})"

text \<open>
  \<open>lu c\<close> says whether client \<open>c\<close> has a \<^verbatim>\<open>lock_release_user\<close>. A stretch that faults has no step: it ends its process, and
  \<open>faulty\<close> says where that can happen. Every client that \<^verbatim>\<open>yfs_client.cc\<close> makes has one: \<open>lock_step\<close>.
\<close>

inductive lock_step_of :: "(string \<Rightarrow> bool) \<Rightarrow> lockid \<Rightarrow> lock_sys \<Rightarrow> lock_sys \<Rightarrow> bool" for lu lid where
  acquire: "c \<noteq> [] \<Longrightarrow> pcs \<sigma> c t \<in> {Out, Blocked} \<Longrightarrow> lcc_acquire (ctab \<sigma> c) lid = (r, tbl) \<Longrightarrow>
    lock_step_of lu lid \<sigma> (client_move c t tbl (acquire_pc r) {#} (sent_if r (Acq_Req c t)) \<sigma>)"
| acquire_reply: "pcs \<sigma> c t = Calling \<Longrightarrow> Acq_Rep c t ret \<in># net \<sigma> \<Longrightarrow>
    lcc_acquire_reply (ctab \<sigma> c) lid ret = (r, tbl) \<Longrightarrow>
    lock_step_of lu lid \<sigma> (client_move c t tbl (acquire_pc r) {#Acq_Rep c t ret#} (sent_if r (Acq_Req c t)) \<sigma>)"
| retried: "pcs \<sigma> c t = Awaiting \<Longrightarrow> lcc_retried (ctab \<sigma> c) lid = (r, tbl) \<Longrightarrow>
    lock_step_of lu lid \<sigma> (client_move c t tbl (acquire_pc r) {#} (sent_if r (Acq_Req c t)) \<sigma>)"
| release: "pcs \<sigma> c t = Inside \<Longrightarrow> lcc_release (lu c) (ctab \<sigma> c) lid = Inr (r, tbl) \<Longrightarrow>
    lock_step_of lu lid \<sigma> (client_move c t tbl (release_pc r) {#} (sent_if r (Rel_Req c t)) \<sigma>)"
| released: "pcs \<sigma> c t = Releasing \<Longrightarrow> Rel_Rep c t \<in># net \<sigma> \<Longrightarrow>
    lock_step_of lu lid \<sigma> (client_move c t (lcc_released (ctab \<sigma> c) lid) Out {#Rel_Rep c t#} {#} \<sigma>)"
| revoke: "Revoke_Call c \<in># net \<sigma> \<Longrightarrow> pcs \<sigma> c t = Out \<Longrightarrow> lcc_revoke (lu c) (ctab \<sigma> c) lid = Inr (r, tbl) \<Longrightarrow>
    lock_step_of lu lid \<sigma> (client_move c t tbl (release_pc r) {#Revoke_Call c#} (sent_if r (Rel_Req c t)) \<sigma>)"
| retry: "Retry_Call c \<in># net \<sigma> \<Longrightarrow> pcs \<sigma> c t = Out \<Longrightarrow>
    lock_step_of lu lid \<sigma> (client_move c t (lcc_retry (ctab \<sigma> c) lid) Out {#Retry_Call c#} {#} \<sigma>)"
| serve_acquire: "Acq_Req c t \<in># net \<sigma> \<Longrightarrow> lsc_acquire (srv \<sigma>) lid c = Inr (ret, rv, sv) \<Longrightarrow>
    lock_step_of lu lid \<sigma> (\<sigma>\<lparr>srv := sv, net := net \<sigma> - {#Acq_Req c t#} + ({#Acq_Rep c t ret#} + call_to Revoke_Call rv)\<rparr>)"
| serve_release: "Rel_Req c t \<in># net \<sigma> \<Longrightarrow> lsc_release (srv \<sigma>) lid c = (ret, rt, sv) \<Longrightarrow>
    lock_step_of lu lid \<sigma> (\<sigma>\<lparr>srv := sv, net := net \<sigma> - {#Rel_Req c t#} + ({#Rel_Rep c t#} + call_to Retry_Call rt)\<rparr>)"

abbreviation lock_step :: "lockid \<Rightarrow> lock_sys \<Rightarrow> lock_sys \<Rightarrow> bool" where
  "lock_step \<equiv> lock_step_of (\<lambda>_. True)"

definition faulty :: "(string \<Rightarrow> bool) \<Rightarrow> lockid \<Rightarrow> lock_sys \<Rightarrow> bool" where
  "faulty lu lid \<sigma> \<longleftrightarrow> (\<exists>c t. pcs \<sigma> c t = Inside \<and> lcc_release (lu c) (ctab \<sigma> c) lid = Inl Null_Deref)
     \<or> (\<exists>c t. Revoke_Call c \<in># net \<sigma> \<and> pcs \<sigma> c t = Out \<and> lcc_revoke (lu c) (ctab \<sigma> c) lid = Inl Null_Deref)"

section \<open>The phases of a client\<close>

text \<open>
  Where a client can be, given its entry \<open>e\<close>, its threads \<open>f\<close>, the messages \<open>m\<close> to and from it,
  the holder \<open>h\<close> and the queue \<open>q\<close> of the server. One retry call is due to the front of the
  queue of a free lock, one revoke call to the holder of a lock that others wait for.
\<close>

definition quiet :: "(nat \<Rightarrow> pc) \<Rightarrow> nat set \<Rightarrow> bool" where
  "quiet f T \<longleftrightarrow> (\<forall>t. t \<notin> T \<longrightarrow> f t = Out \<or> f t = Blocked)"

definition due :: "bool \<Rightarrow> bool \<Rightarrow> msg \<Rightarrow> msg multiset \<Rightarrow> bool" where
  "due wanted flag call m \<longleftrightarrow> (if wanted then m = {#call#} \<and> \<not> flag \<or> m = {#} \<and> flag else m = {#} \<and> \<not> flag)"

definition idle where
  "idle c e f m h q \<longleftrightarrow> c_status e = CNone \<and> \<not> c_revoke e \<and> \<not> c_retry e \<and> m = {#} \<and> quiet f {}
     \<and> c \<notin> set q \<and> h \<noteq> Some c"

definition requesting where
  "requesting c e f m h q \<longleftrightarrow> (\<exists>t. c_status e = CAcquiring \<and> \<not> c_revoke e \<and> \<not> c_retry e
     \<and> m = {#Acq_Req c t#} \<and> f t = Calling \<and> quiet f {t}
     \<and> (c \<notin> set q \<and> h \<noteq> Some c \<or> q \<noteq> [] \<and> hd q = c \<and> h = None))"

definition queued where
  "queued c e f m h q \<longleftrightarrow> (\<exists>t r. c_status e = CAcquiring \<and> \<not> c_revoke e \<and> c \<in> set q \<and> h \<noteq> Some c
     \<and> quiet f {t} \<and> (f t = Calling \<and> m = add_mset (Acq_Rep c t LRETRY) r \<or> f t = Awaiting \<and> m = r)
     \<and> due (hd q = c \<and> h = None) (c_retry e) (Retry_Call c) r)"

definition granted where
  "granted c e f m h q \<longleftrightarrow> (\<exists>t r. c_status e = CAcquiring \<and> \<not> c_retry e \<and> h = Some c \<and> c \<notin> set q
     \<and> f t = Calling \<and> quiet f {t} \<and> m = add_mset (Acq_Rep c t LOK) r
     \<and> due (q \<noteq> []) (c_revoke e) (Revoke_Call c) r)"

definition inside where
  "inside c e f m h q \<longleftrightarrow> (\<exists>t. \<not> c_retry e \<and> h = Some c \<and> c \<notin> set q \<and> f t = Inside \<and> quiet f {t}
     \<and> (c_status e = CLocked \<and> due (q \<noteq> []) (c_revoke e) (Revoke_Call c) m
        \<or> c_status e = CReleasing \<and> \<not> c_revoke e \<and> m = {#} \<and> q \<noteq> []))"

definition cached where
  "cached c e f m h q \<longleftrightarrow> c_status e = CFree \<and> \<not> c_revoke e \<and> \<not> c_retry e \<and> h = Some c \<and> c \<notin> set q
     \<and> quiet f {} \<and> m = (if q = [] then {#} else {#Revoke_Call c#})"

definition giving_back where
  "giving_back c e f m h q \<longleftrightarrow> (\<exists>t. (c_status e = CLocked \<or> c_status e = CReleasing) \<and> \<not> c_revoke e
     \<and> \<not> c_retry e \<and> c \<notin> set q \<and> f t = Releasing \<and> quiet f {t}
     \<and> (h = Some c \<and> q \<noteq> [] \<and> m = {#Rel_Req c t#} \<or> h \<noteq> Some c \<and> m = {#Rel_Rep c t#}))"

definition phase where
  "phase c e f m h q \<longleftrightarrow> idle c e f m h q \<or> requesting c e f m h q \<or> queued c e f m h q
     \<or> granted c e f m h q \<or> inside c e f m h q \<or> cached c e f m h q \<or> giving_back c e f m h q"

lemmas phase_defs = idle_def requesting_def queued_def granted_def inside_def cached_def giving_back_def

lemma phaseE:
  assumes "phase c e f m h q"
  obtains "idle c e f m h q" | "requesting c e f m h q" | "queued c e f m h q" | "granted c e f m h q"
    | "inside c e f m h q" | "cached c e f m h q" | "giving_back c e f m h q"
  using assms by (auto simp: phase_def)

lemma quiet_upd: "quiet f T \<Longrightarrow> p = Out \<or> p = Blocked \<or> t \<in> T \<Longrightarrow> quiet (f(t := p)) T"
  by (auto simp: quiet_def)

lemma quiet_one: "quiet f {u} \<Longrightarrow> f t = p \<Longrightarrow> p \<noteq> Out \<Longrightarrow> p \<noteq> Blocked \<Longrightarrow> u = t"
  by (auto simp: quiet_def)

lemma quiet_enter: "quiet f {} \<Longrightarrow> quiet (f(t := p)) {t}"
  by (auto simp: quiet_def)

lemma quiet_leave: "quiet f {t} \<Longrightarrow> p = Out \<or> p = Blocked \<Longrightarrow> quiet (f(t := p)) {}"
  by (auto simp: quiet_def)

text \<open>A thread that stays outside does not matter.\<close>

lemma phase_quiet:
  assumes ph: "phase c e f m h q" and t: "f t = Out \<or> f t = Blocked" and p: "p = Out \<or> p = Blocked"
  shows "phase c e (f(t := p)) m h q"
proof -
  have q: "quiet f T \<Longrightarrow> quiet (f(t := p)) T" for T using p by (auto simp: quiet_def)
  have k: "f x = y \<Longrightarrow> y \<noteq> Out \<Longrightarrow> y \<noteq> Blocked \<Longrightarrow> (f(t := p)) x = y" for x y using t by auto
  from ph show ?thesis
  proof (cases rule: phaseE)
    case 1 then show ?thesis using q by (simp add: phase_def idle_def)
  next
    case 2 then have "requesting c e (f(t := p)) m h q" using q k unfolding requesting_def by blast
    then show ?thesis by (simp add: phase_def)
  next
    case 3 then have "queued c e (f(t := p)) m h q" using q k unfolding queued_def by blast
    then show ?thesis by (simp add: phase_def)
  next
    case 4 then have "granted c e (f(t := p)) m h q" using q k unfolding granted_def by blast
    then show ?thesis by (simp add: phase_def)
  next
    case 5 then have "inside c e (f(t := p)) m h q" using q k unfolding inside_def by blast
    then show ?thesis by (simp add: phase_def)
  next
    case 6 then show ?thesis using q by (simp add: phase_def cached_def)
  next
    case 7 then have "giving_back c e (f(t := p)) m h q" using q k unfolding giving_back_def by blast
    then show ?thesis by (simp add: phase_def)
  qed
qed

section \<open>The stretches of a client\<close>

lemma busy_phase:
  assumes "phase c e f m h q" and "f t = p" and "p \<noteq> Out" "p \<noteq> Blocked"
  shows "p = Calling \<and> (requesting c e f m h q \<or> queued c e f m h q \<or> granted c e f m h q)
    \<or> p = Awaiting \<and> queued c e f m h q \<or> p = Inside \<and> inside c e f m h q
    \<or> p = Releasing \<and> giving_back c e f m h q"
  using assms(1)
proof (cases rule: phaseE)
  case 1 then show ?thesis using assms(2-4) by (auto simp: idle_def quiet_def)
next
  case 2 then show ?thesis using assms(2-4) unfolding requesting_def quiet_def by (metis singletonD)
next
  case 3
  then have "p = Calling \<or> p = Awaiting" using assms(2-4) unfolding queued_def quiet_def by (metis singletonD)
  then show ?thesis using 3 by blast
next
  case 4
  then have "p = Calling" using assms(2-4) unfolding granted_def quiet_def by (metis singletonD)
  then show ?thesis using 4 by blast
next
  case 5
  then have "p = Inside" using assms(2-4) unfolding inside_def quiet_def by (metis singletonD)
  then show ?thesis using 5 by blast
next
  case 6 then show ?thesis using assms(2-4) by (auto simp: cached_def quiet_def)
next
  case 7
  then have "p = Releasing" using assms(2-4) unfolding giving_back_def quiet_def by (metis singletonD)
  then show ?thesis using 7 by blast
qed

lemma lcc_acquire_phase:
  assumes ph: "phase c (lock_at tbl lid) f m h q" and t: "f t = Out \<or> f t = Blocked"
    and run: "lcc_acquire tbl lid = (r, tbl')"
  shows "phase c (lock_at tbl' lid) (f(t := acquire_pc r)) (m + sent_if r (Acq_Req c t)) h q"
proof (cases "c_status (lock_at tbl lid) \<in> {CNone, CFree}")
  case False
  then have "r = Wait_Lock" "lock_at tbl' lid = lock_at tbl lid"
    using run by (auto simp: lcc_acquire_def Let_def split: client_status.splits)
  then show ?thesis using phase_quiet [OF ph t, of Blocked] by (simp add: sent_if_def)
next
  case True
  from ph show ?thesis
  proof (cases rule: phaseE)
    case 1
    then have "requesting c (lock_at tbl' lid) (f(t := acquire_pc r)) (m + sent_if r (Acq_Req c t)) h q"
      using run quiet_enter [of f t Calling] unfolding requesting_def
      by (intro exI [of _ t]) (auto simp: idle_def lcc_defs sent_if_def)
    then show ?thesis by (simp add: phase_def)
  next
    case 6
    then have "inside c (lock_at tbl' lid) (f(t := acquire_pc r)) (m + sent_if r (Acq_Req c t)) h q"
      using run quiet_enter [of f t Inside] unfolding inside_def
      by (intro exI [of _ t]) (auto simp: cached_def lcc_defs sent_if_def due_def)
    then show ?thesis by (simp add: phase_def)
  qed (use True in \<open>auto simp: phase_defs\<close>)
qed

lemma lcc_acquire_reply_phase:
  assumes ph: "phase c (lock_at tbl lid) f m h q" and t: "f t = Calling"
    and msg: "Acq_Rep c t ret \<in># m" and run: "lcc_acquire_reply tbl lid ret = (r, tbl')"
  shows "phase c (lock_at tbl' lid) (f(t := acquire_pc r))
    (m - {#Acq_Rep c t ret#} + sent_if r (Acq_Req c t)) h q"
proof -
  from busy_phase [OF ph t] consider
    "requesting c (lock_at tbl lid) f m h q" | "queued c (lock_at tbl lid) f m h q"
    | "granted c (lock_at tbl lid) f m h q" by auto
  then show ?thesis
  proof cases
    case 1
    then show ?thesis using msg by (auto simp: requesting_def)
  next
    case 2
    then obtain r0 where m: "m = add_mset (Acq_Rep c t LRETRY) r0" and ret: "ret = LRETRY"
      and d: "due (hd q = c \<and> h = None) (c_retry (lock_at tbl lid)) (Retry_Call c) r0"
      and rest: "c_status (lock_at tbl lid) = CAcquiring" "\<not> c_revoke (lock_at tbl lid)" "c \<in> set q"
        "h \<noteq> Some c" "quiet f {t}"
      using msg t by (auto simp: queued_def due_def quiet_def split: if_splits)
    show ?thesis
    proof (cases "c_retry (lock_at tbl lid)")
      case True
      then have "requesting c (lock_at tbl' lid) (f(t := acquire_pc r)) (m - {#Acq_Rep c t ret#} + sent_if r (Acq_Req c t)) h q"
        using run d rest ret m quiet_upd [OF rest(5), of Calling t] unfolding requesting_def
        by (intro exI [of _ t]) (auto simp: lcc_defs sent_if_def due_def split: if_splits)
      then show ?thesis by (simp add: phase_def)
    next
      case False
      then have "queued c (lock_at tbl' lid) (f(t := acquire_pc r)) (m - {#Acq_Rep c t ret#} + sent_if r (Acq_Req c t)) h q"
        using run d rest ret m quiet_upd [OF rest(5), of Awaiting t] unfolding queued_def
        by (intro exI [of _ t] exI [of _ r0]) (auto simp: lcc_defs sent_if_def)
      then show ?thesis by (simp add: phase_def)
    qed
  next
    case 3
    then obtain r0 where m: "m = add_mset (Acq_Rep c t LOK) r0" and ret: "ret = LOK"
      and d: "due (q \<noteq> []) (c_revoke (lock_at tbl lid)) (Revoke_Call c) r0"
      and rest: "\<not> c_retry (lock_at tbl lid)" "h = Some c" "c \<notin> set q" "quiet f {t}"
      using msg t by (auto simp: granted_def due_def quiet_def split: if_splits)
    have "inside c (lock_at tbl' lid) (f(t := acquire_pc r)) (m - {#Acq_Rep c t ret#} + sent_if r (Acq_Req c t)) h q"
      using run d rest ret m quiet_upd [OF rest(4), of Inside t] unfolding inside_def
      by (intro exI [of _ t]) (auto simp: lcc_defs sent_if_def)
    then show ?thesis by (simp add: phase_def)
  qed
qed

lemma lcc_retried_phase:
  assumes ph: "phase c (lock_at tbl lid) f m h q" and t: "f t = Awaiting"
    and run: "lcc_retried tbl lid = (r, tbl')"
  shows "phase c (lock_at tbl' lid) (f(t := acquire_pc r)) (m + sent_if r (Acq_Req c t)) h q"
proof -
  from busy_phase [OF ph t] have qd: "queued c (lock_at tbl lid) f m h q" by simp
  then have d: "due (hd q = c \<and> h = None) (c_retry (lock_at tbl lid)) (Retry_Call c) m"
    and rest: "c_status (lock_at tbl lid) = CAcquiring" "\<not> c_revoke (lock_at tbl lid)" "c \<in> set q"
      "h \<noteq> Some c" "quiet f {t}"
    using t unfolding queued_def by (auto dest: quiet_one [of f _ t, OF _ t])
  show ?thesis
  proof (cases "c_retry (lock_at tbl lid)")
    case True
    then have "requesting c (lock_at tbl' lid) (f(t := acquire_pc r)) (m + sent_if r (Acq_Req c t)) h q"
      using run d rest quiet_upd [OF rest(5), of Calling t] unfolding requesting_def
      by (intro exI [of _ t]) (auto simp: lcc_defs sent_if_def due_def split: if_splits)
    then show ?thesis by (simp add: phase_def)
  next
    case False
    then have "r = Wait_Retry" "tbl' = tbl" using run by (auto simp: lcc_retried_def)
    then show ?thesis using ph t by (simp add: sent_if_def fun_upd_idem)
  qed
qed

lemma lcc_release_phase:
  assumes ph: "phase c (lock_at tbl lid) f m h q" and t: "f t = Inside"
    and run: "lcc_release lu tbl lid = Inr (r, tbl')"
  shows "phase c (lock_at tbl' lid) (f(t := release_pc r)) (m + sent_if r (Rel_Req c t)) h q"
proof -
  from busy_phase [OF ph t] have "inside c (lock_at tbl lid) f m h q" by simp
  then have rest: "\<not> c_retry (lock_at tbl lid)" "h = Some c" "c \<notin> set q" "quiet f {t}"
    and st: "c_status (lock_at tbl lid) = CLocked \<and> due (q \<noteq> []) (c_revoke (lock_at tbl lid)) (Revoke_Call c) m
        \<or> c_status (lock_at tbl lid) = CReleasing \<and> \<not> c_revoke (lock_at tbl lid) \<and> m = {#} \<and> q \<noteq> []"
    using t unfolding inside_def by (auto dest: quiet_one [of f _ t, OF _ t])
  obtain e where e: "tbl lid = Some e" "lock_at tbl lid = e"
    using st by (cases "tbl lid") (auto simp: lock_at_def client_lock_ctor_def)
  consider "c_revoke e" | "\<not> c_revoke e" "c_status e = CLocked" | "\<not> c_revoke e" "c_status e = CReleasing"
    using st e by blast
  then show ?thesis
  proof cases
    case 1
    then have "giving_back c (lock_at tbl' lid) (f(t := release_pc r)) (m + sent_if r (Rel_Req c t)) h q"
      using run rest st e quiet_upd [OF rest(4), of Releasing t] unfolding giving_back_def
      by (intro exI [of _ t]) (auto simp: lcc_defs sent_if_def due_def split: if_splits)
    then show ?thesis by (simp add: phase_def)
  next
    case 2
    then have "cached c (lock_at tbl' lid) (f(t := release_pc r)) (m + sent_if r (Rel_Req c t)) h q"
      using run rest st e quiet_leave [OF rest(4), of Out] unfolding cached_def
      by (auto simp: lcc_defs sent_if_def due_def split: if_splits)
    then show ?thesis by (simp add: phase_def)
  next
    case 3
    then have "giving_back c (lock_at tbl' lid) (f(t := release_pc r)) (m + sent_if r (Rel_Req c t)) h q"
      using run rest st e quiet_upd [OF rest(4), of Releasing t] unfolding giving_back_def
      by (intro exI [of _ t]) (auto simp: lcc_defs sent_if_def split: if_splits)
    then show ?thesis by (simp add: phase_def)
  qed
qed

lemma lcc_released_phase:
  assumes ph: "phase c (lock_at tbl lid) f m h q" and t: "f t = Releasing" and msg: "Rel_Rep c t \<in># m"
  shows "phase c (lock_at (lcc_released tbl lid) lid) (f(t := Out)) (m - {#Rel_Rep c t#}) h q"
proof -
  from busy_phase [OF ph t] have "giving_back c (lock_at tbl lid) f m h q" by simp
  then have rest: "\<not> c_revoke (lock_at tbl lid)" "\<not> c_retry (lock_at tbl lid)" "c \<notin> set q" "quiet f {t}"
    "h \<noteq> Some c" "m = {#Rel_Rep c t#}"
    using t msg unfolding giving_back_def by (auto dest: quiet_one [of f _ t, OF _ t])
  then have "idle c (lock_at (lcc_released tbl lid) lid) (f(t := Out)) (m - {#Rel_Rep c t#}) h q"
    using quiet_leave [OF rest(4), of Out] by (simp add: idle_def lcc_released_def)
  then show ?thesis by (simp add: phase_def)
qed

text \<open>A revoke call finds the client waiting for its grant, holding the lock or caching it.\<close>

lemma lcc_revoke_phase:
  assumes ph: "phase c (lock_at tbl lid) f m h q" and t: "f t = Out" and msg: "Revoke_Call c \<in># m"
    and run: "lcc_revoke lu tbl lid = Inr (r, tbl')"
  shows "phase c (lock_at tbl' lid) (f(t := release_pc r)) (m - {#Revoke_Call c#} + sent_if r (Rel_Req c t)) h q"
  using ph
proof (cases rule: phaseE)
  case 4
  then obtain u r0 where u: "c_status (lock_at tbl lid) = CAcquiring" "\<not> c_retry (lock_at tbl lid)" "h = Some c"
    "c \<notin> set q" "f u = Calling" "quiet f {u}" "m = add_mset (Acq_Rep c u LOK) r0"
    "due (q \<noteq> []) (c_revoke (lock_at tbl lid)) (Revoke_Call c) r0"
    unfolding granted_def by blast
  have r: "r = Return LOK" "lock_at tbl' lid = (lock_at tbl lid)\<lparr>c_revoke := True\<rparr>"
    using run u(1) by (auto simp: lcc_revoke_def Let_def)
  have "granted c (lock_at tbl' lid) (f(t := Out)) (m - {#Revoke_Call c#}) h q"
    using u msg t r quiet_upd [OF u(6), of Out t] unfolding granted_def
    by (intro exI [of _ u] exI [of _ "{#}"]) (auto simp: due_def split: if_splits)
  then show ?thesis using r(1) by (simp add: phase_def sent_if_def)
next
  case 5
  then obtain u where u: "\<not> c_retry (lock_at tbl lid)" "h = Some c" "c \<notin> set q" "f u = Inside" "quiet f {u}"
    "c_status (lock_at tbl lid) = CLocked" "due (q \<noteq> []) (c_revoke (lock_at tbl lid)) (Revoke_Call c) m"
    using msg by (auto simp: inside_def)
  have r: "r = Return LOK" "lock_at tbl' lid = (lock_at tbl lid)\<lparr>c_status := CReleasing\<rparr>"
    using run u(6) by (auto simp: lcc_revoke_def Let_def)
  have "inside c (lock_at tbl' lid) (f(t := Out)) (m - {#Revoke_Call c#}) h q"
    using u msg t r quiet_upd [OF u(5), of Out t] unfolding inside_def
    by (intro exI [of _ u]) (auto simp: due_def split: if_splits)
  then show ?thesis using r(1) by (simp add: phase_def sent_if_def)
next
  case 6
  then have u: "c_status (lock_at tbl lid) = CFree" "\<not> c_revoke (lock_at tbl lid)" "\<not> c_retry (lock_at tbl lid)"
    "h = Some c" "c \<notin> set q" "quiet f {}" "m = {#Revoke_Call c#}" "q \<noteq> []"
    using msg by (auto simp: cached_def split: if_splits)
  have r: "r = Flush_Call" "lock_at tbl' lid = (lock_at tbl lid)\<lparr>c_status := CReleasing\<rparr>"
    using run u(1) by (auto simp: lcc_revoke_def dorelease_call_def Let_def split: if_splits)
  have "giving_back c (lock_at tbl' lid) (f(t := Releasing)) {#Rel_Req c t#} h q"
    using u r quiet_enter [OF u(6), of t Releasing] unfolding giving_back_def by (intro exI [of _ t]) simp
  then show ?thesis using r(1) u(7) by (simp add: phase_def sent_if_def)
qed (use msg in \<open>auto simp: phase_defs due_def split: if_splits\<close>)

lemma lcc_retry_phase:
  assumes ph: "phase c (lock_at tbl lid) f m h q" and t: "f t = Out" and msg: "Retry_Call c \<in># m"
  shows "phase c (lock_at (lcc_retry tbl lid) lid) (f(t := Out)) (m - {#Retry_Call c#}) h q"
  using ph
proof (cases rule: phaseE)
  case 3
  then obtain u r0 where u: "c_status (lock_at tbl lid) = CAcquiring" "\<not> c_revoke (lock_at tbl lid)" "c \<in> set q"
    "h \<noteq> Some c" "quiet f {u}" "f u = Calling \<and> m = add_mset (Acq_Rep c u LRETRY) r0 \<or> f u = Awaiting \<and> m = r0"
    "due (hd q = c \<and> h = None) (c_retry (lock_at tbl lid)) (Retry_Call c) r0"
    unfolding queued_def by blast
  have r0: "r0 = {#Retry_Call c#}" "hd q = c \<and> h = None" using u(6,7) msg by (auto simp: due_def split: if_splits)
  have "queued c (lock_at (lcc_retry tbl lid) lid) (f(t := Out)) (m - {#Retry_Call c#}) h q"
    using u r0 t quiet_upd [OF u(5), of Out t] unfolding queued_def
    by (intro exI [of _ u] exI [of _ "{#}"]) (auto simp: due_def lcc_retry_def)
  then show ?thesis by (simp add: phase_def)
qed (use msg in \<open>auto simp: phase_defs due_def split: if_splits\<close>)

section \<open>The handlers of the server\<close>

lemma queue_acquire_cases:
  assumes req: "c \<notin> set q \<and> h \<noteq> Some c \<or> q \<noteq> [] \<and> hd q = c \<and> h = None"
    and run: "queue_acquire c (h, q) = (ret, rv, h', q')"
  obtains (fresh) "h = None" "q = []" "ret = LOK" "rv = None" "h' = Some c" "q' = []"
  | (first) x where "h = Some x" "x \<noteq> c" "q = []" "ret = LRETRY" "rv = Some x" "h' = Some x" "q' = [c]"
  | (front) "h = None" "q = c # q'" "ret = LOK" "rv = (if q' = [] then None else Some c)" "h' = Some c"
  | (later) "q \<noteq> []" "hd q \<noteq> c" "c \<notin> set q" "h \<noteq> Some c" "ret = LRETRY" "rv = None" "h' = h" "q' = q @ [c]"
proof (cases q)
  case Nil
  then show thesis using req run fresh first by (cases h) auto
next
  case (Cons y ys)
  show thesis
  proof (cases "y = c")
    case True
    then have "ret = LOK \<and> rv = (if ys = [] then None else Some c) \<and> h' = Some c \<and> q' = ys" "h = None"
      using Cons req run by auto
    then show thesis using True Cons by (intro front) simp_all
  next
    case False
    then have n: "c \<notin> set q" "h \<noteq> Some c" using Cons req by auto
    then have "ret = LRETRY \<and> rv = None \<and> h' = h \<and> q' = q @ [c]" using False Cons run by auto
    then show thesis using False Cons n by (intro later) simp_all
  qed
qed

lemma serve_acquire_self:
  assumes ph: "phase c e f m h q" and msg: "Acq_Req c t \<in># m" and dist: "distinct q"
    and run: "queue_acquire c (h, q) = (ret, rv, h', q')"
  shows "phase c e f (m - {#Acq_Req c t#} + ({#Acq_Rep c t ret#} + (if rv = Some c then {#Revoke_Call c#} else {#}))) h' q'"
    and "c \<notin> set q \<and> h \<noteq> Some c \<or> q \<noteq> [] \<and> hd q = c \<and> h = None"
proof -
  have rq: "requesting c e f m h q"
    using ph by (cases rule: phaseE) (use msg in \<open>auto simp: phase_defs due_def split: if_splits\<close>)
  then have rest: "c_status e = CAcquiring" "\<not> c_revoke e" "\<not> c_retry e" "m = {#Acq_Req c t#}" "f t = Calling"
    "quiet f {t}"
    and pos: "c \<notin> set q \<and> h \<noteq> Some c \<or> q \<noteq> [] \<and> hd q = c \<and> h = None"
    using msg unfolding requesting_def by auto
  show "c \<notin> set q \<and> h \<noteq> Some c \<or> q \<noteq> [] \<and> hd q = c \<and> h = None" by (rule pos)
  show "phase c e f (m - {#Acq_Req c t#} + ({#Acq_Rep c t ret#} + (if rv = Some c then {#Revoke_Call c#} else {#}))) h' q'"
    using pos run
  proof (cases rule: queue_acquire_cases)
    case fresh
    then have "granted c e f {#Acq_Rep c t LOK#} h' q'"
      using rest unfolding granted_def by (intro exI [of _ t] exI [of _ "{#}"]) (simp add: due_def)
    then show ?thesis using rest(4) fresh by (simp add: phase_def)
  next
    case (first x)
    then have "queued c e f {#Acq_Rep c t LRETRY#} h' q'"
      using rest unfolding queued_def by (intro exI [of _ t] exI [of _ "{#}"]) (simp add: due_def)
    then show ?thesis using rest(4) first by (simp add: phase_def)
  next
    case front
    then have "granted c e f (add_mset (Acq_Rep c t LOK) (if q' = [] then {#} else {#Revoke_Call c#})) h' q'"
      using rest dist unfolding granted_def
      by (intro exI [of _ t] exI [of _ "if q' = [] then {#} else {#Revoke_Call c#}"]) (simp add: due_def)
    then show ?thesis using rest(4) front by (cases "q' = []") (simp_all add: phase_def add_mset_commute)
  next
    case later
    then have "queued c e f {#Acq_Rep c t LRETRY#} h' q'"
      using rest unfolding queued_def by (intro exI [of _ t] exI [of _ "{#}"]) (simp add: due_def)
    then show ?thesis using rest(4) later by (simp add: phase_def)
  qed
qed

lemma serve_acquire_other:
  assumes ph: "phase d e f m h q" and other: "d \<noteq> c" and dist: "distinct q"
    and pos: "c \<notin> set q \<and> h \<noteq> Some c \<or> q \<noteq> [] \<and> hd q = c \<and> h = None"
    and run: "queue_acquire c (h, q) = (ret, rv, h', q')"
  shows "phase d e f (m + (if rv = Some d then {#Revoke_Call d#} else {#})) h' q'"
  using pos run
proof (cases rule: queue_acquire_cases)
  case fresh
  then show ?thesis
    using ph other by (auto simp: phase_def phase_defs due_def)
next
  case (first x)
  show ?thesis
  proof (cases "x = d")
    case True
    from ph show ?thesis
    proof (cases rule: phaseE)
      case 4
      then have "granted d e f (m + {#Revoke_Call d#}) h' q'"
        using first other unfolding granted_def by (auto simp: due_def)
      then show ?thesis using first True by (simp add: phase_def)
    next
      case 5
      then have "inside d e f (m + {#Revoke_Call d#}) h' q'"
        using first other unfolding inside_def by (auto simp: due_def)
      then show ?thesis using first True by (simp add: phase_def)
    next
      case 6
      then have "cached d e f (m + {#Revoke_Call d#}) h' q'"
        using first other by (auto simp: cached_def)
      then show ?thesis using first True by (simp add: phase_def)
    qed (use first True in \<open>auto simp: phase_defs\<close>)
  next
    case False
    then show ?thesis using ph first other by (auto simp: phase_def phase_defs due_def)
  qed
next
  case front
  then have d: "hd q \<noteq> d" "c \<notin> set q'" using other dist by auto
  from ph show ?thesis
  proof (cases rule: phaseE)
    case 3
    then show ?thesis using front other d by (auto simp: phase_def queued_def due_def)
  qed (use front other d in \<open>auto simp: phase_def phase_defs due_def\<close>)
next
  case later
  then have "hd q' = hd q" "q' \<noteq> []" "d \<in> set q' \<longleftrightarrow> d \<in> set q" using other by auto
  then show ?thesis using ph later other by (auto simp: phase_def phase_defs due_def)
qed

lemma serve_release_self:
  assumes ph: "phase c e f m h q" and msg: "Rel_Req c t \<in># m"
    and run: "queue_release c (h, q) = (rt, h', q')"
  shows "phase c e f (m - {#Rel_Req c t#} + {#Rel_Rep c t#}) h' q'"
    and "h = Some c" "h' = None" "q' = q" "rt = Some (hd q)" "q \<noteq> []" "hd q \<noteq> c"
proof -
  have gb: "giving_back c e f m h q"
    using ph by (cases rule: phaseE) (use msg in \<open>auto simp: phase_defs due_def split: if_splits\<close>)
  then have rest: "c_status e = CLocked \<or> c_status e = CReleasing" "\<not> c_revoke e" "\<not> c_retry e" "c \<notin> set q"
    "f t = Releasing" "quiet f {t}" "h = Some c" "q \<noteq> []" "m = {#Rel_Req c t#}"
    using msg by (auto simp: giving_back_def)
  then show "h = Some c" "h' = None" "q' = q" "rt = Some (hd q)" "q \<noteq> []" "hd q \<noteq> c"
    using run by auto
  have "giving_back c e f {#Rel_Rep c t#} h' q'"
    using rest run unfolding giving_back_def by (intro exI [of _ t]) auto
  then show "phase c e f (m - {#Rel_Req c t#} + {#Rel_Rep c t#}) h' q'"
    using rest(9) by (simp add: phase_def)
qed

lemma serve_release_other:
  assumes ph: "phase d e f m (Some c) q" and other: "d \<noteq> c" and q: "q \<noteq> []"
  shows "phase d e f (m + (if hd q = d then {#Retry_Call d#} else {#})) None q"
  using ph
proof (cases rule: phaseE)
  case 3
  then obtain t r where u: "c_status e = CAcquiring" "\<not> c_revoke e" "d \<in> set q" "quiet f {t}"
    "f t = Calling \<and> m = add_mset (Acq_Rep d t LRETRY) r \<or> f t = Awaiting \<and> m = r"
    "r = {#}" "\<not> c_retry e"
    by (auto simp: queued_def due_def)
  have "queued d e f (m + (if hd q = d then {#Retry_Call d#} else {#})) None q"
    using u unfolding queued_def
    by (intro exI [of _ t] exI [of _ "if hd q = d then {#Retry_Call d#} else {#}"]) (auto simp: due_def)
  then show ?thesis by (simp add: phase_def)
qed (use other q in \<open>auto simp: phase_def phase_defs\<close>)

section \<open>The invariant of the system\<close>

definition mail :: "string \<Rightarrow> msg multiset \<Rightarrow> msg multiset" where
  "mail c N = filter_mset (\<lambda>x. party x = c) N"

lemma mail_simps [simp]:
  "mail c {#} = {#}" "mail c (M + N) = mail c M + mail c N" "mail c (M - N) = mail c M - mail c N"
  "mail c (add_mset x N) = (if party x = c then add_mset x (mail c N) else mail c N)"
  by (simp_all add: mail_def)

lemma mail_sent_if [simp]: "mail d (sent_if r x) = (if party x = d then sent_if r x else {#})"
  by (simp add: sent_if_def)

lemma mail_call_to:
  "mail d (call_to Revoke_Call rv) = (if rv = Some d then {#Revoke_Call d#} else {#})"
  "mail d (call_to Retry_Call rv) = (if rv = Some d then {#Retry_Call d#} else {#})"
  by (auto simp: call_to_def split: option.splits)

definition client_phase :: "lockid \<Rightarrow> lock_sys \<Rightarrow> string \<Rightarrow> bool" where
  "client_phase lid \<sigma> c = phase c (lock_at (ctab \<sigma> c) lid) (pcs \<sigma> c) (mail c (net \<sigma>))
     (fst (abs_lock (srv \<sigma>) lid)) (snd (abs_lock (srv \<sigma>) lid))"

definition sys_inv :: "lockid \<Rightarrow> lock_sys \<Rightarrow> bool" where
  "sys_inv lid \<sigma> \<longleftrightarrow> lock_inv (srv \<sigma>) \<and> (\<forall>c. c \<noteq> [] \<longrightarrow> client_phase lid \<sigma> c)
     \<and> mail [] (net \<sigma>) = {#} \<and> (\<forall>t. pcs \<sigma> [] t = Out)"

lemma sys_inv_init: "sys_inv lid (lock_sys_init junk)"
  by (simp add: sys_inv_def lock_sys_init_def lock_inv_ctor client_phase_def phase_def idle_def
      lock_at_def client_lock_ctor_def quiet_def abs_lock_def lsc_ctor_def lock_inv_def)

lemma abs_lock_distinct: "lock_inv sv \<Longrightarrow> distinct (snd (abs_lock sv lid)) \<and> [] \<notin> set (snd (abs_lock sv lid))"
  by (auto simp: abs_lock_def lock_of_def lock_inv_def entry_inv_def split: option.splits)

lemma client_move_inv:
  assumes inv: "sys_inv lid \<sigma>" and c: "c \<noteq> []"
    and own: "\<forall>x \<in># got. party x = c" "\<forall>x \<in># sent. party x = c"
    and ph: "client_phase lid \<sigma> c \<Longrightarrow>
      phase c (lock_at tbl lid) ((pcs \<sigma> c)(t := p)) (mail c (net \<sigma>) - got + sent)
        (fst (abs_lock (srv \<sigma>) lid)) (snd (abs_lock (srv \<sigma>) lid))"
  shows "sys_inv lid (client_move c t tbl p got sent \<sigma>)"
proof -
  have m: "mail c got = got" "mail c sent = sent" "d \<noteq> c \<Longrightarrow> mail d got = {#}" "d \<noteq> c \<Longrightarrow> mail d sent = {#}" for d
    using own by (auto simp: mail_def filter_mset_eq_conv)
  have "client_phase lid (client_move c t tbl p got sent \<sigma>) d" if d: "d \<noteq> []" for d
  proof (cases "d = c")
    case True
    then show ?thesis
      using ph inv c m by (simp add: client_phase_def client_move_def sys_inv_def)
  next
    case False
    then show ?thesis
      using inv d m by (simp add: client_phase_def client_move_def sys_inv_def)
  qed
  then show ?thesis
    using inv c m(3,4) [of "[]"] by (simp add: sys_inv_def client_move_def)
qed

lemma in_mail: "x \<in># N \<Longrightarrow> party x = c \<Longrightarrow> x \<in># mail c N"
  by (simp add: mail_def)

lemma party_not_empty: "sys_inv lid \<sigma> \<Longrightarrow> x \<in># net \<sigma> \<Longrightarrow> party x \<noteq> []"
  using in_mail [of x "net \<sigma>" "[]"] by (auto simp: sys_inv_def)

lemma pc_not_empty: "sys_inv lid \<sigma> \<Longrightarrow> pcs \<sigma> c t = p \<Longrightarrow> p \<noteq> Out \<Longrightarrow> c \<noteq> []"
  by (auto simp: sys_inv_def)

lemma serve_acquire_inv:
  assumes inv: "sys_inv lid \<sigma>" and msg: "Acq_Req c t \<in># net \<sigma>"
    and run: "lsc_acquire (srv \<sigma>) lid c = Inr (ret, rv, sv)"
  shows "sys_inv lid (\<sigma>\<lparr>srv := sv, net := net \<sigma> - {#Acq_Req c t#} + ({#Acq_Rep c t ret#} + call_to Revoke_Call rv)\<rparr>)"
    (is "sys_inv lid ?\<sigma>'")
proof -
  obtain h q where hq: "abs_lock (srv \<sigma>) lid = (h, q)" by (cases "abs_lock (srv \<sigma>) lid")
  obtain h' q' where hq': "abs_lock sv lid = (h', q')" by (cases "abs_lock sv lid")
  have c: "c \<noteq> []" using party_not_empty [OF inv msg] by simp
  have li: "lock_inv (srv \<sigma>)" and ph: "client_phase lid \<sigma> d" if "d \<noteq> []" for d
    using inv c that by (auto simp: sys_inv_def)
  from acquire_refines [OF li [OF c] c, of lid] run hq hq'
  have qa: "queue_acquire c (h, q) = (ret, rv, h', q')" and li': "lock_inv sv" by auto
  have dist: "distinct q" and ne: "[] \<notin> set q" using abs_lock_distinct [OF li [OF c], of lid] hq by auto
  have phc: "phase c (lock_at (ctab \<sigma> c) lid) (pcs \<sigma> c) (mail c (net \<sigma>)) h q"
    using ph [OF c] hq by (simp add: client_phase_def)
  note self = serve_acquire_self [OF phc in_mail [OF msg, of c, simplified] dist qa]
  have "client_phase lid ?\<sigma>' d" if d: "d \<noteq> []" for d
  proof (cases "d = c")
    case True
    then show ?thesis using self(1) hq' by (simp add: client_phase_def mail_call_to)
  next
    case False
    have "phase d (lock_at (ctab \<sigma> d) lid) (pcs \<sigma> d) (mail d (net \<sigma>)) h q"
      using ph [OF d] hq by (simp add: client_phase_def)
    from serve_acquire_other [OF this False dist self(2) qa] False show ?thesis
      using hq' by (simp add: client_phase_def mail_call_to)
  qed
  moreover have "rv \<noteq> Some []"
  proof
    assume "rv = Some []"
    with self(2) qa have "h = Some [] \<and> q = []"
      by (cases rule: queue_acquire_cases) (use c in \<open>auto split: if_splits\<close>)
    then show False using hq by (auto simp: abs_lock_def lock_of_def split: option.splits if_splits)
  qed
  ultimately show ?thesis
    using inv c li' by (simp add: sys_inv_def mail_call_to)
qed

lemma serve_release_inv:
  assumes inv: "sys_inv lid \<sigma>" and msg: "Rel_Req c t \<in># net \<sigma>"
    and run: "lsc_release (srv \<sigma>) lid c = (ret, rt, sv)"
  shows "sys_inv lid (\<sigma>\<lparr>srv := sv, net := net \<sigma> - {#Rel_Req c t#} + ({#Rel_Rep c t#} + call_to Retry_Call rt)\<rparr>)"
    (is "sys_inv lid ?\<sigma>'")
proof -
  obtain h q where hq: "abs_lock (srv \<sigma>) lid = (h, q)" by (cases "abs_lock (srv \<sigma>) lid")
  obtain h' q' where hq': "abs_lock sv lid = (h', q')" by (cases "abs_lock sv lid")
  have c: "c \<noteq> []" using party_not_empty [OF inv msg] by simp
  have li: "lock_inv (srv \<sigma>)" and ph: "client_phase lid \<sigma> d" if "d \<noteq> []" for d
    using inv c that by (auto simp: sys_inv_def)
  from release_refines [OF li [OF c] c, of lid] run hq hq'
  have qr: "queue_release c (h, q) = (rt, h', q')" and li': "lock_inv sv" by auto
  have ne: "[] \<notin> set q" using abs_lock_distinct [OF li [OF c], of lid] hq by auto
  have phc: "phase c (lock_at (ctab \<sigma> c) lid) (pcs \<sigma> c) (mail c (net \<sigma>)) h q"
    using ph [OF c] hq by (simp add: client_phase_def)
  note self = serve_release_self [OF phc in_mail [OF msg, of c, simplified] qr]
  have "client_phase lid ?\<sigma>' d" if d: "d \<noteq> []" for d
  proof (cases "d = c")
    case True
    then show ?thesis using self hq' by (simp add: client_phase_def mail_call_to)
  next
    case False
    have "phase d (lock_at (ctab \<sigma> d) lid) (pcs \<sigma> d) (mail d (net \<sigma>)) (Some c) q"
      using ph [OF d] hq self(2) by (simp add: client_phase_def)
    from serve_release_other [OF this False self(6)] False show ?thesis
      using hq' self by (simp add: client_phase_def mail_call_to)
  qed
  moreover have "rt \<noteq> Some []" using self(5,6) ne hd_in_set [of q] by (metis option.inject)
  ultimately show ?thesis
    using inv c li' by (simp add: sys_inv_def mail_call_to)
qed

lemma lock_step_inv:
  assumes step: "lock_step_of lu lid \<sigma> \<sigma>'" and inv: "sys_inv lid \<sigma>"
  shows "sys_inv lid \<sigma>'"
  using step
proof cases
  case (acquire c t r tbl)
  then show ?thesis
    using inv lcc_acquire_phase [OF _ _ acquire(4)]
    by (auto intro!: client_move_inv simp: client_phase_def sent_if_def)
next
  case (acquire_reply c t ret r tbl)
  then show ?thesis
    using inv pc_not_empty [OF inv acquire_reply(2)] lcc_acquire_reply_phase [OF _ _ _ acquire_reply(4)] in_mail [OF acquire_reply(3)]
    by (auto intro!: client_move_inv simp: client_phase_def sent_if_def)
next
  case (retried c t r tbl)
  then show ?thesis
    using inv pc_not_empty [OF inv retried(2)] lcc_retried_phase [OF _ _ retried(3)]
    by (auto intro!: client_move_inv simp: client_phase_def sent_if_def)
next
  case (release c t r tbl)
  then show ?thesis
    using inv pc_not_empty [OF inv release(2)] lcc_release_phase [OF _ _ release(3)]
    by (auto intro!: client_move_inv simp: client_phase_def sent_if_def)
next
  case (released c t)
  then show ?thesis
    using inv pc_not_empty [OF inv released(2)] lcc_released_phase [of c "ctab \<sigma> c" lid] in_mail [OF released(3)]
    by (auto intro!: client_move_inv simp: client_phase_def sent_if_def)
next
  case (revoke c t r tbl)
  then show ?thesis
    using inv party_not_empty [OF inv revoke(2)] lcc_revoke_phase [OF _ _ _ revoke(4)] in_mail [OF revoke(2)]
    by (auto intro!: client_move_inv simp: client_phase_def sent_if_def)
next
  case (retry c t)
  then show ?thesis
    using inv party_not_empty [OF inv retry(2)] lcc_retry_phase [of c "ctab \<sigma> c" lid] in_mail [OF retry(2)]
    by (auto intro!: client_move_inv simp: client_phase_def sent_if_def)
next
  case (serve_acquire c t ret rv sv)
  then show ?thesis using serve_acquire_inv [OF inv] by simp
next
  case (serve_release c t ret rt sv)
  then show ?thesis using serve_release_inv [OF inv] by simp
qed

section \<open>Reachable states\<close>

inductive lock_reach_of :: "(string \<Rightarrow> bool) \<Rightarrow> lockid \<Rightarrow> lock_sys \<Rightarrow> bool" for lu lid where
  lock_init: "lock_reach_of lu lid (lock_sys_init junk)"
| lock_next: "lock_reach_of lu lid \<sigma> \<Longrightarrow> lock_step_of lu lid \<sigma> \<sigma>' \<Longrightarrow> lock_reach_of lu lid \<sigma>'"

abbreviation lock_reach :: "lockid \<Rightarrow> lock_sys \<Rightarrow> bool" where
  "lock_reach \<equiv> lock_reach_of (\<lambda>_. True)"

lemma lock_reach_inv: "lock_reach_of lu lid \<sigma> \<Longrightarrow> sys_inv lid \<sigma>"
  by (induction rule: lock_reach_of.induct) (auto intro: sys_inv_init lock_step_inv)

definition in_section :: "lock_sys \<Rightarrow> string \<times> nat \<Rightarrow> bool" where
  "in_section \<sigma> = (\<lambda>(c, t). pcs \<sigma> c t = Inside)"

lemma inside_holder:
  assumes inv: "sys_inv lid \<sigma>" and t: "pcs \<sigma> c t = Inside"
  shows "fst (abs_lock (srv \<sigma>) lid) = Some c" and "quiet (pcs \<sigma> c) {t}"
proof -
  have c: "c \<noteq> []" using pc_not_empty [OF inv t] by simp
  then have "client_phase lid \<sigma> c" using inv by (simp add: sys_inv_def)
  from busy_phase [OF this [unfolded client_phase_def] t] have
    "inside c (lock_at (ctab \<sigma> c) lid) (pcs \<sigma> c) (mail c (net \<sigma>))
      (fst (abs_lock (srv \<sigma>) lid)) (snd (abs_lock (srv \<sigma>) lid))" by simp
  then show "fst (abs_lock (srv \<sigma>) lid) = Some c" "quiet (pcs \<sigma> c) {t}"
    using t unfolding inside_def by (auto dest: quiet_one [of "pcs \<sigma> c" _ t, OF _ t])
qed

text \<open>Only one thread of one client is in its section.\<close>

lemma inside_unique:
  assumes inv: "sys_inv lid \<sigma>" and c: "pcs \<sigma> c t = Inside" and d: "pcs \<sigma> d u = Inside"
  shows "c = d \<and> t = u"
proof -
  have "c = d" using inside_holder(1) [OF inv c] inside_holder(1) [OF inv d] by simp
  then show ?thesis using quiet_one [of "pcs \<sigma> c" t u Inside] inside_holder(2) [OF inv c] d by simp
qed

interpretation caching: lock_service "lock_reach_of lu lid" "lock_step_of lu lid" in_section for lu lid
proof
  show "lock_reach_of lu lid s'" if "lock_reach_of lu lid s" "lock_step_of lu lid s s'" for s s'
    using that by (rule lock_next)
  show "x = y" if r: "lock_reach_of lu lid s" and x: "in_section s x" and y: "in_section s y" for s x y
    using inside_unique [OF lock_reach_inv [OF r]] x y by (cases x; cases y) (auto simp: in_section_def)
qed

section \<open>Progress\<close>

text \<open>
  What the receiver of a message is prepared for. A call to the server comes from a thread that waits for
  its answer, and a release from the holder; an answer finds its thread waiting; a revoke call is for the
  holder of a lock that others wait for, and finds it asking, inside or caching the lock, never without it;
  a retry call is for the front of the queue of a free lock, which has a thread that waits.
\<close>

fun expected :: "lockid \<Rightarrow> lock_sys \<Rightarrow> msg \<Rightarrow> bool" where
  "expected lid \<sigma> (Acq_Req c t) \<longleftrightarrow> pcs \<sigma> c t = Calling \<and> (\<exists>ret rv sv. lsc_acquire (srv \<sigma>) lid c = Inr (ret, rv, sv))"
| "expected lid \<sigma> (Acq_Rep c t ret) \<longleftrightarrow> pcs \<sigma> c t = Calling \<and> ret \<in> {LOK, LRETRY}"
| "expected lid \<sigma> (Rel_Req c t) \<longleftrightarrow> pcs \<sigma> c t = Releasing \<and> fst (abs_lock (srv \<sigma>) lid) = Some c"
| "expected lid \<sigma> (Rel_Rep c t) \<longleftrightarrow> pcs \<sigma> c t = Releasing \<and> fst (abs_lock (srv \<sigma>) lid) \<noteq> Some c"
| "expected lid \<sigma> (Revoke_Call c) \<longleftrightarrow> fst (abs_lock (srv \<sigma>) lid) = Some c \<and> snd (abs_lock (srv \<sigma>) lid) \<noteq> []
     \<and> c_status (lock_at (ctab \<sigma> c) lid) \<in> {CAcquiring, CLocked, CFree}"
| "expected lid \<sigma> (Retry_Call c) \<longleftrightarrow> fst (abs_lock (srv \<sigma>) lid) = None \<and> snd (abs_lock (srv \<sigma>) lid) \<noteq> []
     \<and> hd (snd (abs_lock (srv \<sigma>) lid)) = c \<and> (\<exists>t. pcs \<sigma> c t = Calling \<or> pcs \<sigma> c t = Awaiting)"

text \<open>Some step takes the message off the network; only the step of its receiver can.\<close>

definition consumed :: "lockid \<Rightarrow> lock_sys \<Rightarrow> msg \<Rightarrow> bool" where
  "consumed lid \<sigma> x \<longleftrightarrow> (\<exists>\<sigma>'. lock_step lid \<sigma> \<sigma>' \<and> count (net \<sigma>') x < count (net \<sigma>) x)"

text \<open>\<open>free_thread\<close>: every client has a thread of its RPC library for the calls of the server.\<close>

definition free_thread :: "lock_sys \<Rightarrow> bool" where
  "free_thread \<sigma> \<longleftrightarrow> (\<forall>c. \<exists>t. pcs \<sigma> c t = Out)"

lemma consumedI:
  assumes "lock_step lid \<sigma> \<sigma>'" and "net \<sigma>' = net \<sigma> - {#x#} + new" and "x \<in># net \<sigma>" and "x \<notin># new"
  shows "consumed lid \<sigma> x"
proof -
  have "count (net \<sigma>') x < count (net \<sigma>) x"
    using assms(3,4) by (simp add: assms(2) not_in_iff)
  then show ?thesis using assms(1) unfolding consumed_def by blast
qed

lemma message_place:
  assumes ph: "phase c e f m h q" and x: "x \<in># m"
  obtains t where "x = Acq_Req c t" "f t = Calling"
  | t ret where "x = Acq_Rep c t ret" "f t = Calling" "ret \<in> {LOK, LRETRY}"
  | t where "x = Rel_Req c t" "f t = Releasing" "h = Some c"
  | t where "x = Rel_Rep c t" "f t = Releasing" "h \<noteq> Some c"
  | "x = Revoke_Call c" "h = Some c" "q \<noteq> []" "c_status e \<in> {CAcquiring, CLocked, CFree}"
  | t where "x = Retry_Call c" "h = None" "q \<noteq> []" "hd q = c" "f t = Calling \<or> f t = Awaiting"
  using ph
proof (cases rule: phaseE)
  case 3
  then obtain t r where u: "c \<in> set q" "f t = Calling \<and> m = add_mset (Acq_Rep c t LRETRY) r \<or> f t = Awaiting \<and> m = r"
    "due (hd q = c \<and> h = None) (c_retry e) (Retry_Call c) r"
    unfolding queued_def by blast
  have "q \<noteq> []" using u(1) by auto
  have r: "x \<in># r \<Longrightarrow> x = Retry_Call c \<and> hd q = c \<and> h = None" using u(3) by (auto simp: due_def split: if_splits)
  have "x = Acq_Rep c t LRETRY \<and> f t = Calling \<or> x = Retry_Call c \<and> hd q = c \<and> h = None \<and> (f t = Calling \<or> f t = Awaiting)"
    using u(2) x r by auto
  then show thesis using that(2,6) \<open>q \<noteq> []\<close> by blast
qed (use x that in \<open>auto simp: phase_defs due_def split: if_splits\<close>)

lemma message_taken_up:
  assumes inv: "sys_inv lid \<sigma>" and free: "free_thread \<sigma>" and x: "x \<in># net \<sigma>"
  shows "expected lid \<sigma> x" and "consumed lid \<sigma> x"
proof -
  define c where "c = party x"
  have c: "c \<noteq> []" using party_not_empty [OF inv x] by (simp add: c_def)
  obtain u where u: "pcs \<sigma> c u = Out" using free by (auto simp: free_thread_def)
  have "client_phase lid \<sigma> c" using inv c by (simp add: sys_inv_def)
  note place = message_place [OF this [unfolded client_phase_def] in_mail [OF x c_def [symmetric]]]
  have "expected lid \<sigma> x \<and> consumed lid \<sigma> x"
  proof (cases rule: place)
    case (1 t)
    obtain ret rv sv where run: "lsc_acquire (srv \<sigma>) lid c = Inr (ret, rv, sv)"
      using acquire_refines [of "srv \<sigma>" c lid] inv c by (auto simp: sys_inv_def)
    have "consumed lid \<sigma> x"
      by (rule consumedI [where new = "{#Acq_Rep c t ret#} + call_to Revoke_Call rv", OF lock_step_of.serve_acquire [OF _ run, of t]])
        (use x 1 in \<open>simp_all add: call_to_def split: option.split\<close>)
    then show ?thesis using 1 run by simp
  next
    case (2 t ret)
    obtain r tbl where run: "lcc_acquire_reply (ctab \<sigma> c) lid ret = (r, tbl)" by (cases "lcc_acquire_reply (ctab \<sigma> c) lid ret")
    have "consumed lid \<sigma> x"
      by (rule consumedI [where new = "sent_if r (Acq_Req c t)", OF lock_step_of.acquire_reply [OF 2(2) _ run]])
        (use x 2(1) in \<open>simp_all add: client_move_def sent_if_def\<close>)
    then show ?thesis using 2 by simp
  next
    case (3 t)
    obtain ret rt sv where run: "lsc_release (srv \<sigma>) lid c = (ret, rt, sv)" by (cases "lsc_release (srv \<sigma>) lid c")
    have "consumed lid \<sigma> x"
      by (rule consumedI [where new = "{#Rel_Rep c t#} + call_to Retry_Call rt", OF lock_step_of.serve_release [OF _ run, of t]])
        (use x 3 in \<open>simp_all add: call_to_def split: option.split\<close>)
    then show ?thesis using 3 by simp
  next
    case (4 t)
    have "consumed lid \<sigma> x"
      by (rule consumedI [where new = "{#}", OF lock_step_of.released [OF 4(2)]]) (use x 4(1) in \<open>simp_all add: client_move_def\<close>)
    then show ?thesis using 4 by simp
  next
    case 5
    obtain r tbl where run: "lcc_revoke True (ctab \<sigma> c) lid = Inr (r, tbl)" using lcc_total by blast
    have "consumed lid \<sigma> x"
      by (rule consumedI [where new = "sent_if r (Rel_Req c u)", OF lock_step_of.revoke [OF _ u run]])
        (use x 5 in \<open>simp_all add: client_move_def sent_if_def\<close>)
    then show ?thesis using 5 by simp
  next
    case 6
    have "consumed lid \<sigma> x"
      by (rule consumedI [where new = "{#}", OF lock_step_of.retry [OF _ u]]) (use x 6 in \<open>simp_all add: client_move_def\<close>)
    then show ?thesis using 6 by auto
  qed
  then show "expected lid \<sigma> x" "consumed lid \<sigma> x" by simp_all
qed

text \<open>
  The protocol does not get stuck: a thread that waits for the server gets the lock, or some
  other thread is in its section, or there is work to do, a message in flight or a thread
  whose retry flag is set.
\<close>

lemma waiting_has_cause:
  assumes inv: "sys_inv lid \<sigma>" and wait: "pcs \<sigma> c t = Calling \<or> pcs \<sigma> c t = Awaiting"
  shows "net \<sigma> \<noteq> {#} \<or> (\<exists>d u. pcs \<sigma> d u = Inside)
    \<or> (\<exists>d u. pcs \<sigma> d u = Awaiting \<and> c_retry (lock_at (ctab \<sigma> d) lid))"
proof (rule ccontr)
  assume none: "\<not> ?thesis"
  then have net: "net \<sigma> = {#}" by simp
  obtain h q where hq: "abs_lock (srv \<sigma>) lid = (h, q)" by (cases "abs_lock (srv \<sigma>) lid")
  have ph: "phase d (lock_at (ctab \<sigma> d) lid) (pcs \<sigma> d) {#} h q" if "d \<noteq> []" for d
    using inv that hq net by (simp add: sys_inv_def client_phase_def)
  have c: "c \<noteq> []" using wait pc_not_empty [OF inv, of c t] by auto
  have qd: "queued c (lock_at (ctab \<sigma> c) lid) (pcs \<sigma> c) {#} h q"
    using busy_phase [OF ph [OF c], of t] wait by (auto simp: requesting_def granted_def)
  then have q: "q \<noteq> []" by (auto simp: queued_def)
  have li: "lock_inv (srv \<sigma>)" using inv by (simp add: sys_inv_def)
  show False
  proof (cases h)
    case None
    have d: "hd q \<noteq> []" using abs_lock_distinct [OF li, of lid] hq q by (metis hd_in_set snd_conv)
    from ph [OF d] show False
    proof (cases rule: phaseE)
      case 3
      then show False using None none by (auto simp: queued_def due_def split: if_splits)
    qed (use q None in \<open>auto simp: phase_defs\<close>)
  next
    case (Some x)
    then have x: "x \<noteq> []" using hq by (auto simp: abs_lock_def lock_of_def split: option.splits if_splits)
    from ph [OF x] show False
    proof (cases rule: phaseE)
      case 5
      then show False using none by (auto simp: inside_def)
    qed (use q Some in \<open>auto simp: phase_defs\<close>)
  qed
qed

section \<open>Holding a lock\<close>

definition owns :: "lockid \<Rightarrow> string \<Rightarrow> lock_sys \<Rightarrow> bool" where
  "owns lid c \<sigma> \<longleftrightarrow> fst (abs_lock (srv \<sigma>) lid) = Some c \<and> (\<forall>t. Rel_Req c t \<notin># net \<sigma>)"

lemma owns_unique: "owns lid c \<sigma> \<Longrightarrow> owns lid d \<sigma> \<Longrightarrow> c = d"
  by (simp add: owns_def)

lemma inside_owns:
  assumes inv: "sys_inv lid \<sigma>" and t: "pcs \<sigma> c t = Inside"
  shows "owns lid c \<sigma>"
proof -
  have c: "c \<noteq> []" using pc_not_empty [OF inv t] by simp
  then have "client_phase lid \<sigma> c" using inv by (simp add: sys_inv_def)
  from busy_phase [OF this [unfolded client_phase_def] t] have
    "inside c (lock_at (ctab \<sigma> c) lid) (pcs \<sigma> c) (mail c (net \<sigma>))
      (fst (abs_lock (srv \<sigma>) lid)) (snd (abs_lock (srv \<sigma>) lid))" by simp
  then have "\<forall>u. Rel_Req c u \<notin># mail c (net \<sigma>)" by (auto simp: inside_def due_def split: if_splits)
  then have "\<forall>u. Rel_Req c u \<notin># net \<sigma>" using in_mail by fastforce
  then show ?thesis using inside_holder(1) [OF inv t] by (simp add: owns_def)
qed

text \<open>The server moves a lock only when it is free, or when its holder has given it back.\<close>

lemma holder_moves:
  assumes step: "lock_step_of lu lid \<sigma> \<sigma>'" and inv: "sys_inv lid \<sigma>" and own: "owns lid c \<sigma>"
  shows "fst (abs_lock (srv \<sigma>') lid) = Some c"
  using step
proof cases
  case (serve_acquire d t ret rv sv)
  obtain h q where hq: "abs_lock (srv \<sigma>) lid = (h, q)" by (cases "abs_lock (srv \<sigma>) lid")
  obtain h' q' where hq': "abs_lock sv lid = (h', q')" by (cases "abs_lock sv lid")
  have d: "d \<noteq> []" using party_not_empty [OF inv serve_acquire(2)] by simp
  have li: "lock_inv (srv \<sigma>)" and ph: "client_phase lid \<sigma> d" using inv d by (auto simp: sys_inv_def)
  have qa: "queue_acquire d (h, q) = (ret, rv, h', q')"
    using acquire_refines [OF li d, of lid] serve_acquire(3) hq hq' by auto
  have phd: "phase d (lock_at (ctab \<sigma> d) lid) (pcs \<sigma> d) (mail d (net \<sigma>)) h q"
    using ph hq by (simp add: client_phase_def)
  have dist: "distinct q" using abs_lock_distinct [OF li, of lid] hq by auto
  note pos = serve_acquire_self(2) [OF phd in_mail [OF serve_acquire(2), of d, simplified] dist qa]
  have h: "h = Some c" using own hq by (simp add: owns_def)
  have "h' = Some c" using pos qa by (cases rule: queue_acquire_cases) (use h in simp_all)
  then show ?thesis using serve_acquire(1) hq' by simp
next
  case (serve_release d t ret rt sv)
  obtain h q where hq: "abs_lock (srv \<sigma>) lid = (h, q)" by (cases "abs_lock (srv \<sigma>) lid")
  obtain h' q' where hq': "abs_lock sv lid = (h', q')" by (cases "abs_lock sv lid")
  have d: "d \<noteq> []" using party_not_empty [OF inv serve_release(2)] by simp
  have li: "lock_inv (srv \<sigma>)" and ph: "client_phase lid \<sigma> d" using inv d by (auto simp: sys_inv_def)
  have qr: "queue_release d (h, q) = (rt, h', q')"
    using release_refines [OF li d, of lid] serve_release(3) hq hq' by auto
  have phd: "phase d (lock_at (ctab \<sigma> d) lid) (pcs \<sigma> d) (mail d (net \<sigma>)) h q"
    using ph hq by (simp add: client_phase_def)
  have "h = Some d" by (rule serve_release_self(2) [OF phd in_mail [OF serve_release(2), of d, simplified] qr])
  then have "d = c" using own hq by (simp add: owns_def)
  then show ?thesis using serve_release(2) own by (simp add: owns_def)
qed (use own in \<open>simp_all add: owns_def client_move_def\<close>)

section \<open>Clients that cannot give a lock back\<close>

text \<open>Clients without a \<^verbatim>\<open>lock_release_user\<close> never send a release: the first client that gets the lock keeps it.\<close>

definition kept_back :: "lock_sys \<Rightarrow> bool" where
  "kept_back \<sigma> \<longleftrightarrow> (\<forall>c t. pcs \<sigma> c t \<noteq> Releasing \<and> Rel_Req c t \<notin># net \<sigma>)"

lemma kept_back_step:
  assumes step: "lock_step_of (\<lambda>_. False) lid \<sigma> \<sigma>'" and k: "kept_back \<sigma>"
  shows "kept_back \<sigma>'"
proof -
  have pc: "acquire_pc r \<noteq> Releasing" for r by (cases r) simp_all
  have diff: "x \<in># A - B \<Longrightarrow> x \<in># A" for x :: msg and A B by (rule in_diffD)
  from step show ?thesis
  proof cases
    case (release c t r tbl)
    have "r = Return LOK" by (rule lcc_keeps(1) [OF release(3)])
    then show ?thesis using release(1) k by (simp add: kept_back_def client_move_def sent_if_def)
  next
    case (revoke c t r tbl)
    have "r = Return LOK" by (rule lcc_keeps(2) [OF revoke(4)])
    then show ?thesis using revoke(1) k by (auto simp: kept_back_def client_move_def sent_if_def dest: diff)
  qed (use k pc in \<open>auto simp: kept_back_def client_move_def sent_if_def call_to_def dest: diff split: option.splits\<close>)
qed

lemma kept_back_reach: "lock_reach_of (\<lambda>_. False) lid \<sigma> \<Longrightarrow> kept_back \<sigma>"
proof (induction rule: lock_reach_of.induct)
  case (lock_init junk)
  show ?case by (simp add: kept_back_def lock_sys_init_def)
qed (rule kept_back_step)

lemma first_holder_stays:
  assumes "lock_step_of (\<lambda>_. False) lid \<sigma> \<sigma>'" and "lock_reach_of (\<lambda>_. False) lid \<sigma>" and "fst (abs_lock (srv \<sigma>) lid) = Some c"
  shows "fst (abs_lock (srv \<sigma>') lid) = Some c"
  using holder_moves [OF assms(1) lock_reach_inv [OF assms(2)]] kept_back_reach [OF assms(2)] assms(3)
  by (simp add: owns_def kept_back_def)

end
