(* ===== verification/Lock_Server.thy ===== *)
theory Lock_Server
  imports Lock_Service Lock_Server_Cache
begin

text \<open>
  The blocking lock server of \<^verbatim>\<open>lock_server.h\<close> and \<^verbatim>\<open>lock_server.cc\<close> and its client of
  \<^verbatim>\<open>lock_client.h\<close> and \<^verbatim>\<open>lock_client.cc\<close>. A handler that waits on the condition variable is
  a handler that has no result yet and is tried again; the runs of many threads against one
  server are a transition relation.
\<close>

section \<open>Handlers\<close>

datatype plain_status = Unlocked | Locked

record lock_server =
  ls_nacquire :: int
  ls_table :: "lockid \<rightharpoonup> plain_status"

definition lock_server_ctor :: lock_server where
  "lock_server_ctor = \<lparr>ls_nacquire = 0, ls_table = Map.empty\<rparr>"

definition ls_stat :: "lock_server \<Rightarrow> lockid \<Rightarrow> lock_status \<times> int" where
  "ls_stat sv lid = (LOK, ls_nacquire sv)"

text \<open>\<open>acquire\<close> from a point where the thread has the mutex; \<open>None\<close>: it waits.\<close>

definition ls_acquire :: "lock_server \<Rightarrow> lockid \<Rightarrow> (lock_status \<times> lock_server) option" where
  "ls_acquire sv lid =
     (if ls_table sv lid = Some Locked then None
      else Some (LOK, sv\<lparr>ls_table := (ls_table sv)(lid \<mapsto> Locked)\<rparr>))"

definition ls_release :: "lock_server \<Rightarrow> lockid \<Rightarrow> lock_status \<times> lock_server" where
  "ls_release sv lid =
     (case ls_table sv lid of
        None \<Rightarrow> (LNOENT, sv)
      | Some _ \<Rightarrow> (LOK, sv\<lparr>ls_table := (ls_table sv)(lid \<mapsto> Unlocked)\<rparr>))"

section \<open>The client\<close>

text \<open>
  The stubs of the RPC library: a call gives a status code and the reply, \<open>None\<close> when the
  library wrote none. The client aborts unless the status is \<open>OK\<close>, and returns the
  variable the reply went to, whose initial value is \<open>junk\<close>.
\<close>

record 's lock_rpc =
  rpc_stat :: "'s \<Rightarrow> lockid \<Rightarrow> int \<times> int option \<times> 's"
  rpc_acquire :: "'s \<Rightarrow> lockid \<Rightarrow> int \<times> int option \<times> 's"
  rpc_release :: "'s \<Rightarrow> lockid \<Rightarrow> int \<times> int option \<times> 's"

definition verified_call :: "int \<Rightarrow> int \<times> int option \<times> 's \<Rightarrow> (int \<times> 's) res" where
  "verified_call junk p =
     (case p of (ret, r, s) \<Rightarrow>
        if ret = lock_status_code LOK then Inr (case r of Some v \<Rightarrow> v | None \<Rightarrow> junk, s) else Inl Exit)"

definition lc_stat :: "'s lock_rpc \<Rightarrow> int \<Rightarrow> 's \<Rightarrow> lockid \<Rightarrow> (int \<times> 's) res" where
  "lc_stat rpc junk s lid = verified_call junk (rpc_stat rpc s lid)"

definition lc_acquire :: "'s lock_rpc \<Rightarrow> int \<Rightarrow> 's \<Rightarrow> lockid \<Rightarrow> (int \<times> 's) res" where
  "lc_acquire rpc junk s lid = verified_call junk (rpc_acquire rpc s lid)"

definition lc_release :: "'s lock_rpc \<Rightarrow> int \<Rightarrow> 's \<Rightarrow> lockid \<Rightarrow> (int \<times> 's) res" where
  "lc_release rpc junk s lid = verified_call junk (rpc_release rpc s lid)"

section \<open>Runs\<close>

text \<open>
  A thread of the server is idle, runs \<open>acquire\<close>, sleeps on the condition variable in
  \<open>acquire\<close>, or has been granted the lock. One condition variable serves all locks:
  \<open>release\<close> wakes one sleeping thread, whichever lock it waits for. A sleeping thread may also
  wake by itself.
\<close>

datatype thread = Idle | Wants lockid | Asleep lockid | Holds lockid

type_synonym plain_sys = "lock_server \<times> (nat \<Rightarrow> thread)"

definition asleep :: "(nat \<Rightarrow> thread) \<Rightarrow> nat \<Rightarrow> bool" where
  "asleep ths t \<longleftrightarrow> (\<exists>lid. ths t = Asleep lid)"

fun woken :: "thread \<Rightarrow> thread" where
  "woken (Asleep lid) = Wants lid"
| "woken th = th"

inductive thread_step :: "plain_sys \<Rightarrow> plain_sys \<Rightarrow> bool" where
  want: "ths t = Idle \<Longrightarrow> thread_step (sv, ths) (sv, ths(t := Wants lid))"
| wait: "ths t = Wants lid \<Longrightarrow> ls_acquire sv lid = None \<Longrightarrow>
    thread_step (sv, ths) (sv, ths(t := Asleep lid))"
| grant: "ths t = Wants lid \<Longrightarrow> ls_acquire sv lid = Some (ret, sv') \<Longrightarrow>
    thread_step (sv, ths) (sv', ths(t := Holds lid))"
| give_back: "ths t = Holds lid \<Longrightarrow> ls_release sv lid = (ret, sv') \<Longrightarrow>
    asleep ths u \<or> (\<forall>u. \<not> asleep ths u) \<Longrightarrow>
    thread_step (sv, ths) (sv', (ths(u := woken (ths u)))(t := Idle))"
| wake: "asleep ths u \<Longrightarrow> thread_step (sv, ths) (sv, ths(u := woken (ths u)))"

inductive plain_reach :: "plain_sys \<Rightarrow> bool" where
  plain_init: "plain_reach (lock_server_ctor, \<lambda>_. Idle)"
| plain_next: "plain_reach s \<Longrightarrow> thread_step s s' \<Longrightarrow> plain_reach s'"

inductive_cases thread_stepE: "thread_step (sv, ths) (sv', ths')"

lemma woken_simps [simp]:
  "woken th = Holds lid \<longleftrightarrow> th = Holds lid" "woken th = Idle \<longleftrightarrow> th = Idle" "woken th \<noteq> Asleep lid"
  by (cases th; simp)+

text \<open>A lock is marked exactly while a thread holds it, and by one thread only; and when
  threads sleep, another thread holds a lock or is awake and about to take one.\<close>

definition plain_inv :: "plain_sys \<Rightarrow> bool" where
  "plain_inv = (\<lambda>(sv, ths). (\<forall>lid. ls_table sv lid = Some Locked \<longleftrightarrow> (\<exists>t. ths t = Holds lid))
     \<and> (\<forall>lid t u. ths t = Holds lid \<longrightarrow> ths u = Holds lid \<longrightarrow> t = u)
     \<and> ((\<exists>t. asleep ths t) \<longrightarrow> (\<exists>t lid. ths t = Holds lid \<or> ths t = Wants lid)))"

lemma plain_invI:
  assumes "\<And>lid. ls_table sv lid = Some Locked \<longleftrightarrow> (\<exists>t. ths t = Holds lid)"
    and "\<And>lid t u. ths t = Holds lid \<Longrightarrow> ths u = Holds lid \<Longrightarrow> t = u"
    and "\<And>t. asleep ths t \<Longrightarrow> \<exists>t lid. ths t = Holds lid \<or> ths t = Wants lid"
  shows "plain_inv (sv, ths)"
  using assms by (auto simp: plain_inv_def)

lemma plain_invD:
  assumes "plain_inv (sv, ths)"
  shows "ls_table sv lid = Some Locked \<longleftrightarrow> (\<exists>t. ths t = Holds lid)"
    and "ths t = Holds lid \<Longrightarrow> ths u = Holds lid \<Longrightarrow> t = u"
    and "asleep ths t \<Longrightarrow> \<exists>t lid. ths t = Holds lid \<or> ths t = Wants lid"
  using assms by (auto simp: plain_inv_def)

text \<open>Steps that move a thread that does not hold a lock.\<close>

lemma plain_inv_quiet:
  assumes inv: "plain_inv (sv, ths)" and t: "\<And>l. ths t \<noteq> Holds l" and x: "\<And>l. x \<noteq> Holds l"
    and awake: "(\<exists>l. x = Wants l) \<or> (\<exists>u l. ths u = Holds l)"
  shows "plain_inv (sv, ths(t := x))"
proof (rule plain_invI)
  have h: "(ths(t := x)) u = Holds l \<longleftrightarrow> ths u = Holds l" for u l using t x by simp
  show "ls_table sv lid = Some Locked \<longleftrightarrow> (\<exists>u. (ths(t := x)) u = Holds lid)" for lid
    unfolding h by (rule plain_invD(1) [OF inv])
  show "u = v" if "(ths(t := x)) u = Holds lid" "(ths(t := x)) v = Holds lid" for lid u v
    using that unfolding h by (rule plain_invD(2) [OF inv])
  show "\<exists>u lid. (ths(t := x)) u = Holds lid \<or> (ths(t := x)) u = Wants lid"
    using awake h by (metis fun_upd_same)
qed

lemma thread_step_inv:
  assumes "thread_step s s'" and inv: "plain_inv s"
  shows "plain_inv s'"
  using assms(1)
proof (cases rule: thread_step.cases)
  case (want ths t sv lid)
  then show ?thesis using plain_inv_quiet [of sv ths t "Wants lid"] inv by simp
next
  case (wait ths t lid sv)
  then have "ls_table sv lid = Some Locked" by (simp add: ls_acquire_def split: if_splits)
  then show ?thesis using plain_inv_quiet [of sv ths t "Asleep lid"] plain_invD(1) [of sv ths lid] wait inv by auto
next
  case (grant ths t lid sv ret sv')
  then have sv': "ls_table sv lid \<noteq> Some Locked" "ls_table sv' = (ls_table sv)(lid \<mapsto> Locked)"
    by (auto simp: ls_acquire_def split: if_splits)
  have old: "plain_inv (sv, ths)" using inv grant by simp
  have free: "ths u \<noteq> Holds lid" for u using plain_invD(1) [OF old] sv'(1) by blast
  have h: "(ths(t := Holds lid)) u = Holds l \<longleftrightarrow> (if u = t then l = lid else ths u = Holds l)" for u l by auto
  have "plain_inv (sv', ths(t := Holds lid))"
  proof (rule plain_invI)
    show "ls_table sv' l = Some Locked \<longleftrightarrow> (\<exists>u. (ths(t := Holds lid)) u = Holds l)" for l
      unfolding h sv'(2) using plain_invD(1) [OF old, of l] grant(3) by (auto split: if_splits) (metis thread.distinct(9))+
    show "u = v" if "(ths(t := Holds lid)) u = Holds l" "(ths(t := Holds lid)) v = Holds l" for l u v
      using that free plain_invD(2) [OF old, of u l v] unfolding h by (auto split: if_splits)
    show "\<exists>u l. (ths(t := Holds lid)) u = Holds l \<or> (ths(t := Holds lid)) u = Wants l" by (metis fun_upd_same)
  qed
  then show ?thesis using grant by simp
next
  case (give_back ths t lid sv ret sv' u)
  have old: "plain_inv (sv, ths)" using inv give_back by simp
  have "ls_table sv lid = Some Locked" using plain_invD(1) [OF old] give_back by blast
  then have sv': "ls_table sv' = (ls_table sv)(lid \<mapsto> Unlocked)" using give_back by (auto simp: ls_release_def)
  let ?new = "(ths(u := woken (ths u)))(t := Idle)"
  have h: "?new v = Holds l \<longleftrightarrow> v \<noteq> t \<and> ths v = Holds l" for v l by auto
  have only: "ths v = Holds lid \<Longrightarrow> v = t" for v using plain_invD(2) [OF old, of v lid t] give_back by simp
  have "plain_inv (sv', ?new)"
  proof (rule plain_invI)
    show "ls_table sv' l = Some Locked \<longleftrightarrow> (\<exists>v. ?new v = Holds l)" for l
    proof (cases "l = lid")
      case True
      then show ?thesis unfolding h sv' using only by auto
    next
      case False
      then have "ths v = Holds l \<Longrightarrow> v \<noteq> t" for v using give_back(3) by auto
      then show ?thesis unfolding h sv' using plain_invD(1) [OF old, of l] False by auto
    qed
    show "v = w" if "?new v = Holds l" "?new w = Holds l" for l v w
      using that plain_invD(2) [OF old, of v l w] unfolding h by simp
    show "\<exists>v l. ?new v = Holds l \<or> ?new v = Wants l" if s: "asleep ?new v" for v
    proof -
      have "asleep ths v" using s by (auto simp: asleep_def split: if_splits)
      then obtain l where "ths u = Asleep l" using give_back by (auto simp: asleep_def)
      then have "?new u = Wants l" using give_back(3) by auto
      then show ?thesis by blast
    qed
  qed
  then show ?thesis using give_back by simp
next
  case (wake ths u sv)
  then obtain l where "ths u = Asleep l" by (auto simp: asleep_def)
  then show ?thesis using plain_inv_quiet [of sv ths u "Wants l"] inv wake by simp
qed

lemma plain_reach_inv: "plain_reach s \<Longrightarrow> plain_inv s"
proof (induction rule: plain_reach.induct)
  case plain_init
  then show ?case by (simp add: plain_inv_def lock_server_ctor_def asleep_def)
qed (rule thread_step_inv)

definition holds_lock :: "lockid \<Rightarrow> plain_sys \<Rightarrow> nat \<Rightarrow> bool" where
  "holds_lock lid s t \<longleftrightarrow> snd s t = Holds lid"

interpretation plain: lock_service plain_reach thread_step "holds_lock lid" for lid
proof
  show "plain_reach s'" if "plain_reach s" "thread_step s s'" for s s' using that by (rule plain_next)
  show "t = u" if "plain_reach s" and "holds_lock lid s t" and "holds_lock lid s u" for s t u
    using plain_reach_inv [OF that(1)] that(2,3) by (cases s) (auto simp: plain_inv_def holds_lock_def)
qed

text \<open>A thread that runs \<open>acquire\<close> is granted the lock when nobody holds it, and a holder's
  release never fails.\<close>

lemma plain_grant_enabled:
  assumes r: "plain_reach (sv, ths)" and t: "ths t = Wants lid" and free: "\<And>u. ths u \<noteq> Holds lid"
  shows "\<exists>sv'. thread_step (sv, ths) (sv', ths(t := Holds lid))"
proof -
  have "ls_table sv lid \<noteq> Some Locked" using plain_invD(1) [OF plain_reach_inv [OF r]] free by blast
  then obtain sv' where "ls_acquire sv lid = Some (LOK, sv')" by (auto simp: ls_acquire_def)
  then show ?thesis using thread_step.grant [of ths t lid sv LOK sv'] t by blast
qed

lemma plain_release_ok:
  assumes "plain_reach (sv, ths)" and "ths t = Holds lid"
  shows "fst (ls_release sv lid) = LOK"
proof -
  have "ls_table sv lid = Some Locked" using plain_invD(1) [OF plain_reach_inv [OF assms(1)]] assms(2) by blast
  then show ?thesis by (simp add: ls_release_def)
qed

end
