(* ===== verification/Lock_Tester.thy ===== *)
theory Lock_Tester
  imports Lock_System Lock_Server
begin

text \<open>
  The lock tester of \<^verbatim>\<open>lock_tester.cc\<close>: the counters that detect a lock granted twice, and the
  bodies of its threads as lists of calls. The tester runs on any lock service: a call of
  \<open>acquire\<close> or \<open>release\<close> is over when the service lets the caller enter or leave its section. The
  locale \<open>lock_service\<close> gives the proof that no check fails, so a failing tester
  means a broken lock.
\<close>

section \<open>The checks\<close>

type_synonym counters = "nat \<Rightarrow> int"

definition slot :: "lockid \<Rightarrow> nat" where
  "slot lid = unat (and lid 0xff)"

definition check_grant :: "counters \<Rightarrow> lockid \<Rightarrow> counters res" where
  "check_grant ct lid =
     (let x = slot lid in if ct x \<noteq> 0 then Inl Exit else Inr (ct(x := ct x + 1)))"

definition check_release :: "counters \<Rightarrow> lockid \<Rightarrow> counters res" where
  "check_release ct lid =
     (let x = slot lid in if ct x \<noteq> 1 then Inl Exit else Inr (ct(x := ct x - 1)))"

section \<open>The tests\<close>

text \<open>A call of client number \<open>i\<close> of the array \<open>lc\<close>, or one of the checks.\<close>

datatype action = Acquire nat lockid | Check_Grant lockid | Check_Release lockid | Release nat lockid

definition lock_a :: lockid where "lock_a = 1"
definition lock_b :: lockid where "lock_b = 2"

definition test1 :: "action list" where
  "test1 =
     [Acquire 0 lock_a, Check_Grant lock_a, Release 0 lock_a, Check_Release lock_a,
      Acquire 0 lock_a, Check_Grant lock_a, Release 0 lock_a, Check_Release lock_a,
      Acquire 0 lock_a, Check_Grant lock_a, Acquire 0 lock_b, Check_Grant lock_b,
      Release 0 lock_b, Check_Release lock_b, Release 0 lock_a, Check_Release lock_a]"

definition test2 :: "nat \<Rightarrow> action list" where
  "test2 i = [Acquire i lock_a, Check_Grant lock_a, Check_Release lock_a, Release i lock_a]"

definition test3 :: "nat \<Rightarrow> action list" where
  "test3 i = concat (replicate 10 [Acquire i lock_a, Check_Grant lock_a, Check_Release lock_a, Release i lock_a])"

definition test4 :: "nat \<Rightarrow> action list" where
  "test4 i = concat (replicate 10 [Acquire 0 lock_a, Check_Grant lock_a, Check_Release lock_a, Release 0 lock_a])"

definition test5 :: "nat \<Rightarrow> action list" where
  "test5 i = concat (replicate 10
     [if i < 5 then Acquire 0 lock_a else Acquire 1 lock_a, Check_Grant lock_a, Check_Release lock_a,
      if i < 5 then Release 0 lock_a else Release 1 lock_a])"

text \<open>\<open>test1\<close> runs alone: each lock is taken when it is asked for.\<close>

fun run_alone :: "action list \<Rightarrow> counters \<Rightarrow> counters res" where
  "run_alone [] ct = Inr ct"
| "run_alone (Check_Grant l # as) ct = bind_res (check_grant ct l) (run_alone as)"
| "run_alone (Check_Release l # as) ct = bind_res (check_release ct l) (run_alone as)"
| "run_alone (Acquire i l # as) ct = run_alone as ct"
| "run_alone (Release i l # as) ct = run_alone as ct"

section \<open>Threads that run tests on one lock\<close>

text \<open>
  Each party \<open>c\<close> of the service runs its list \<open>todo c\<close>. A step of the service that lets parties
  enter or leave their sections ends the calls they are in; a party that is in a check takes a
  step of its own.
\<close>

fun is_acquire :: "lockid \<Rightarrow> action list \<Rightarrow> bool" where
  "is_acquire lid (Acquire i l # as) = (l = lid)"
| "is_acquire lid _ = False"

fun is_release :: "lockid \<Rightarrow> action list \<Rightarrow> bool" where
  "is_release lid (Release i l # as) = (l = lid)"
| "is_release lid _ = False"

inductive tester_step ::
  "('s \<Rightarrow> 's \<Rightarrow> bool) \<Rightarrow> ('s \<Rightarrow> 'c \<Rightarrow> bool) \<Rightarrow> lockid \<Rightarrow>
   's \<times> counters \<times> ('c \<Rightarrow> action list) \<Rightarrow> 's \<times> counters \<times> ('c \<Rightarrow> action list) \<Rightarrow> bool"
  for step :: "'s \<Rightarrow> 's \<Rightarrow> bool" and holds :: "'s \<Rightarrow> 'c \<Rightarrow> bool" and lid :: lockid where
  service: "step s s' \<Longrightarrow> (\<And>c. \<not> holds s c \<Longrightarrow> holds s' c \<Longrightarrow> is_acquire lid (todo c)) \<Longrightarrow>
    (\<And>c. holds s c \<Longrightarrow> \<not> holds s' c \<Longrightarrow> is_release lid (todo c)) \<Longrightarrow>
    tester_step step holds lid (s, ct, todo) (s', ct, \<lambda>c. if holds s' c = holds s c then todo c else tl (todo c))"
| granted: "todo c = Check_Grant l # as \<Longrightarrow> check_grant ct l = Inr ct' \<Longrightarrow>
    tester_step step holds lid (s, ct, todo) (s, ct', todo(c := as))"
| given_back: "todo c = Check_Release l # as \<Longrightarrow> check_release ct l = Inr ct' \<Longrightarrow>
    tester_step step holds lid (s, ct, todo) (s, ct', todo(c := as))"

text \<open>
  What a list must do next, given whether its party is in the section and counted: the tests run
  through acquire, check, check, release on one lock.
\<close>

fun script_ok :: "lockid \<Rightarrow> bool \<Rightarrow> bool \<Rightarrow> action list \<Rightarrow> bool" where
  "script_ok lid held counted [] \<longleftrightarrow> \<not> held \<and> \<not> counted"
| "script_ok lid held counted (Acquire i l # as) \<longleftrightarrow> l = lid \<and> \<not> held \<and> \<not> counted \<and> script_ok lid True False as"
| "script_ok lid held counted (Check_Grant l # as) \<longleftrightarrow> l = lid \<and> held \<and> \<not> counted \<and> script_ok lid True True as"
| "script_ok lid held counted (Check_Release l # as) \<longleftrightarrow> l = lid \<and> held \<and> counted \<and> script_ok lid True False as"
| "script_ok lid held counted (Release i l # as) \<longleftrightarrow> l = lid \<and> held \<and> \<not> counted \<and> script_ok lid False False as"

lemma script_ok_append: "script_ok lid h k as \<Longrightarrow> script_ok lid False False bs \<Longrightarrow> script_ok lid h k (as @ bs)"
  by (induction lid h k as rule: script_ok.induct) auto

lemma script_ok_repeat: "script_ok lid False False as \<Longrightarrow> script_ok lid False False (concat (replicate n as))"
  by (induction n) (auto intro: script_ok_append)

lemma tests_ok:
  "script_ok lock_a False False (test2 i)" "script_ok lock_a False False (test3 i)"
  "script_ok lock_a False False (test4 i)" "script_ok lock_a False False (test5 i)"
  unfolding test2_def test3_def test4_def test5_def by (auto intro!: script_ok_repeat)

context lock_service
begin

text \<open>
  In every state of a run the counted parties are in their sections, so there is one at most,
  and the counter of the lock is their number.
\<close>

definition tester_inv :: "lockid \<Rightarrow> 's \<times> counters \<times> ('c \<Rightarrow> action list) \<Rightarrow> bool" where
  "tester_inv lid = (\<lambda>(s, ct, todo). reach s \<and> (\<exists>G.
     (\<forall>c. script_ok lid (holds s c) (c \<in> G) (todo c)) \<and> G \<subseteq> {c. holds s c} \<and> ct (slot lid) = int (card G)))"

lemma tester_invI:
  "reach s \<Longrightarrow> (\<And>c. script_ok lid (holds s c) (c \<in> G) (todo c)) \<Longrightarrow> G \<subseteq> {c. holds s c} \<Longrightarrow>
    ct (slot lid) = int (card G) \<Longrightarrow> tester_inv lid (s, ct, todo)"
  unfolding tester_inv_def by auto

lemma tester_invE:
  assumes "tester_inv lid (s, ct, todo)"
  obtains G where "reach s" "\<forall>c. script_ok lid (holds s c) (c \<in> G) (todo c)" "G \<subseteq> {c. holds s c}"
    "ct (slot lid) = int (card G)"
  using assms unfolding tester_inv_def by auto

lemma counted_once: "reach s \<Longrightarrow> G \<subseteq> {c. holds s c} \<Longrightarrow> G = {} \<or> (\<exists>c. G = {c})"
  using holders [of s] by blast

lemma tester_inv_checks:
  assumes inv: "tester_inv lid (s, ct, todo)"
  shows "todo c = Check_Grant l # as \<Longrightarrow> check_grant ct l = Inr (ct(slot lid := 1)) \<and> ct (slot lid) = 0 \<and> l = lid"
    and "todo c = Check_Release l # as \<Longrightarrow> check_release ct l = Inr (ct(slot lid := 0)) \<and> ct (slot lid) = 1 \<and> l = lid"
proof -
  obtain G where r: "reach s" and ok: "\<forall>c. script_ok lid (holds s c) (c \<in> G) (todo c)"
    and G: "G \<subseteq> {c. holds s c}" and ct: "ct (slot lid) = int (card G)"
    using inv by (rule tester_invE)
  show "check_grant ct l = Inr (ct(slot lid := 1)) \<and> ct (slot lid) = 0 \<and> l = lid" if "todo c = Check_Grant l # as"
  proof -
    have c: "holds s c" "c \<notin> G" "l = lid" using ok [rule_format, of c] that by auto
    have "G = {}" using counted_once [OF r G] G c exclusive [OF r] by auto
    then show ?thesis using ct c(3) by (simp add: check_grant_def Let_def)
  qed
  show "check_release ct l = Inr (ct(slot lid := 0)) \<and> ct (slot lid) = 1 \<and> l = lid" if "todo c = Check_Release l # as"
  proof -
    have c: "c \<in> G" "l = lid" using ok [rule_format, of c] that by auto
    then have "G = {c}" using counted_once [OF r G] by auto
    then show ?thesis using ct c(2) by (simp add: check_release_def Let_def)
  qed
qed

lemma tester_step_inv:
  assumes "tester_step step holds lid p p'" and "tester_inv lid p"
  shows "tester_inv lid p'"
  using assms
proof (induction rule: tester_step.induct)
  case (service s s' todo ct)
  obtain G where r: "reach s" and ok: "\<forall>c. script_ok lid (holds s c) (c \<in> G) (todo c)"
    and G: "G \<subseteq> {c. holds s c}" and ct: "ct (slot lid) = int (card G)"
    using service.prems by (rule tester_invE)
  have stay: "holds s' c" if "c \<in> G" for c
  proof (rule ccontr)
    assume n: "\<not> holds s' c"
    have "is_release lid (todo c)" using service.hyps(3) [of c] that G n by auto
    then show False using ok [rule_format, of c] that by (cases "(lid, todo c)" rule: is_release.cases) auto
  qed
  have "script_ok lid (holds s' c) (c \<in> G) (if holds s' c = holds s c then todo c else tl (todo c))" for c
  proof (cases "holds s' c = holds s c")
    case False
    then have "is_acquire lid (todo c) \<and> \<not> holds s c \<or> is_release lid (todo c) \<and> holds s c"
      using service.hyps(2,3) [of c] by auto
    then show ?thesis
      using ok [rule_format, of c] False by (cases "(lid, todo c)" rule: is_release.cases) auto
  qed (use ok [rule_format, of c] in simp)
  moreover have "reach s'" by (rule reach_step [OF r service.hyps(1)])
  ultimately show ?case using stay ct by (intro tester_invI [where G = G]) auto
next
  case (granted todo c l as ct ct' s)
  obtain G where r: "reach s" and ok: "\<forall>c. script_ok lid (holds s c) (c \<in> G) (todo c)"
    and G: "G \<subseteq> {c. holds s c}" and ct: "ct (slot lid) = int (card G)"
    using granted.prems by (rule tester_invE)
  note c = tester_inv_checks(1) [OF granted.prems granted.hyps(1)]
  have "finite G" using counted_once [OF r G] by auto
  then have "G = {}" using ct c by auto
  then have "\<forall>d. script_ok lid (holds s d) (d \<in> {c}) ((todo(c := as)) d)"
    using ok granted.hyps(1) by (auto split: if_splits) (metis script_ok.simps(3))+
  moreover have "holds s c" using ok [rule_format, of c] granted.hyps(1) by simp
  moreover have "ct' (slot lid) = int (card {c})" using c granted.hyps(2) by simp
  ultimately show ?case using r by (intro tester_invI [where G = "{c}"]) auto
next
  case (given_back todo c l as ct ct' s)
  obtain G where r: "reach s" and ok: "\<forall>c. script_ok lid (holds s c) (c \<in> G) (todo c)"
    and G: "G \<subseteq> {c. holds s c}" and ct: "ct (slot lid) = int (card G)"
    using given_back.prems by (rule tester_invE)
  note c = tester_inv_checks(2) [OF given_back.prems given_back.hyps(1)]
  have "c \<in> G" using ok [rule_format, of c] given_back.hyps(1) by simp
  then have "G = {c}" using counted_once [OF r G] by auto
  then have "\<forall>d. script_ok lid (holds s d) (d \<in> {}) ((todo(c := as)) d)"
    using ok given_back.hyps(1) by (auto split: if_splits) (metis script_ok.simps(4))+
  moreover have "ct' (slot lid) = int (card {})" using c given_back.hyps(2) by simp
  ultimately show ?case using r by (intro tester_invI [where G = "{}"]) auto
qed

lemma tester_passes:
  assumes "(tester_step step holds lid)\<^sup>*\<^sup>* (s0, \<lambda>_. 0, todo0) (s, ct, todo)" and "reach s0"
    and "\<And>c. \<not> holds s0 c" and "\<And>c. script_ok lid False False (todo0 c)"
  shows "todo c = Check_Grant l # as \<Longrightarrow> \<exists>ct'. check_grant ct l = Inr ct'"
    and "todo c = Check_Release l # as \<Longrightarrow> \<exists>ct'. check_release ct l = Inr ct'"
proof -
  have "tester_inv lid (s0, \<lambda>_. 0, todo0)"
    using assms(2-4) by (intro tester_invI [where G = "{}"]) auto
  with assms(1) have "tester_inv lid (s, ct, todo)"
    by (induction rule: rtranclp_induct) (auto intro: tester_step_inv)
  then show "todo c = Check_Grant l # as \<Longrightarrow> \<exists>ct'. check_grant ct l = Inr ct'"
    and "todo c = Check_Release l # as \<Longrightarrow> \<exists>ct'. check_release ct l = Inr ct'"
    using tester_inv_checks by blast+
qed

end

end
