(* ===== verification/Yfs_Dir.thy ===== *)
theory Yfs_Dir
  imports Yfs_Prelude "HOL-Library.Signed_Division"
begin

text \<open>
  The text format of directories in \<^verbatim>\<open>yfs_client.cc\<close>: \<open>encode\<close> and \<open>uncode\<close> of names, \<open>filename\<close>
  and \<open>n2i\<close> of inode numbers, and the loop over a string stream that \<open>find\<close>, \<open>readdir\<close> and
  \<open>unlink\<close> share. Bytes are \<^verbatim>\<open>char\<close> values, read as signed numbers where the code
  computes with them. The lemmas show that parsing inverts printing.
\<close>

section \<open>Names\<close>

definition char_of_int :: "int \<Rightarrow> byte" where
  "char_of_int n = word_of_int n"

definition encode_char :: "byte \<Rightarrow> bytes" where
  "encode_char c = [char_of_int (97 + sint c sdiv 16), char_of_int (97 + sint c smod 16)]"

definition encode :: "bytes \<Rightarrow> bytes" where
  "encode code = concat (map encode_char code)"

text \<open>A string has a zero byte after its last character.\<close>

fun uncode :: "bytes \<Rightarrow> bytes" where
  "uncode [] = []"
| "uncode [a] = [char_of_int ((sint a - 97) * 16 + 0 - 97)]"
| "uncode (a # b # code) = char_of_int ((sint a - 97) * 16 + sint b - 97) # uncode code"

text \<open>White space in the sense of \<^verbatim>\<open>isspace\<close> in the C locale.\<close>

definition is_space :: "byte \<Rightarrow> bool" where
  "is_space c \<longleftrightarrow> c = 32 \<or> (9 \<le> c \<and> c \<le> 13)"

definition SP :: byte where "SP = 32"

lemma sint_byte: "- 128 \<le> sint (c :: byte)" "sint c < 128"
  using sint_ge [of c] sint_lt [of c] by simp_all

lemma sint_char: "- 128 \<le> n \<Longrightarrow> n < 128 \<Longrightarrow> sint (char_of_int n) = n"
  by (simp add: char_of_int_def signed_of_int signed_take_bit_int_eq_self)

lemma char_of_int_sint: "char_of_int (sint c) = c"
  by (simp add: char_of_int_def)

lemma trunc_div:
  fixes n :: int
  assumes "- 128 \<le> n" "n < 128"
  shows "- 8 \<le> n sdiv 16" "n sdiv 16 \<le> 7" "- 15 \<le> n smod 16" "n smod 16 \<le> 15"
    "(n sdiv 16) * 16 + n smod 16 = n"
proof -
  show "(n sdiv 16) * 16 + n smod 16 = n" by (rule sdiv_mult_smod_eq)
  have m: "n smod 16 = sgn n * (\<bar>n\<bar> mod 16)" by (simp add: signed_modulo_int_def)
  have d: "n sdiv 16 = sgn n * (\<bar>n\<bar> div 16)" by (simp add: signed_divide_int_def)
  have "0 \<le> \<bar>n\<bar> mod 16" "\<bar>n\<bar> mod 16 \<le> 15" by simp_all
  then show "- 15 \<le> n smod 16" "n smod 16 \<le> 15" unfolding m by (auto simp: sgn_if)
  show "- 8 \<le> n sdiv 16" "n sdiv 16 \<le> 7"
    using assms unfolding d by (auto simp: sgn_if)
qed

lemma encode_char_bytes:
  "sint (char_of_int (97 + sint (c :: byte) sdiv 16)) = 97 + sint c sdiv 16"
  "sint (char_of_int (97 + sint (c :: byte) smod 16)) = 97 + sint c smod 16"
  using trunc_div [OF sint_byte [of c]] by (auto intro!: sint_char)

lemma uncode_encode: "uncode (encode code) = code"
proof (induction code)
  case (Cons c code)
  have "(sint c sdiv 16) * 16 + sint c smod 16 = sint c" by (rule sdiv_mult_smod_eq)
  then show ?case
    using Cons encode_char_bytes [of c] by (simp add: encode_def encode_char_def char_of_int_sint)
qed (simp add: encode_def)

lemma is_space_sint: "is_space c \<Longrightarrow> sint c \<le> 32"
proof -
  assume "is_space c"
  then have "uint c \<le> 32" by (auto simp: is_space_def word_le_def)
  moreover have "- 128 \<le> uint c" by (rule order_trans [OF _ uint_ge_0]) simp
  ultimately have "sint c = uint c"
    unfolding sint_uint by (intro signed_take_bit_int_eq_self) simp_all
  then show ?thesis using \<open>uint c \<le> 32\<close> by simp
qed

lemma encode_no_space: "c \<in> set (encode code) \<Longrightarrow> \<not> is_space c"
proof -
  assume "c \<in> set (encode code)"
  then have "\<exists>x :: byte. c = char_of_int (97 + sint x sdiv 16) \<or> c = char_of_int (97 + sint x smod 16)"
    by (auto simp: encode_def encode_char_def)
  then obtain x :: byte where "c = char_of_int (97 + sint x sdiv 16) \<or> c = char_of_int (97 + sint x smod 16)"
    by blast
  then have "82 \<le> sint c" using encode_char_bytes [of x] trunc_div [OF sint_byte [of x]] by auto
  then show ?thesis using is_space_sint [of c] by linarith
qed

lemma encode_inject: "encode a = encode b \<longleftrightarrow> a = b"
  using uncode_encode by metis

lemma length_encode [simp]: "length (encode code) = 2 * length code"
  by (induction code) (simp_all add: encode_def encode_char_def)

lemma encode_append: "encode (a @ b) = encode a @ encode b"
  by (simp add: encode_def)

section \<open>Inode numbers\<close>

definition digit :: "nat \<Rightarrow> byte" where
  "digit k = of_nat (48 + k)"

fun dec :: "nat \<Rightarrow> bytes" where
  "dec n = (if n < 10 then [digit n] else dec (n div 10) @ [digit (n mod 10)])"

declare dec.simps [simp del]

definition filename :: "u64 \<Rightarrow> bytes" where
  "filename inum = dec (unat inum)"

definition is_digit :: "byte \<Rightarrow> bool" where
  "is_digit c \<longleftrightarrow> 48 \<le> c \<and> c \<le> 57"

definition dec_value :: "bytes \<Rightarrow> nat" where
  "dec_value ds = foldl (\<lambda>v c. 10 * v + (unat c - 48)) 0 ds"

text \<open>
  \<open>n2i\<close> reads a number from a string stream, as \<^verbatim>\<open>strtoull\<close> does: white space, a sign, digits.
  An empty stream leaves the variable unset; no digits give 0, too many the largest value.
\<close>

fun sign_of :: "bytes \<Rightarrow> bool \<times> bytes" where
  "sign_of (c # cs) = (if c = 45 then (True, cs) else if c = 43 then (False, cs) else (False, c # cs))"
| "sign_of [] = (False, [])"

definition n2i :: "bytes \<Rightarrow> u64 res" where
  "n2i n =
     (let n' = dropWhile is_space n
      in if n' = [] then Inl Uninitialised
         else (let (neg, cs) = sign_of n';
                   ds = takeWhile is_digit cs
               in if ds = [] then Inr 0
                  else if 2 ^ 64 \<le> dec_value ds then Inr (- 1)
                  else Inr (if neg then - of_nat (dec_value ds) else of_nat (dec_value ds))))"

lemma digit_simps: "k < 10 \<Longrightarrow> is_digit (digit k)" "k < 10 \<Longrightarrow> unat (digit k) = 48 + k"
proof -
  assume k: "k < 10"
  then show u: "unat (digit k) = 48 + k" by (simp add: digit_def unsigned_of_nat take_bit_nat_eq_self del: of_nat_add of_nat_numeral)
  show "is_digit (digit k)" using k u by (simp add: is_digit_def word_le_nat_alt)
qed

lemma dec_digits: "c \<in> set (dec n) \<Longrightarrow> is_digit c"
proof (induction n rule: dec.induct)
  case (1 n)
  then show ?case by (subst (asm) (2) dec.simps) (auto simp: digit_simps split: if_splits)
qed

lemma dec_not_Nil: "dec n \<noteq> []"
  by (subst dec.simps) simp

lemma dec_value_dec: "dec_value (dec n) = n"
proof (induction n rule: dec.induct)
  case (1 n)
  show ?case
  proof (cases "n < 10")
    case True
    then show ?thesis by (subst dec.simps) (simp add: dec_value_def digit_simps)
  next
    case False
    then show ?thesis using 1 by (subst dec.simps) (simp add: dec_value_def digit_simps)
  qed
qed

lemma length_dec: "n < 10 ^ k \<Longrightarrow> 0 < k \<Longrightarrow> length (dec n) \<le> k"
proof (induction n arbitrary: k rule: dec.induct)
  case (1 n)
  show ?case
  proof (cases "n < 10")
    case True
    then show ?thesis using 1(3) by (subst dec.simps) simp
  next
    case False
    then have "k \<noteq> 1" using 1(2) by auto
    then obtain j where k: "k = Suc j" "0 < j" using 1(3) by (cases k) auto
    then have "n div 10 < 10 ^ j" using 1(2) by (simp add: div_less_iff_less_mult mult.commute)
    then have "length (dec (n div 10)) \<le> j" using 1(1) [OF False, of j] k by simp
    then show ?thesis using False k by (subst dec.simps) simp
  qed
qed

lemma length_filename: "length (filename inum) \<le> 20"
proof -
  have "unat inum < 2 ^ 64" using unsigned_less [of inum] by simp
  then show ?thesis using length_dec [of "unat inum" 20] by (simp add: filename_def)
qed

lemma digit_not_space: "is_digit c \<Longrightarrow> \<not> is_space c"
  by (auto simp: is_digit_def is_space_def word_le_nat_alt)

lemma n2i_filename: "n2i (filename inum) = Inr inum"
proof -
  obtain c cs where d: "dec (unat inum) = c # cs" using dec_not_Nil by (cases "dec (unat inum)") auto
  have dig: "is_digit x" if "x \<in> set (c # cs)" for x using that dec_digits [of x "unat inum"] d by simp
  have c: "is_digit c" using dig by simp
  then have "c \<noteq> 45" "c \<noteq> 43" by (auto simp: is_digit_def word_le_nat_alt)
  moreover have "takeWhile is_digit (c # cs) = c # cs" using dig by (simp add: takeWhile_eq_all_conv)
  moreover have "dropWhile is_space (c # cs) = c # cs" using digit_not_space [OF c] by simp
  moreover have v: "dec_value (c # cs) = unat inum" using dec_value_dec [of "unat inum"] d by simp
  moreover have "\<not> 2 ^ 64 \<le> unat inum" using unsigned_less [of inum] by (simp add: linorder_not_le)
  ultimately show ?thesis
    by (simp only: n2i_def filename_def d Let_def sign_of.simps split_conv if_False list.distinct) simp
qed

lemma filename_no_space: "c \<in> set (filename inum) \<Longrightarrow> \<not> is_space c"
  by (auto simp: filename_def dest: dec_digits digit_not_space)

lemma filename_not_Nil: "filename inum \<noteq> []"
  by (simp add: filename_def dec_not_Nil)

section \<open>Directories\<close>

text \<open>
  A string stream: the characters left, and whether the stream is good. Extracting a word from
  a stream that is not good, or that holds white space only, leaves the variable as it was; a
  word that ends with the stream leaves the stream at its end.
\<close>

type_synonym stream = "bytes \<times> bool"

definition read_word :: "stream \<Rightarrow> bytes \<Rightarrow> bytes \<times> stream" where
  "read_word ss old =
     (let (rest, good) = ss; r = dropWhile is_space rest
      in if \<not> good then (old, rest, False)
         else if r = [] then (old, [], False)
         else (takeWhile (\<lambda>c. \<not> is_space c) r,
               dropWhile (\<lambda>c. \<not> is_space c) r, dropWhile (\<lambda>c. \<not> is_space c) r \<noteq> []))"

text \<open>
  The loop of \<open>find\<close>, \<open>readdir\<close> and \<open>unlink\<close>: the pairs of words its iterations see, for a
  contents of \<open>n\<close> characters, from position \<open>i\<close> with the two strings as the last iteration left
  them. Parsing has no effect on what the iterations do.
\<close>

function dir_loop :: "nat \<Rightarrow> nat \<Rightarrow> stream \<Rightarrow> bytes \<Rightarrow> bytes \<Rightarrow> (bytes \<times> bytes) list" where
  "dir_loop n i ss fileName node =
     (if i < n then
        (let (fileName', ss1) = read_word ss fileName;
             (node', ss2) = read_word ss1 node
         in (fileName', node') # dir_loop n (i + (length fileName' + length node' + 2)) ss2 fileName' node')
      else [])"
  by pat_completeness auto
termination
  by (relation "measure (\<lambda>(n, i, ss, fileName, node). n - i)") auto

declare dir_loop.simps [simp del]

definition dir_entries :: "bytes \<Rightarrow> (bytes \<times> bytes) list" where
  "dir_entries buf = dir_loop (length buf) 0 (buf, True) [] []"

text \<open>What \<open>addfile\<close> appends, and what \<open>unlink\<close> writes back.\<close>

definition dir_record :: "bytes \<Rightarrow> bytes \<Rightarrow> bytes" where
  "dir_record fileName node = fileName @ [SP] @ node @ [SP]"

definition dir_text :: "(bytes \<times> u64) list \<Rightarrow> bytes" where
  "dir_text es = concat (map (\<lambda>(name, inum). dir_record (encode name) (filename inum)) es)"

lemma dir_text_simps [simp]:
  "dir_text [] = []"
  "dir_text ((name, inum) # es) = dir_record (encode name) (filename inum) @ dir_text es"
  "dir_text (es @ fs) = dir_text es @ dir_text fs"
  by (simp_all add: dir_text_def)

lemma read_word_text:
  assumes "w \<noteq> []" and "\<And>c. c \<in> set w \<Longrightarrow> \<not> is_space c"
  shows "read_word (w @ SP # rest, True) old = (w, SP # rest, True)"
    and "read_word (SP # w @ SP # rest, True) old = (w, SP # rest, True)"
proof -
  have sp: "is_space SP" by (simp add: is_space_def SP_def)
  obtain c cs where w: "w = c # cs" using assms(1) by (cases w) auto
  have d: "dropWhile is_space (w @ SP # rest) = w @ SP # rest" using assms(2) [of c] w by simp
  have t: "takeWhile (\<lambda>c. \<not> is_space c) (w @ SP # rest) = w"
    using assms(2) sp by (simp add: takeWhile_append takeWhile_eq_all_conv)
  have r: "dropWhile (\<lambda>c. \<not> is_space c) (w @ SP # rest) = SP # rest"
    using assms(2) sp by (simp add: dropWhile_append)
  show "read_word (w @ SP # rest, True) old = (w, SP # rest, True)"
    using assms(1) by (simp add: read_word_def Let_def d t r)
  show "read_word (SP # w @ SP # rest, True) old = (w, SP # rest, True)"
    using assms(1) by (simp add: read_word_def Let_def d t r sp)
qed

text \<open>Parsing what was printed, from any position of the text on.\<close>

lemma dir_loop_text:
  assumes "\<forall>(name, inum) \<in> set es. name \<noteq> []" and "n = i + length (dir_text es)"
    and "pre = [] \<or> pre = [SP]"
  shows "dir_loop n i (pre @ dir_text es, True) f0 n0 =
    map (\<lambda>(name, inum). (encode name, filename inum)) es"
  using assms
proof (induction es arbitrary: i pre f0 n0)
  case Nil
  then show ?case by (subst dir_loop.simps) simp
next
  case (Cons e es)
  obtain name inum where e: "e = (name, inum)" by (cases e)
  let ?f = "encode name" and ?k = "filename inum"
  have ne: "?f \<noteq> []" using Cons.prems(1) e length_encode [of name] by (cases ?f) auto
  have step: "read_word (pre @ dir_text (e # es), True) f0 = (?f, SP # ?k @ SP # dir_text es, True)"
    using Cons.prems(3) read_word_text [OF ne, of "?k @ SP # dir_text es" f0] encode_no_space
    by (auto simp: e dir_record_def)
  have step2: "read_word (SP # ?k @ SP # dir_text es, True) n0 = (?k, SP # dir_text es, True)"
    by (rule read_word_text(2) [OF filename_not_Nil filename_no_space])
  have len: "length (dir_text (e # es)) = length ?f + length ?k + 2 + length (dir_text es)"
    by (simp add: e dir_record_def)
  have IH: "dir_loop n (i + (length ?f + length ?k + 2)) ([SP] @ dir_text es, True) ?f ?k =
      map (\<lambda>(name, inum). (encode name, filename inum)) es"
    using Cons.prems(1,2) len by (intro Cons.IH) auto
  have "i < n" using Cons.prems(2) len by simp
  then show ?case
    using IH by (subst dir_loop.simps) (simp only: if_True Let_def step step2 split_conv, simp add: e)
qed

lemma dir_entries_text:
  assumes "\<forall>(name, inum) \<in> set es. name \<noteq> []"
  shows "dir_entries (dir_text es) = map (\<lambda>(name, inum). (encode name, filename inum)) es"
  using dir_loop_text [OF assms, of "length (dir_text es)" 0 "[]"] by (simp add: dir_entries_def)

end
