(* ===== verification/Client_Setup.thy ===== *)
theory Client_Setup
  imports Lock_Client_Cache Yfs_Dir
begin

text \<open>
  The constructor of the caching lock client: the port on which it is told to give locks back,
  and the name under which the lock server knows it. The generator of \<^verbatim>\<open>rand\<close> is a function of
  the seed, \<open>now\<close> is what \<^verbatim>\<open>time\<close> returns; the connection and the thread that serves the port
  belong to the RPC library.
\<close>

unbundle bit_operations_syntax

record lock_client_cache =
  cl_id :: string
  cl_port :: nat
  cl_table :: client_table
  cl_lu :: bool

text \<open>\<^verbatim>\<open>srand(time(NULL)^last_port)\<close> takes 32 bits; \<^verbatim>\<open>last_port\<close> is a port, 0 before the first client of a process.\<close>

definition rlock_seed :: "u64 \<Rightarrow> nat \<Rightarrow> u32" where
  "rlock_seed now last_port = ucast (now XOR of_nat last_port)"

definition rlock_port :: "(u32 \<Rightarrow> nat) \<Rightarrow> u64 \<Rightarrow> nat \<Rightarrow> nat" where
  "rlock_port rand now last_port = (rand (rlock_seed now last_port) mod 32000) OR 1024"

definition client_name :: "nat \<Rightarrow> string" where
  "client_name port = ''127.0.0.1:'' @ map (\<lambda>b. char_of (unat b)) (dec port)"

text \<open>The client and the new value of \<^verbatim>\<open>last_port\<close>; \<open>lu\<close> says whether the argument \<^verbatim>\<open>_lu\<close> is an object or
  null, its default. The file system client passes one, the lock tester does not.\<close>

definition lock_client_cache_ctor :: "(u32 \<Rightarrow> nat) \<Rightarrow> u64 \<Rightarrow> nat \<Rightarrow> bool \<Rightarrow> lock_client_cache \<times> nat" where
  "lock_client_cache_ctor rand now last_port lu =
     (let port = rlock_port rand now last_port
      in (\<lparr>cl_id = client_name port, cl_port = port, cl_table = Map.empty, cl_lu = lu\<rparr>, port))"

text \<open>The clients that one process makes, each at its time.\<close>

fun make_clients :: "(u32 \<Rightarrow> nat) \<Rightarrow> bool \<Rightarrow> nat \<Rightarrow> u64 list \<Rightarrow> lock_client_cache list" where
  "make_clients rand lu last_port [] = []"
| "make_clients rand lu last_port (now # ts) =
     (let (c, last_port') = lock_client_cache_ctor rand now last_port lu in c # make_clients rand lu last_port' ts)"

lemma length_make_clients: "length (make_clients rand lu last_port ts) = length ts"
  by (induction ts arbitrary: last_port) (simp_all add: lock_client_cache_ctor_def Let_def)

lemma make_clients_lu: "c \<in> set (make_clients rand lu last_port ts) \<Longrightarrow> cl_lu c = lu"
  by (induction ts arbitrary: last_port) (auto simp: lock_client_cache_ctor_def Let_def)

section \<open>Ports and names\<close>

lemma rlock_port_bounds: "1024 \<le> rlock_port rand now lp \<and> rlock_port rand now lp < 2 ^ 15"
proof -
  let ?r = "rand (rlock_seed now lp) mod 32000"
  have r: "take_bit 15 ?r = ?r" by (simp add: take_bit_nat_eq_self_iff mod_less_divisor [THEN less_trans])
  have "take_bit 15 (?r OR 1024) = ?r OR (1024 :: nat)" unfolding take_bit_or r by (simp add: take_bit_nat_eq_self)
  then have "?r OR (1024 :: nat) < 2 ^ 15" by (simp only: take_bit_nat_eq_self_iff)
  moreover have "1024 \<le> ?r OR (1024 :: nat)"
  proof (rule ccontr)
    assume "\<not> 1024 \<le> ?r OR (1024 :: nat)"
    then have "take_bit 10 (?r OR (1024 :: nat)) = ?r OR 1024" by (intro take_bit_nat_eq_self) simp
    moreover have "bit (?r OR (1024 :: nat)) 10"
      using bit_exp_iff [where 'a = nat, of 10 10] by (simp add: bit_or_iff)
    ultimately show False by (metis bit_take_bit_iff less_irrefl)
  qed
  ultimately show ?thesis by (simp add: rlock_port_def)
qed

lemma dec_inject: "dec m = dec n \<longleftrightarrow> m = n"
  using dec_value_dec by metis

lemma char_of_unat_inject: "char_of (unat (b :: byte)) = char_of (unat c) \<longleftrightarrow> b = c"
proof
  assume "char_of (unat b) = char_of (unat c)"
  then have "of_char (char_of (unat b)) = (of_char (char_of (unat c)) :: nat)" by simp
  then have "unat b mod 256 = unat c mod 256" by simp
  moreover have "unat b < 256" "unat c < 256" using unsigned_less [of b] unsigned_less [of c] by simp_all
  ultimately show "b = c" by (simp add: word_unat_eq_iff)
qed simp

lemma client_name_inject: "client_name m = client_name n \<longleftrightarrow> m = n"
proof -
  have "inj (\<lambda>b :: byte. char_of (unat b))" by (rule injI) (rule char_of_unat_inject [THEN iffD1])
  then show ?thesis by (simp add: client_name_def inj_map_eq_map dec_inject)
qed

end
