(* ===== verification/Tester_Main.thy ===== *)
theory Tester_Main
  imports Lock_Tester Client_Setup
begin

text \<open>
  \<^verbatim>\<open>main\<close> of \<^verbatim>\<open>lock_tester.cc\<close>: the tests it selects, each as a phase of threads that are all
  joined before the next begins, on counters that are never reset. On every service that
  keeps the contract of \<open>Lock_Service\<close> no check fails in any phase. The clients that \<open>main\<close> makes have no
  \<^verbatim>\<open>lock_release_user\<close>, so they cannot give a lock back, and a phase in which two of them want one lock does not end.
\<close>

section \<open>The phases\<close>

definition nt :: nat where "nt = 6"

datatype phase = Alone "action list" | Threads nat "nat \<Rightarrow> action list"

text \<open>\<open>arg\<close> is the number that \<^verbatim>\<open>atoi\<close> reads from the second argument, when there is one.\<close>

definition tester_main :: "int \<Rightarrow> int \<Rightarrow> phase list res" where
  "tester_main argc arg =
     (if argc < 2 then Inl Exit
      else if argc > 2 \<and> (arg < 1 \<or> arg > 5) then Inl Exit
      else (let test = (if argc > 2 then arg else 0)
            in Inr ((if test = 0 \<or> test = 1 then [Alone test1] else [])
              @ (if test = 0 \<or> test = 2 then [Threads nt test2] else [])
              @ (if test = 0 \<or> test = 3 then [Threads nt test3] else [])
              @ (if test = 0 \<or> test = 4 then [Threads 2 test4] else [])
              @ (if test = 0 \<or> test = 5 then [Threads nt test5] else []))))"

text \<open>
  Thread \<open>i\<close> of a phase is the party \<open>who (k, i)\<close> of the service, where \<open>k\<close> is the client whose functions
  its body calls.
\<close>

fun caller :: "action list \<Rightarrow> nat" where
  "caller (Acquire k l # as) = k"
| "caller _ = 0"

definition spawn :: "(nat \<times> nat \<Rightarrow> 'c) \<Rightarrow> nat \<Rightarrow> (nat \<Rightarrow> action list) \<Rightarrow> 'c \<Rightarrow> action list" where
  "spawn who n body p = (case find (\<lambda>i. who (caller (body i), i) = p) [0..<n] of Some i \<Rightarrow> body i | None \<Rightarrow> [])"

text \<open>A step of a thread; all threads are joined and the next phase begins; a phase that runs alone.\<close>

inductive main_step ::
  "('s \<Rightarrow> 's \<Rightarrow> bool) \<Rightarrow> ('s \<Rightarrow> 'c \<Rightarrow> bool) \<Rightarrow> lockid \<Rightarrow> (nat \<times> nat \<Rightarrow> 'c) \<Rightarrow>
   's \<times> counters \<times> ('c \<Rightarrow> action list) \<times> phase list \<Rightarrow> 's \<times> counters \<times> ('c \<Rightarrow> action list) \<times> phase list \<Rightarrow> bool"
  for step :: "'s \<Rightarrow> 's \<Rightarrow> bool" and holds :: "'s \<Rightarrow> 'c \<Rightarrow> bool" and lid :: lockid and who :: "nat \<times> nat \<Rightarrow> 'c" where
  working: "tester_step step holds lid (s, ct, todo) (s', ct', todo') \<Longrightarrow>
    main_step step holds lid who (s, ct, todo, ps) (s', ct', todo', ps)"
| spawning: "\<forall>c. todo c = [] \<Longrightarrow>
    main_step step holds lid who (s, ct, todo, Threads n body # ps) (s, ct, spawn who n body, ps)"
| alone: "\<forall>c. todo c = [] \<Longrightarrow> run_alone as ct = Inr ct' \<Longrightarrow> step\<^sup>*\<^sup>* s s' \<Longrightarrow> \<forall>c. \<not> holds s' c \<Longrightarrow>
    main_step step holds lid who (s, ct, todo, Alone as # ps) (s', ct', todo, ps)"

section \<open>The counters between the phases\<close>

fun phase_ok :: "phase \<Rightarrow> bool" where
  "phase_ok (Alone as) \<longleftrightarrow> as = test1"
| "phase_ok (Threads n body) \<longleftrightarrow> (\<forall>i. script_ok lock_a False False (body i))"

lemma main_phases_ok: "tester_main argc arg = Inr ps \<Longrightarrow> p \<in> set ps \<Longrightarrow> phase_ok p"
  by (auto simp: tester_main_def Let_def tests_ok split: if_splits)

lemma slots: "slot lock_a = 1" "slot lock_b = 2"
  by (simp_all add: slot_def lock_a_def lock_b_def)

lemma test1_passes: "ct 1 = 0 \<Longrightarrow> ct 2 = 0 \<Longrightarrow> run_alone test1 ct = Inr ct"
  by (simp add: test1_def check_grant_def check_release_def Let_def slots fun_upd_idem)

lemma spawn_script:
  assumes "\<And>i. script_ok lid False False (body i)"
  shows "script_ok lid False False (spawn who n body p)"
  using assms by (simp add: spawn_def split: option.split)

context lock_service
begin

definition main_inv :: "'s \<times> counters \<times> ('c \<Rightarrow> action list) \<times> phase list \<Rightarrow> bool" where
  "main_inv = (\<lambda>(s, ct, todo, ps). tester_inv lock_a (s, ct, todo) \<and> (\<forall>x. x \<noteq> slot lock_a \<longrightarrow> ct x = 0)
     \<and> (\<forall>p \<in> set ps. phase_ok p))"

lemma joined:
  assumes "tester_inv lid (s, ct, todo)" and "\<forall>c. todo c = []"
  shows "reach s" "\<not> holds s c" "ct (slot lid) = 0"
proof -
  obtain G where r: "reach s" and ok: "\<forall>c. script_ok lid (holds s c) (c \<in> G) (todo c)"
    and ct: "ct (slot lid) = int (card G)" using assms(1) by (rule tester_invE)
  have none: "\<not> holds s c \<and> c \<notin> G" for c using ok [rule_format, of c] assms(2) by simp
  then have "G = {}" by auto
  then show "reach s" "\<not> holds s c" "ct (slot lid) = 0" using r ct none by simp_all
qed

lemma tester_step_far:
  assumes "tester_step step holds lid p p'" and "tester_inv lid p" and "x \<noteq> slot lid"
  shows "fst (snd p') x = fst (snd p) x"
  using assms
proof (induction rule: tester_step.induct)
  case (granted todo c l as ct ct' s)
  then show ?case using tester_inv_checks(1) [OF granted.prems(1) granted.hyps(1)] by auto
next
  case (given_back todo c l as ct ct' s)
  then show ?case using tester_inv_checks(2) [OF given_back.prems(1) given_back.hyps(1)] by auto
qed simp

lemma main_step_inv:
  assumes "main_step step holds lock_a who q q'" and "main_inv q"
  shows "main_inv q'"
  using assms
proof (induction rule: main_step.induct)
  case (working s ct todo s' ct' todo' ps)
  have "tester_inv lock_a (s, ct, todo)" using working.prems by (simp add: main_inv_def)
  from tester_step_inv [OF working.hyps this] tester_step_far [OF working.hyps this]
  show ?case using working.prems by (auto simp: main_inv_def)
next
  case (spawning todo s ct n body ps)
  have "tester_inv lock_a (s, ct, todo)" using spawning.prems by (simp add: main_inv_def)
  note j = joined [OF this spawning.hyps]
  have "tester_inv lock_a (s, ct, spawn who n body)"
    using j spawning.prems by (intro tester_invI [where G = "{}"]) (auto simp: main_inv_def intro!: spawn_script)
  then show ?case using spawning.prems by (simp add: main_inv_def)
next
  case (alone todo as ct ct' s s' ps)
  have "tester_inv lock_a (s, ct, todo)" using alone.prems by (simp add: main_inv_def)
  note j = joined [OF this alone.hyps(1)]
  have zero: "ct x = 0" for x using alone.prems j(3) by (cases "x = slot lock_a") (auto simp: main_inv_def)
  have "ct' = ct" using test1_passes [of ct] zero alone.prems alone.hyps(2) by (auto simp: main_inv_def)
  moreover have "tester_inv lock_a (s', ct, todo)"
    using reach_steps [OF alone.hyps(3) j(1)] alone.hyps(1,4) zero by (intro tester_invI [where G = "{}"]) auto
  ultimately show ?case using alone.prems by (simp add: main_inv_def)
qed

lemma main_passes:
  assumes "tester_main argc arg = Inr ps" and "(main_step step holds lock_a who)\<^sup>*\<^sup>* (s0, \<lambda>_. 0, \<lambda>_. [], ps) (s, ct, todo, qs)"
    and "reach s0" and "\<And>c. \<not> holds s0 c"
  shows "todo c = Check_Grant l # as \<Longrightarrow> \<exists>ct'. check_grant ct l = Inr ct'"
    and "todo c = Check_Release l # as \<Longrightarrow> \<exists>ct'. check_release ct l = Inr ct'"
    and "qs = Alone bs # qs' \<Longrightarrow> \<forall>c. todo c = [] \<Longrightarrow> run_alone bs ct = Inr ct"
    and "\<forall>c. todo c = [] \<Longrightarrow> ct = (\<lambda>_. 0)"
proof -
  have "main_inv (s0, \<lambda>_. 0, \<lambda>_. [], ps)"
    using assms(3,4) main_phases_ok [OF assms(1)] by (auto simp: main_inv_def intro!: tester_invI [where G = "{}"])
  with assms(2) have inv: "main_inv (s, ct, todo, qs)"
    by (induction rule: rtranclp_induct) (auto intro: main_step_inv)
  then have t: "tester_inv lock_a (s, ct, todo)" by (simp add: main_inv_def)
  show "todo c = Check_Grant l # as \<Longrightarrow> \<exists>ct'. check_grant ct l = Inr ct'"
    and "todo c = Check_Release l # as \<Longrightarrow> \<exists>ct'. check_release ct l = Inr ct'"
    using tester_inv_checks [OF t] by blast+
  have zero: "ct = (\<lambda>_. 0)" if "\<forall>c. todo c = []"
  proof
    show "ct x = 0" for x using joined(3) [OF t that] inv by (cases "x = slot lock_a") (auto simp: main_inv_def)
  qed
  then show "\<forall>c. todo c = [] \<Longrightarrow> ct = (\<lambda>_. 0)" .
  show "run_alone bs ct = Inr ct" if "qs = Alone bs # qs'" "\<forall>c. todo c = []"
    using zero [OF that(2)] that(1) inv test1_passes [of ct] by (auto simp: main_inv_def)
qed

end

section \<open>The clients of the tester\<close>

text \<open>\<^verbatim>\<open>lc[i] = new lock_client_cache(dst)\<close>, each at its time: without a \<^verbatim>\<open>lock_release_user\<close>.\<close>

definition tester_clients :: "(u32 \<Rightarrow> nat) \<Rightarrow> u64 list \<Rightarrow> lock_client_cache list" where
  "tester_clients rand ts = make_clients rand False 0 ts"

text \<open>Which client has a \<^verbatim>\<open>lock_release_user\<close>, and the party of thread \<open>i\<close> when it calls client \<open>k\<close>.\<close>

definition lu_of :: "lock_client_cache list \<Rightarrow> string \<Rightarrow> bool" where
  "lu_of cs c \<longleftrightarrow> (\<exists>k < length cs. cl_id (cs ! k) = c \<and> cl_lu (cs ! k))"

definition party_of :: "lock_client_cache list \<Rightarrow> nat \<times> nat \<Rightarrow> string \<times> nat" where
  "party_of cs = (\<lambda>(k, i). (cl_id (cs ! k), i))"

lemma lu_of_tester: "lu_of (tester_clients rand ts) = (\<lambda>_. False)"
  using make_clients_lu [of _ rand False 0 ts] by (auto simp: lu_of_def tester_clients_def fun_eq_iff)

text \<open>A party waits when its client has the lock, or it is about to ask for it; two clients cannot both get it.\<close>

definition wants :: "lock_sys \<Rightarrow> (string \<times> nat \<Rightarrow> action list) \<Rightarrow> string \<times> nat \<Rightarrow> bool" where
  "wants \<sigma> todo p \<longleftrightarrow> fst (abs_lock (srv \<sigma>) lock_a) = Some (fst p) \<or> is_acquire lock_a (todo p)"

definition contended :: "lock_sys \<Rightarrow> (string \<times> nat \<Rightarrow> action list) \<Rightarrow> bool" where
  "contended \<sigma> todo \<longleftrightarrow> (\<exists>p q. fst p \<noteq> fst q \<and> wants \<sigma> todo p \<and> wants \<sigma> todo q)"

lemma contended_unfinished: "contended \<sigma> todo \<Longrightarrow> \<exists>p. todo p \<noteq> []"
  unfolding contended_def wants_def by (metis is_acquire.simps(2) option.inject)

lemma not_contended: "\<forall>p. todo p = [] \<Longrightarrow> \<not> contended \<sigma> todo"
  using contended_unfinished by blast

lemma wants_step:
  assumes "tester_step (lock_step_of (\<lambda>_. False) lock_a) in_section lock_a (s, ct, todo) (s', ct', todo')"
    and r: "lock_reach_of (\<lambda>_. False) lock_a s" and w: "wants s todo p"
  shows "wants s' todo' p"
  using assms(1)
proof cases
  case service
  have r': "lock_reach_of (\<lambda>_. False) lock_a s'" by (rule lock_next [OF r service(3)])
  have holder: "in_section \<sigma> p \<Longrightarrow> fst (abs_lock (srv \<sigma>) lock_a) = Some (fst p)" if "lock_reach_of (\<lambda>_. False) lock_a \<sigma>" for \<sigma>
    using inside_holder(1) [OF lock_reach_inv [OF that]] by (cases p) (simp add: in_section_def)
  show ?thesis
  proof (cases "fst (abs_lock (srv s) lock_a) = Some (fst p)")
    case True
    then show ?thesis using first_holder_stays [OF service(3) r] by (simp add: wants_def)
  next
    case False
    then have "\<not> in_section s p" using holder [OF r] by blast
    then show ?thesis using w False holder [OF r'] service(2) by (auto simp: wants_def)
  qed
qed (use w in \<open>auto simp: wants_def\<close>)

text \<open>A phase in which threads of two clients begin by asking for the lock.\<close>

fun clashing :: "(nat \<times> nat \<Rightarrow> string \<times> nat) \<Rightarrow> phase \<Rightarrow> bool" where
  "clashing who (Alone as) \<longleftrightarrow> False"
| "clashing who (Threads n body) \<longleftrightarrow> (\<exists>i < n. \<exists>j < n. is_acquire lock_a (body i) \<and> is_acquire lock_a (body j)
     \<and> fst (who (caller (body i), i)) \<noteq> fst (who (caller (body j), j)))"

lemma spawn_at: "i < n \<Longrightarrow> spawn (party_of cs) n body (party_of cs (caller (body i), i)) = body i"
proof -
  assume i: "i < n"
  have "find (\<lambda>j. party_of cs (caller (body j), j) = party_of cs (caller (body i), i)) [0..<n] = Some i"
    unfolding find_Some_iff using i by (intro exI [of _ i]) (auto simp: party_of_def)
  then show ?thesis by (simp add: spawn_def)
qed

definition blocked_main :: "(nat \<times> nat \<Rightarrow> string \<times> nat) \<Rightarrow> lock_sys \<times> counters \<times> (string \<times> nat \<Rightarrow> action list) \<times> phase list \<Rightarrow> bool" where
  "blocked_main who = (\<lambda>(s, ct, todo, ps). lock_reach_of (\<lambda>_. False) lock_a s \<and> (contended s todo \<or> (\<exists>ph \<in> set ps. clashing who ph)))"

lemma blocked_step:
  assumes "main_step (lock_step_of (\<lambda>_. False) lock_a) in_section lock_a (party_of cs) q q'" and "blocked_main (party_of cs) q"
  shows "blocked_main (party_of cs) q'"
  using assms
proof (induction rule: main_step.induct)
  case (working s ct todo s' ct' todo' ps)
  have r: "lock_reach_of (\<lambda>_. False) lock_a s" using working.prems by (simp add: blocked_main_def)
  have r': "lock_reach_of (\<lambda>_. False) lock_a s'" using working.hyps by cases (auto intro: lock_next [OF r] r)
  have "contended s' todo'" if "contended s todo"
    using that wants_step [OF working.hyps r] unfolding contended_def by blast
  then show ?case using working.prems r' by (auto simp: blocked_main_def)
next
  case (spawning todo s ct n body ps)
  have r: "lock_reach_of (\<lambda>_. False) lock_a s" and c: "\<exists>ph \<in> set (Threads n body # ps). clashing (party_of cs) ph"
    using spawning.prems not_contended [OF spawning.hyps] unfolding blocked_main_def by blast+
  show ?case
  proof (cases "clashing (party_of cs) (Threads n body)")
    case True
    then obtain i j where "i < n" "j < n" "is_acquire lock_a (body i)" "is_acquire lock_a (body j)"
      "fst (party_of cs (caller (body i), i)) \<noteq> fst (party_of cs (caller (body j), j))" by auto
    then have "contended s (spawn (party_of cs) n body)"
      unfolding contended_def wants_def
      by (intro exI [of _ "party_of cs (caller (body i), i)"] exI [of _ "party_of cs (caller (body j), j)"]) (simp add: spawn_at)
    then show ?thesis using r by (simp add: blocked_main_def)
  next
    case False
    then show ?thesis using r c by (auto simp: blocked_main_def)
  qed
next
  case (alone todo as ct ct' s s' ps)
  have r: "lock_reach_of (\<lambda>_. False) lock_a s" using alone.prems by (simp add: blocked_main_def)
  have "lock_reach_of (\<lambda>_. False) lock_a s'" using caching.reach_steps [OF alone.hyps(3) r] .
  moreover have "\<exists>ph \<in> set ps. clashing (party_of cs) ph"
    using alone.prems not_contended [OF alone.hyps(1)] by (auto simp: blocked_main_def)
  ultimately show ?case by (simp add: blocked_main_def)
qed

lemma main_clashes:
  assumes "tester_main argc arg = Inr ps" and "\<not> (2 < argc \<and> (arg = 1 \<or> arg = 4))" and "cl_id (cs ! 0) \<noteq> cl_id (cs ! 1)"
  shows "\<exists>ph \<in> set ps. clashing (party_of cs) ph"
proof -
  have rep: "concat (replicate 10 (x # xs)) = x # xs @ concat (replicate 9 (x # xs))" for x :: action and xs
    by (simp add: numeral_nat)
  have two: "clashing (party_of cs) (Threads nt test2)" "clashing (party_of cs) (Threads nt test3)"
    using assms(3) unfolding clashing.simps
    by (intro exI [of _ 0] exI [of _ 1] conjI; simp add: test2_def test3_def rep nt_def party_of_def)+
  moreover have "clashing (party_of cs) (Threads nt test5)"
    using assms(3) unfolding clashing.simps
    by (intro exI [of _ 0] exI [of _ 5] conjI; simp add: test5_def rep nt_def party_of_def)
  moreover have "Threads nt test2 \<in> set ps \<or> Threads nt test3 \<in> set ps \<or> Threads nt test5 \<in> set ps"
    using assms(1,2) by (auto simp: tester_main_def Let_def split: if_splits)
  ultimately show ?thesis by blast
qed

lemma main_blocked:
  assumes "tester_main argc arg = Inr ps" and "\<not> (2 < argc \<and> (arg = 1 \<or> arg = 4))" and "cl_id (cs ! 0) \<noteq> cl_id (cs ! 1)"
    and "(main_step (lock_step_of (\<lambda>_. False) lock_a) in_section lock_a (party_of cs))\<^sup>*\<^sup>* (lock_sys_init junk, \<lambda>_. 0, \<lambda>_. [], ps) (s, ct, todo, qs)"
  shows "qs \<noteq> [] \<or> (\<exists>p. todo p \<noteq> [])"
proof -
  have "blocked_main (party_of cs) (lock_sys_init junk, \<lambda>_. 0, \<lambda>_. [], ps)"
    using main_clashes [OF assms(1-3)] lock_init by (simp add: blocked_main_def)
  with assms(4) have "blocked_main (party_of cs) (s, ct, todo, qs)"
    by (induction rule: rtranclp_induct) (auto intro: blocked_step)
  then show ?thesis using contended_unfinished by (auto simp: blocked_main_def)
qed

end
