(* ===== verification/Lock_Properties.thy ===== *)
theory Lock_Properties
  imports Tester_Main Client_Setup
begin

text \<open>
  The properties of the lock servers and their clients, each with a concrete instance of its
  hypotheses: a run of the caching lock system in which a first client gets the lock and a
  second one asks for it, and a run of the blocking server.
\<close>

section \<open>A run of the caching system\<close>

definition ca :: string where "ca = client_name 1024"
definition cb :: string where "cb = client_name 1025"

lemma names [simp]: "ca \<noteq> cb" "cb \<noteq> ca" "ca \<noteq> []" "cb \<noteq> []" "[] \<noteq> ca" "[] \<noteq> cb" "cb \<noteq> ''c''" "''c'' \<noteq> cb"
  unfolding ca_def cb_def client_name_inject by (simp_all add: client_name_def)

text \<open>Client a asks for lock 1, is granted it and enters; then client b asks and must wait.\<close>

definition asking :: client_table where
  "asking = [1 \<mapsto> \<lparr>c_status = CAcquiring, c_revoke = False, c_retry = False\<rparr>]"

definition entered :: client_table where
  "entered = [1 \<mapsto> \<lparr>c_status = CLocked, c_revoke = False, c_retry = False\<rparr>]"

definition held_server :: lock_server_cache where
  "held_server = \<lparr>nacquire = 0, lock_table = [1 \<mapsto> \<lparr>clientId = ca, clientQ = [], clientS = {}, e_status = SLocked\<rparr>]\<rparr>"

definition wanted_server :: lock_server_cache where
  "wanted_server = \<lparr>nacquire = 0, lock_table = [1 \<mapsto> \<lparr>clientId = ca, clientQ = [cb], clientS = {cb}, e_status = SWaiting\<rparr>]\<rparr>"

definition run1 :: lock_sys where
  "run1 = client_move ca 0 asking Calling {#} {#Acq_Req ca 0#} (lock_sys_init 0)"

definition run2 :: lock_sys where
  "run2 = run1\<lparr>srv := held_server, net := {#Acq_Rep ca 0 LOK#}\<rparr>"

definition run3 :: lock_sys where
  "run3 = client_move ca 0 entered Inside {#Acq_Rep ca 0 LOK#} {#} run2"

definition run4 :: lock_sys where
  "run4 = client_move cb 1 asking Calling {#} {#Acq_Req cb 1#} run3"

definition run5 :: lock_sys where
  "run5 = run4\<lparr>srv := wanted_server, net := {#Acq_Rep cb 1 LRETRY, Revoke_Call ca#}\<rparr>"

lemmas run_defs = run1_def run2_def run3_def run4_def run5_def client_move_def lock_sys_init_def

lemma step1: "lock_step_of lu 1 (lock_sys_init 0) run1"
  using lock_step_of.acquire [of ca "lock_sys_init 0" 0 1 Call_Server asking]
  by (simp add: run1_def lcc_defs asking_def lock_at_def client_lock_ctor_def sent_if_def lock_sys_init_def)

lemma step2: "lock_step_of lu 1 run1 run2"
proof -
  have "lsc_acquire (srv run1) 1 ca = Inr (LOK, None, held_server)"
    by (simp add: run_defs lsc_ctor_def lsc_acquire_def held_server_def)
  from lock_step_of.serve_acquire [OF _ this, of 0] show ?thesis
    by (simp add: run_defs call_to_def)
qed

lemma step3: "lock_step_of lu 1 run2 run3"
proof -
  have "lcc_acquire_reply (ctab run2 ca) 1 LOK = (Return LOK, entered)"
    by (simp add: run_defs lcc_defs asking_def entered_def lock_at_def)
  from lock_step_of.acquire_reply [OF _ _ this, of 0] show ?thesis
    by (simp add: run_defs sent_if_def)
qed

lemma step4: "lock_step_of lu 1 run3 run4"
proof -
  have "lcc_acquire (ctab run3 cb) 1 = (Call_Server, asking)"
    by (simp add: run_defs lcc_defs asking_def lock_at_def client_lock_ctor_def)
  from lock_step_of.acquire [OF _ _ this, of 1] show ?thesis by (simp add: run_defs sent_if_def)
qed

lemma step5: "lock_step_of lu 1 run4 run5"
proof -
  have "lsc_acquire (srv run4) 1 cb = Inr (LRETRY, Some ca, wanted_server)"
    by (simp add: run_defs held_server_def lsc_acquire_def acquire_entry_def wanted_server_def)
  from lock_step_of.serve_acquire [OF _ this, of 1] show ?thesis by (simp add: run_defs call_to_def add_mset_commute)
qed

lemmas run1 = lock_next [OF lock_init step1]
lemmas run2 = lock_next [OF run1 step2]
lemmas run3 = lock_next [OF run2 step3]
lemmas run4 = lock_next [OF run3 step4]
lemmas run5 = lock_next [OF run4 step5]

section \<open>The caching lock service\<close>

text \<open>C6: Mutual exclusion of the caching locks. In every reachable state of the lock server and
  all its caching clients, with messages delivered in any order, at most one thread of all
  clients is between \<open>acquire\<close> and \<open>release\<close> of a lock.\<close>

theorem caching_mutual_exclusion:
  assumes "lock_reach lid \<sigma>" and "pcs \<sigma> c t = Inside" and "pcs \<sigma> d u = Inside"
  shows "c = d \<and> t = u"
  using caching.exclusive [OF assms(1), of "(c, t)" "(d, u)"] assms(2,3) by (simp add: in_section_def)

theorem caching_mutual_exclusion_witness: "{(d, u). pcs run3 d u = Inside} = {(ca, 0)}"
proof -
  have i: "pcs run3 ca 0 = Inside" by (simp add: run_defs)
  have "d = ca \<and> u = 0" if "pcs run3 d u = Inside" for d u
    by (rule caching_mutual_exclusion [OF run3 that i])
  with i have "pcs run3 d u = Inside \<longleftrightarrow> (d, u) = (ca, 0)" for d u by (metis prod.inject)
  then show ?thesis by simp
qed

text \<open>C10: No message of the caching lock protocol is lost or unexpected. In every reachable state in
  which each client has a free thread, every message in flight is one its receiver expects there: a
  request or an answer belongs to a thread that waits for it and the server's handler does not
  fault, a revoke call reaches the holder, at a client that has or is about to have the lock,
  a retry call the front of the queue of a free lock, where a thread waits. And some step takes that message off the network.\<close>

theorem caching_messages_taken_up:
  assumes "lock_reach lid \<sigma>" and "\<forall>c. \<exists>t. pcs \<sigma> c t = Out" and "x \<in># net \<sigma>"
  shows "expected lid \<sigma> x \<and> (\<exists>\<sigma>'. lock_step lid \<sigma> \<sigma>' \<and> count (net \<sigma>') x < count (net \<sigma>) x)"
  using message_taken_up [OF lock_reach_inv [OF assms(1)] _ assms(3)] assms(2)
  by (simp add: free_thread_def consumed_def)

theorem caching_messages_taken_up_witness:
  "expected 1 run5 (Revoke_Call ca) \<and> (\<exists>\<sigma>'. lock_step 1 run5 \<sigma>' \<and> Revoke_Call ca \<notin># net \<sigma>')"
proof -
  have "\<forall>c. \<exists>t. pcs run5 c t = Out"
  proof
    show "\<exists>t. pcs run5 c t = Out" for c by (rule exI [of _ 2]) (simp add: run_defs)
  qed
  moreover have c: "count (net run5) (Revoke_Call ca) = 1" by (simp add: run_defs)
  moreover from c have "Revoke_Call ca \<in># net run5" unfolding count_greater_zero_iff [symmetric] by simp
  ultimately show ?thesis
    using caching_messages_taken_up [OF run5, of "Revoke_Call ca"] unfolding not_in_iff by fastforce
qed

text \<open>C11: The caching lock protocol does not get stuck. While a thread waits for the server, some
  thread is in its section, or a message is in flight, or a waiting thread has been told to
  try again: no wake-up is lost.\<close>

theorem caching_not_stuck:
  assumes "lock_reach lid \<sigma>" and "pcs \<sigma> c t = Calling \<or> pcs \<sigma> c t = Awaiting"
  shows "net \<sigma> \<noteq> {#} \<or> (\<exists>d u. pcs \<sigma> d u = Inside)
    \<or> (\<exists>d u. pcs \<sigma> d u = Awaiting \<and> c_retry (lock_at (ctab \<sigma> d) lid))"
  by (rule waiting_has_cause [OF lock_reach_inv [OF assms(1)] assms(2)])

theorem caching_not_stuck_witness: "pcs run1 ca 0 = Calling \<and> net run1 \<noteq> {#}"
proof -
  have c: "pcs run1 ca 0 = Calling" by (simp add: run_defs)
  have "\<not> (\<exists>d u. pcs run1 d u = Inside)" "\<not> (\<exists>d u. pcs run1 d u = Awaiting)" by (auto simp: run_defs)
  then show ?thesis using c caching_not_stuck [OF run1, of ca 0] by blast
qed

text \<open>The lock tester detects broken locks only: on the caching locks none of its checks fails, in
  any interleaving of threads that run its tests on one lock; and its first test, which runs
  alone, passes.\<close>

theorem tester_never_fails:
  assumes "(tester_step (lock_step lid) in_section lid)\<^sup>*\<^sup>* (s0, \<lambda>_. 0, todo0) (s, ct, todo)" and "lock_reach lid s0"
    and "\<And>p. \<not> in_section s0 p" and "\<And>p. script_ok lid False False (todo0 p)"
  shows "(todo p = Check_Grant l # as \<longrightarrow> (\<exists>ct'. check_grant ct l = Inr ct'))
    \<and> (todo p = Check_Release l # as \<longrightarrow> (\<exists>ct'. check_release ct l = Inr ct'))
    \<and> (script_ok lock_a False False (test2 i) \<and> script_ok lock_a False False (test3 i)
       \<and> script_ok lock_a False False (test4 i) \<and> script_ok lock_a False False (test5 i))
    \<and> (\<exists>ct'. run_alone test1 (\<lambda>_. 0) = Inr ct')"
proof -
  have "\<exists>ct'. run_alone test1 (\<lambda>_. 0) = Inr ct'"
    by (simp add: test1_def check_grant_def check_release_def Let_def lock_a_def lock_b_def slot_def)
  then show ?thesis using caching.tester_passes [OF assms] tests_ok by blast
qed

lemma in_section_runs: "in_section (lock_sys_init 0) = (\<lambda>p. False)" "in_section run1 = (\<lambda>p. False)"
  "in_section run2 = (\<lambda>p. False)" "in_section run3 = (\<lambda>p. p = (ca, 0))"
  by (auto simp: in_section_def run_defs fun_eq_iff)

theorem tester_never_fails_witness:
  "in_section run3 (ca, 0) \<and> (\<exists>ct'. check_grant (\<lambda>_. 0) 1 = Inr ct')"
proof -
  let ?as = "[Check_Grant 1, Check_Release 1, Release 0 1]"
  let ?todo = "\<lambda>p :: string \<times> nat. if p = (ca, 0) then Acquire 0 1 # ?as else []"
    and ?step = "tester_step (lock_step 1) in_section 1"
  have s1: "?step (lock_sys_init 0, \<lambda>_. 0, ?todo) (run1, \<lambda>_. 0, ?todo)"
    using tester_step.service [of "lock_step 1" "lock_sys_init 0" run1 in_section 1 ?todo "\<lambda>_. 0", OF step1]
    unfolding in_section_runs by simp
  have s2: "?step (run1, \<lambda>_. 0, ?todo) (run2, \<lambda>_. 0, ?todo)"
    using tester_step.service [of "lock_step 1" run1 run2 in_section 1 ?todo "\<lambda>_. 0", OF step2]
    unfolding in_section_runs by simp
  have t: "(\<lambda>c. if (c = (ca, 0)) = False then ?todo c else tl (?todo c)) = (\<lambda>p. if p = (ca, 0) then ?as else [])" by auto
  have s3: "?step (run2, \<lambda>_. 0, ?todo) (run3, \<lambda>_. 0, \<lambda>p. if p = (ca, 0) then ?as else [])"
    using tester_step.service [of "lock_step 1" run2 run3 in_section 1 ?todo "\<lambda>_. 0", OF step3]
    unfolding in_section_runs t by simp
  have "?step\<^sup>*\<^sup>* (lock_sys_init 0, \<lambda>_. 0, ?todo) (run3, \<lambda>_. 0, \<lambda>p. if p = (ca, 0) then ?as else [])"
    using s1 s2 s3 by (meson converse_rtranclp_into_rtranclp rtranclp.rtrancl_refl)
  from tester_never_fails [OF this lock_init, of "(ca, 0)" 1 "[Check_Release 1, Release 0 1]"] show ?thesis
    by (simp add: in_section_runs)
qed

section \<open>The lock tester with the clients it makes\<close>

text \<open>Six clients, the first on port 1024 and the others on 1025, for one generator of \<^verbatim>\<open>rand\<close>.\<close>

definition six_rand :: "u32 \<Rightarrow> nat" where
  "six_rand seed = (if seed = 0 then 0 else 1)"

definition six_clients :: "lock_client_cache list" where
  "six_clients = tester_clients six_rand (replicate 6 0)"

lemma six_ids: "cl_id (six_clients ! 0) = ca" "cl_id (six_clients ! 1) = cb"
proof -
  have r: "replicate 6 (0 :: u64) = [0, 0, 0, 0, 0, 0]" by (simp add: numeral_nat)
  show "cl_id (six_clients ! 0) = ca" "cl_id (six_clients ! 1) = cb"
    unfolding six_clients_def tester_clients_def r
    by (simp_all add: lock_client_cache_ctor_def Let_def rlock_port_def rlock_seed_def six_rand_def ca_def cb_def)
qed


text \<open>A run of the second test: the first client gets the lock, its thread makes its checks, the second client
  asks, and the first is told to give the lock back when its thread leaves.\<close>

definition leaving :: client_table where
  "leaving = [1 \<mapsto> \<lparr>c_status = CReleasing, c_revoke = False, c_retry = False\<rparr>]"

definition run6 :: lock_sys where
  "run6 = client_move ca 1 leaving Out {#Revoke_Call ca#} {#} run5"

lemma step6: "lock_step_of lu 1 run5 run6"
proof -
  have "lcc_revoke (lu ca) (ctab run5 ca) 1 = Inr (Return LOK, leaving)"
    by (simp add: run_defs lcc_defs entered_def leaving_def lock_at_def)
  from lock_step_of.revoke [where lu = lu, OF _ _ this, of 1] show ?thesis by (simp add: run6_def run_defs sent_if_def)
qed

lemma in_section_later: "in_section run4 = (\<lambda>p. p = (ca, 0))" "in_section run5 = (\<lambda>p. p = (ca, 0))"
  "in_section run6 = (\<lambda>p. p = (ca, 0))"
  by (auto simp: in_section_def run6_def run_defs fun_eq_iff)

text \<open>A step of the service in which nobody enters or leaves, and one in which a party enters.\<close>

lemma service_same:
  "step s s' \<Longrightarrow> in_section s' = in_section s \<Longrightarrow>
    main_step step in_section lid who (s, ct, todo, qs) (s', ct, todo, qs)"
  using tester_step.service [of step s s' in_section lid todo ct] by (simp add: main_step.working)

lemma service_enter:
  "step s s' \<Longrightarrow> in_section s = (\<lambda>_. False) \<Longrightarrow> in_section s' = (\<lambda>p. p = x) \<Longrightarrow> todo x = Acquire k lid # as \<Longrightarrow>
    main_step step in_section lid who (s, ct, todo, qs) (s', ct, todo(x := as), qs)"
proof -
  assume a: "step s s'" "in_section s = (\<lambda>_. False)" "in_section s' = (\<lambda>p. p = x)" "todo x = Acquire k lid # as"
  have t: "todo(x := as) = (\<lambda>c. if in_section s' c = in_section s c then todo c else tl (todo c))" using a(2-4) by auto
  show ?thesis unfolding t by (rule main_step.working, rule tester_step.service [where step = step, OF a(1)]) (use a(2-4) in auto)
qed


text \<open>C36: The names of caching clients. The port of a client is unprivileged and has 15 bits, and clients
  have the same name exactly when they have the same port. The first clients of two processes
  made in the same second always do: the server takes them for one client, and when
  the second asks for a lock the first holds, it asks the client of that name, which both are, to give it back.\<close>

theorem client_names:
  "1024 \<le> cl_port (fst (lock_client_cache_ctor rand now lp lu)) \<and> cl_port (fst (lock_client_cache_ctor rand now lp lu)) < 2 ^ 15
    \<and> (cl_id (fst (lock_client_cache_ctor rand now lp lu)) = cl_id (fst (lock_client_cache_ctor rand now' lp' lu))
        \<longleftrightarrow> cl_port (fst (lock_client_cache_ctor rand now lp lu)) = cl_port (fst (lock_client_cache_ctor rand now' lp' lu)))
    \<and> (\<exists>c sv1 sv2. cl_id (hd (make_clients rand lu 0 (now # ts))) = c \<and> cl_id (hd (make_clients rand lu 0 (now # us))) = c
        \<and> lsc_acquire (lsc_ctor n) lid c = Inr (LOK, None, sv1) \<and> lsc_acquire sv1 lid c = Inr (LRETRY, Some c, sv2))"
  using rlock_port_bounds [of rand now lp]
  by (simp add: lock_client_cache_ctor_def client_name_inject lsc_acquire_def lsc_ctor_def acquire_entry_def Let_def)

section \<open>The caching lock server\<close>

lemma held_inv: "lock_inv held_server"
  by (simp add: held_server_def lock_inv_def entry_inv_def)

lemma wanted_inv: "lock_inv wanted_server"
  by (simp add: wanted_server_def lock_inv_def entry_inv_def)

text \<open>C21: The caching server implements a lock with one holder and a queue. From a table that
  satisfies the invariant, \<open>acquire\<close> does not fault and grants, queues or revokes as the queue
  lock does; a \<open>release\<close> by the holder frees the lock and names the front of the queue to retry,
  any other release does nothing. Both keep the invariant and touch no other lock.\<close>

theorem server_refines_queue:
  assumes "lock_inv sv" and "cid \<noteq> []"
  shows "(\<exists>ret rv sv'. lsc_acquire sv lid cid = Inr (ret, rv, sv') \<and> lock_inv sv'
      \<and> queue_acquire cid (abs_lock sv lid) = (ret, rv, abs_lock sv' lid)
      \<and> (\<forall>l. l \<noteq> lid \<longrightarrow> lock_table sv' l = lock_table sv l))
    \<and> (\<exists>rt sv'. lsc_release sv lid cid = (LOK, rt, sv') \<and> lock_inv sv'
      \<and> queue_release cid (abs_lock sv lid) = (rt, abs_lock sv' lid)
      \<and> (\<forall>l. l \<noteq> lid \<longrightarrow> lock_table sv' l = lock_table sv l))"
  using acquire_refines [OF assms] release_refines [OF assms] by blast

theorem server_refines_queue_witness:
  "(\<exists>ret rv sv'. lsc_acquire held_server 1 cb = Inr (ret, rv, sv') \<and> lock_inv sv'
      \<and> queue_acquire cb (abs_lock held_server 1) = (ret, rv, abs_lock sv' 1))
    \<and> (\<exists>rt sv'. lsc_release wanted_server 1 ca = (LOK, rt, sv') \<and> lock_inv sv'
      \<and> queue_release ca (abs_lock wanted_server 1) = (rt, abs_lock sv' 1))"
  using server_refines_queue [OF held_inv, of cb 1] server_refines_queue [OF wanted_inv, of ca 1] by auto

text \<open>The caching server grants in order. When clients wait for a lock, an \<open>acquire\<close> that returns
  \<open>OK\<close> comes from the first of them, who leaves the queue; a client that waits keeps its
  place until then, and a new one goes to the back.\<close>

theorem acquire_first_come:
  assumes inv: "lock_inv sv" and cid: "cid \<noteq> []" and q: "snd (abs_lock sv lid) = x # q"
    and run: "lsc_acquire sv lid cid = Inr (ret, rv, sv')"
  shows "(ret = LOK \<longleftrightarrow> cid = x) \<and> snd (abs_lock sv' lid) =
    (if cid = x then q else if cid \<in> set q then x # q else x # q @ [cid])"
proof -
  obtain h where h: "abs_lock sv lid = (h, x # q)" using q by (cases "abs_lock sv lid") simp
  from acquire_refines [OF inv cid, of lid] run have
    "queue_acquire cid (h, x # q) = (ret, rv, abs_lock sv' lid)" by (auto simp: h)
  then show ?thesis by (cases "abs_lock sv' lid") (auto split: if_splits)
qed

theorem acquire_first_come_witness:
  "(LRETRY = LOK \<longleftrightarrow> ''c'' = cb) \<and> snd (abs_lock wanted_server 1) = [cb]
    \<and> (\<exists>sv'. lsc_acquire wanted_server 1 ''c'' = Inr (LRETRY, None, sv') \<and> snd (abs_lock sv' 1) = [cb, ''c''])"
proof -
  have q: "snd (abs_lock wanted_server 1) = cb # []" by (simp add: wanted_server_def abs_lock_def lock_of_def)
  obtain sv' where "lsc_acquire wanted_server 1 ''c'' = Inr (LRETRY, None, sv')"
    by (simp add: wanted_server_def lsc_acquire_def acquire_entry_def)
  with acquire_first_come [OF wanted_inv _ q this] q show ?thesis by auto
qed

text \<open>The caching server does not check that a lock is free before it grants it to the front of
  the queue: a waiting client that asks again, without having been told to, is granted the lock
  that another client still holds.\<close>

theorem front_takes_held_lock:
  "\<exists>sv1 sv2 sv3. lsc_acquire (lsc_ctor n) 1 ca = Inr (LOK, None, sv1)
    \<and> lsc_acquire sv1 1 cb = Inr (LRETRY, Some ca, sv2) \<and> fst (abs_lock sv2 1) = Some ca
    \<and> lsc_acquire sv2 1 cb = Inr (LOK, None, sv3) \<and> fst (abs_lock sv3 1) = Some cb"
  by (simp add: lsc_acquire_def lsc_ctor_def acquire_entry_def abs_lock_def lock_of_def Let_def)

section \<open>The blocking lock server\<close>

lemma plain_take:
  assumes "plain_reach (sv, ths)" and "ths t = Idle" and "ls_acquire sv lid = Some (ret, sv')"
  shows "plain_reach (sv', ths(t := Holds lid))"
proof -
  have "plain_reach (sv, ths(t := Wants lid))" using plain_next [OF assms(1) thread_step.want [of ths t sv lid, OF assms(2)]] .
  from plain_next [OF this thread_step.grant [of _ t lid sv ret sv']] assms(3) show ?thesis by simp
qed

lemma plain_sleep:
  assumes "plain_reach (sv, ths)" and "ths t = Idle" and "ls_acquire sv lid = None"
  shows "plain_reach (sv, ths(t := Asleep lid))"
proof -
  have "plain_reach (sv, ths(t := Wants lid))" using plain_next [OF assms(1) thread_step.want [of ths t sv lid, OF assms(2)]] .
  from plain_next [OF this thread_step.wait [of _ t lid sv]] assms(3) show ?thesis by simp
qed

definition two_locked :: lock_server where
  "two_locked = \<lparr>ls_nacquire = 0, ls_table = [1 \<mapsto> Locked, 2 \<mapsto> Locked]\<rparr>"

definition one_locked :: lock_server where
  "one_locked = \<lparr>ls_nacquire = 0, ls_table = [1 \<mapsto> Unlocked, 2 \<mapsto> Locked]\<rparr>"

definition sleepers :: "nat \<Rightarrow> thread" where
  "sleepers = (\<lambda>_. Idle)(0 := Holds 1, 1 := Holds 2, 2 := Asleep 1, 3 := Asleep 2)"

lemma example_sleepers: "plain_reach (two_locked, sleepers)"
proof -
  let ?one = "\<lparr>ls_nacquire = 0, ls_table = [1 \<mapsto> Locked]\<rparr>"
  have "plain_reach (?one, (\<lambda>_. Idle)(0 := Holds 1))"
    by (rule plain_take [OF plain_init]) (simp_all add: ls_acquire_def lock_server_ctor_def)
  then have "plain_reach (two_locked, (\<lambda>_. Idle)(0 := Holds 1, 1 := Holds 2))"
    by (rule plain_take) (simp_all add: ls_acquire_def two_locked_def)
  then have "plain_reach (two_locked, (\<lambda>_. Idle)(0 := Holds 1, 1 := Holds 2, 2 := Asleep 1))"
    by (rule plain_sleep) (simp_all add: ls_acquire_def two_locked_def)
  then show ?thesis
    unfolding sleepers_def by (rule plain_sleep) (simp_all add: ls_acquire_def two_locked_def)
qed

text \<open>C24: Mutual exclusion of the blocking server. In every reachable state at most one thread has
  been granted a lock and not released it.\<close>

theorem plain_mutual_exclusion:
  assumes "plain_reach (sv, ths)" and "ths t = Holds lid" and "ths u = Holds lid"
  shows "t = u"
  using plain.exclusive [OF assms(1), of lid t u] assms(2,3) by (simp add: holds_lock_def)

theorem plain_mutual_exclusion_witness:
  "{t. sleepers t = Holds 2} = {1}"
proof -
  have h: "sleepers 1 = Holds 2" by (simp add: sleepers_def)
  have "t = 1" if "sleepers t = Holds 2" for t by (rule plain_mutual_exclusion [OF example_sleepers that h])
  with h show ?thesis unfolding set_eq_iff mem_Collect_eq singleton_iff by blast
qed

text \<open>The blocking server never puts everybody to sleep: while a thread sleeps on the condition
  variable, another one holds a lock or is awake in \<open>acquire\<close>; and whoever is awake in
  \<open>acquire\<close> for a lock nobody holds can take it.\<close>

theorem plain_not_stuck:
  assumes r: "plain_reach (sv, ths)" and t: "ths t = Asleep lid"
  shows "\<exists>u l. ths u = Holds l \<or> ths u = Wants l
    \<and> ((\<forall>v. ths v \<noteq> Holds l) \<longrightarrow> (\<exists>sv'. thread_step (sv, ths) (sv', ths(u := Holds l))))"
proof -
  obtain u l where "ths u = Holds l \<or> ths u = Wants l"
    using plain_invD(3) [OF plain_reach_inv [OF r], of t] t by (auto simp: asleep_def)
  then show ?thesis using plain_grant_enabled [OF r, of u l] by blast
qed

theorem plain_not_stuck_witness:
  "\<exists>u l. sleepers u = Holds l \<or> sleepers u = Wants l
    \<and> ((\<forall>v. sleepers v \<noteq> Holds l) \<longrightarrow> (\<exists>sv'. thread_step (two_locked, sleepers) (sv', sleepers(u := Holds l))))"
  by (rule plain_not_stuck [OF example_sleepers, of 2 1]) (simp add: sleepers_def)

text \<open>A wake-up of the blocking server can go to the wrong thread. All locks share one condition
  variable and \<open>release\<close> wakes one thread: a state is reachable in which lock 1 is free, a
  thread sleeps in \<open>acquire\<close> of lock 1, no thread is awake in \<open>acquire\<close>, and the thread that
  was woken sleeps again, for lock 2, which another thread holds.\<close>

theorem misdirected_wakeup:
  "\<exists>sv ths. plain_reach (sv, ths) \<and> ls_table sv 1 = Some Unlocked \<and> ths 2 = Asleep 1
    \<and> (\<forall>t lid. ths t \<noteq> Wants lid) \<and> (\<forall>t. ths t \<noteq> Holds 1)"
proof -
  have free: "ls_release two_locked 1 = (LOK, one_locked)"
    by (simp add: ls_release_def two_locked_def one_locked_def fun_eq_iff)
  have "plain_reach (one_locked, (sleepers(3 := Wants 2))(0 := Idle))"
    using plain_next [OF example_sleepers thread_step.give_back [OF _ free, of sleepers 0 3]]
    by (simp add: sleepers_def asleep_def)
  from plain_next [OF this thread_step.wait [of _ 3 2 one_locked]] have
    "plain_reach (one_locked, ((sleepers(3 := Wants 2))(0 := Idle))(3 := Asleep 2))"
    by (simp add: ls_acquire_def one_locked_def)
  then show ?thesis
    by (intro exI [of _ one_locked] exI [of _ "((sleepers(3 := Wants 2))(0 := Idle))(3 := Asleep 2)"])
      (simp add: one_locked_def sleepers_def)
qed

end
