(* ===== verification/Handle_Manager.thy ===== *)
theory Handle_Manager
  imports Yfs_Prelude "HOL-Library.Multiset"
begin

text \<open>
  The cache of RPC connections of \<^verbatim>\<open>handle.h\<close> and \<^verbatim>\<open>handle.cc\<close>, through which the lock server
  calls its clients. Entries are heap objects that handles and the manager's map point to, so
  the state is a heap; what \<^verbatim>\<open>bind\<close> of the RPC library returns is an argument. The lemmas
  show that the reference counts are right, hence that no handle is left dangling.
\<close>

section \<open>State\<close>

type_synonym addr = nat

record 'c hinfo =
  h_cl :: "'c option"
  h_refcnt :: int
  h_del :: bool
  h_m :: string

record 'c handle_mgr =
  hmap :: "string \<rightharpoonup> addr"
  heap :: "addr \<rightharpoonup> 'c hinfo"

definition handle_mgr_ctor :: "'c handle_mgr" where
  "handle_mgr_ctor = \<lparr>hmap = Map.empty, heap = Map.empty\<rparr>"

text \<open>Access through a pointer.\<close>

definition deref :: "'c handle_mgr \<Rightarrow> addr \<Rightarrow> 'c hinfo res" where
  "deref mgr p = (case heap mgr p of Some h \<Rightarrow> Inr h | None \<Rightarrow> Inl Dangling)"

definition store_at :: "addr \<Rightarrow> 'c hinfo \<Rightarrow> 'c handle_mgr \<Rightarrow> 'c handle_mgr" where
  "store_at p h mgr = mgr\<lparr>heap := (heap mgr)(p \<mapsto> h)\<rparr>"

section \<open>Operations\<close>

text \<open>\<open>fresh\<close> is the address \<^verbatim>\<open>new\<close> would return; \<open>None\<close> is the null pointer.\<close>

definition get_handle :: "'c handle_mgr \<Rightarrow> addr \<Rightarrow> string \<Rightarrow> (addr option \<times> 'c handle_mgr) res" where
  "get_handle mgr fresh m =
     (case hmap mgr m of
        None \<Rightarrow> Inr (Some fresh, (store_at fresh \<lparr>h_cl = None, h_refcnt = 1, h_del = False, h_m = m\<rparr> mgr)
                  \<lparr>hmap := (hmap mgr)(m \<mapsto> fresh)\<rparr>)
      | Some p \<Rightarrow> bind_res (deref mgr p) (\<lambda>h.
          if \<not> h_del h then Inr (Some p, store_at p (h\<lparr>h_refcnt := h_refcnt h + 1\<rparr>) mgr)
          else Inr (None, mgr)))"

definition delete_handle_wo :: "'c handle_mgr \<Rightarrow> string \<Rightarrow> 'c handle_mgr res" where
  "delete_handle_wo mgr m =
     (case hmap mgr m of
        None \<Rightarrow> Inr mgr
      | Some p \<Rightarrow> bind_res (deref mgr p) (\<lambda>h.
          if h_refcnt h = 0 then Inr (mgr\<lparr>hmap := (hmap mgr)(m := None), heap := (heap mgr)(p := None)\<rparr>)
          else Inr (store_at p (h\<lparr>h_del := True\<rparr>) mgr)))"

definition delete_handle :: "'c handle_mgr \<Rightarrow> string \<Rightarrow> 'c handle_mgr res" where
  "delete_handle mgr m = delete_handle_wo mgr m"

definition done_handle :: "'c handle_mgr \<Rightarrow> addr \<Rightarrow> 'c handle_mgr res" where
  "done_handle mgr p =
     bind_res (deref mgr p) (\<lambda>h.
       let h' = h\<lparr>h_refcnt := h_refcnt h - 1\<rparr>; mgr' = store_at p h' mgr
       in if h_refcnt h' = 0 \<and> h_del h' then delete_handle_wo mgr' (h_m h') else Inr mgr')"

text \<open>A handle is the pointer it got; its destructor gives the entry back.\<close>

definition handle_ctor :: "'c handle_mgr \<Rightarrow> addr \<Rightarrow> string \<Rightarrow> (addr option \<times> 'c handle_mgr) res" where
  "handle_ctor mgr fresh m = get_handle mgr fresh m"

definition handle_dtor :: "'c handle_mgr \<Rightarrow> addr option \<Rightarrow> 'c handle_mgr res" where
  "handle_dtor mgr h = (case h of Some p \<Rightarrow> done_handle mgr p | None \<Rightarrow> Inr mgr)"

text \<open>\<open>cl\<close> is the new connection, \<open>ret\<close> what its \<open>bind\<close> returns; a failed one is deleted.\<close>

definition safebind :: "'c handle_mgr \<Rightarrow> addr option \<Rightarrow> 'c \<Rightarrow> int \<Rightarrow> ('c option \<times> 'c handle_mgr) res" where
  "safebind mgr hp cl ret =
     (case hp of
        None \<Rightarrow> Inr (None, mgr)
      | Some p \<Rightarrow> bind_res (deref mgr p) (\<lambda>h.
          if h_del h then Inr (None, mgr)
          else if h_cl h \<noteq> None then Inr (h_cl h, mgr)
          else let h' = (if ret < 0 then h\<lparr>h_del := True\<rparr> else h\<lparr>h_cl := Some cl\<rparr>)
               in Inr (h_cl h', store_at p h' mgr)))"

section \<open>Runs\<close>

text \<open>The manager with the handles that are alive, as the pointers they hold.\<close>

type_synonym 'c handles = "'c handle_mgr \<times> addr multiset"

inductive handle_step :: "'c handles \<Rightarrow> 'c handles \<Rightarrow> bool" where
  refused: "heap mgr fresh = None \<Longrightarrow> handle_ctor mgr fresh m = Inr (None, mgr') \<Longrightarrow> handle_step (mgr, hs) (mgr', hs)"
| opened: "heap mgr fresh = None \<Longrightarrow> handle_ctor mgr fresh m = Inr (Some p, mgr') \<Longrightarrow>
    handle_step (mgr, hs) (mgr', add_mset p hs)"
| bound: "p \<in># hs \<Longrightarrow> safebind mgr (Some p) cl ret = Inr (r, mgr') \<Longrightarrow> handle_step (mgr, hs) (mgr', hs)"
| closed: "p \<in># hs \<Longrightarrow> handle_dtor mgr (Some p) = Inr mgr' \<Longrightarrow> handle_step (mgr, hs) (mgr', hs - {#p#})"
| deleted: "delete_handle mgr m = Inr mgr' \<Longrightarrow> handle_step (mgr, hs) (mgr', hs)"

inductive handle_reach :: "'c handles \<Rightarrow> bool" where
  handle_start: "handle_reach (handle_mgr_ctor, {#})"
| handle_next: "handle_reach s \<Longrightarrow> handle_step s s' \<Longrightarrow> handle_reach s'"

text \<open>
  The map and the heap agree, every entry counts the handles that point to it, and an entry
  marked for deletion still has a user.
\<close>

definition handle_inv :: "'c handles \<Rightarrow> bool" where
  "handle_inv s \<longleftrightarrow>
     (\<forall>m p. hmap (fst s) m = Some p \<longrightarrow> (\<exists>h. heap (fst s) p = Some h \<and> h_m h = m))
     \<and> (\<forall>p h. heap (fst s) p = Some h \<longrightarrow> hmap (fst s) (h_m h) = Some p
          \<and> h_refcnt h = int (count (snd s) p) \<and> (h_del h \<longrightarrow> 0 < h_refcnt h))
     \<and> (\<forall>p. p \<in># snd s \<longrightarrow> heap (fst s) p \<noteq> None)"

lemma handle_invD:
  assumes "handle_inv (mgr, hs)"
  shows "hmap mgr m = Some p \<Longrightarrow> \<exists>h. heap mgr p = Some h \<and> h_m h = m"
    and "heap mgr p = Some h \<Longrightarrow> hmap mgr (h_m h) = Some p"
    and "heap mgr p = Some h \<Longrightarrow> h_refcnt h = int (count hs p)"
    and "heap mgr p = Some h \<Longrightarrow> h_del h \<Longrightarrow> 0 < h_refcnt h"
    and "p \<in># hs \<Longrightarrow> heap mgr p \<noteq> None"
  using assms by (simp_all add: handle_inv_def, metis count_greater_zero_iff of_nat_0_less_iff)

lemma handle_invI:
  assumes "\<And>m p. hmap mgr m = Some p \<Longrightarrow> \<exists>h. heap mgr p = Some h \<and> h_m h = m"
    and "\<And>p h. heap mgr p = Some h \<Longrightarrow> hmap mgr (h_m h) = Some p"
    and "\<And>p h. heap mgr p = Some h \<Longrightarrow> h_refcnt h = int (count hs p)"
    and "\<And>p h. heap mgr p = Some h \<Longrightarrow> h_del h \<Longrightarrow> 0 < h_refcnt h"
    and "\<And>p. p \<in># hs \<Longrightarrow> heap mgr p \<noteq> None"
  shows "handle_inv (mgr, hs)"
  using assms by (simp add: handle_inv_def)

text \<open>Changing an entry in place keeps the invariant when the count still fits.\<close>

lemma store_inv:
  assumes inv: "handle_inv (mgr, hs)" and h: "heap mgr p = Some h" and m: "h_m h' = h_m h"
    and cnt: "h_refcnt h' = int (count hs' p)" and del: "h_del h' \<Longrightarrow> 0 < h_refcnt h'"
    and same: "\<And>q. q \<noteq> p \<Longrightarrow> count hs' q = count hs q"
  shows "handle_inv (store_at p h' mgr, hs')"
proof (rule handle_invI)
  note i = handle_invD [OF inv]
  show "\<exists>g. heap (store_at p h' mgr) q = Some g \<and> h_m g = n" if "hmap (store_at p h' mgr) n = Some q" for n q
    using that i(1) [of n q] h m by (auto simp: store_at_def)
  show "hmap (store_at p h' mgr) (h_m g) = Some q" "h_refcnt g = int (count hs' q)" "h_del g \<Longrightarrow> 0 < h_refcnt g"
    if "heap (store_at p h' mgr) q = Some g" for q g
    using that i(2-4) [of q g] i(2) [OF h] m cnt del same by (auto simp: store_at_def split: if_splits)
  show "heap (store_at p h' mgr) q \<noteq> None" if "q \<in># hs'" for q
    using that i(5) [of q] same [of q] by (auto simp: store_at_def not_in_iff simp flip: count_greater_zero_iff)
qed

text \<open>Removing an entry nobody points to.\<close>

lemma erase_inv:
  assumes inv: "handle_inv (mgr, hs)" and h: "heap mgr p = Some h" and none: "p \<notin># hs'"
    and same: "\<And>q. q \<noteq> p \<Longrightarrow> count hs' q = count hs q"
  shows "handle_inv (mgr\<lparr>hmap := (hmap mgr)(h_m h := None), heap := (heap mgr)(p := None)\<rparr>, hs')"
    (is "handle_inv (?mgr, hs')")
proof (rule handle_invI)
  note i = handle_invD [OF inv]
  show "\<exists>g. heap ?mgr q = Some g \<and> h_m g = n" if "hmap ?mgr n = Some q" for n q
    using that i(1) [of n q] h by (auto split: if_splits)
  show "hmap ?mgr (h_m g) = Some q" if "heap ?mgr q = Some g" for q g
    using that i(2) [of q g] i(2) [OF h] by (auto split: if_splits)
  show "h_refcnt g = int (count hs' q)" "h_del g \<Longrightarrow> 0 < h_refcnt g" if "heap ?mgr q = Some g" for q g
    using that i(3,4) [of q g] same by (auto split: if_splits)
  show "heap ?mgr q \<noteq> None" if "q \<in># hs'" for q
  proof -
    have "q \<noteq> p" using that none by auto
    then have "q \<in># hs" using that same [of q] by (simp flip: count_greater_zero_iff)
    then show ?thesis using i(5) [of q] \<open>q \<noteq> p\<close> by simp
  qed
qed

lemma get_handle_inv:
  assumes inv: "handle_inv (mgr, hs)" and fresh: "heap mgr fresh = None" and run: "get_handle mgr fresh m = Inr (hp, mgr')"
  shows "handle_inv (mgr', (case hp of Some p \<Rightarrow> add_mset p hs | None \<Rightarrow> hs))"
proof (cases "hmap mgr m")
  case None
  note i = handle_invD [OF inv]
  have "count hs fresh = 0" using i(5) [of fresh] fresh by (auto simp: not_in_iff [symmetric])
  then have "handle_inv ((store_at fresh \<lparr>h_cl = None, h_refcnt = 1, h_del = False, h_m = m\<rparr> mgr)
      \<lparr>hmap := (hmap mgr)(m \<mapsto> fresh)\<rparr>, add_mset fresh hs)" (is "handle_inv (?mgr, _)")
  proof (intro handle_invI)
    show "\<exists>g. heap ?mgr q = Some g \<and> h_m g = n" if "hmap ?mgr n = Some q" for n q
      using that i(1) [of n q] fresh by (auto simp: store_at_def split: if_splits)
    show "hmap ?mgr (h_m g) = Some q" if "heap ?mgr q = Some g" for q g
      using that i(2) [of q g] None by (auto simp: store_at_def split: if_splits)
    show "h_refcnt g = int (count (add_mset fresh hs) q)" "h_del g \<Longrightarrow> 0 < h_refcnt g" if "heap ?mgr q = Some g" for q g
      using that i(3,4) [of q g] \<open>count hs fresh = 0\<close> by (auto simp: store_at_def split: if_splits)
    show "heap ?mgr q \<noteq> None" if "q \<in># add_mset fresh hs" for q
      using that i(5) [of q] by (auto simp: store_at_def)
  qed
  then show ?thesis using run None by (auto simp: get_handle_def)
next
  case (Some p)
  obtain h where h: "heap mgr p = Some h" using handle_invD(1) [OF inv Some] by blast
  show ?thesis
  proof (cases "h_del h")
    case True
    then show ?thesis using run Some h inv by (auto simp: get_handle_def deref_def)
  next
    case False
    have "handle_inv (store_at p (h\<lparr>h_refcnt := h_refcnt h + 1\<rparr>) mgr, add_mset p hs)"
      by (rule store_inv [OF inv h]) (use handle_invD(3) [OF inv h] False in simp_all)
    moreover have "hp = Some p" "mgr' = store_at p (h\<lparr>h_refcnt := h_refcnt h + 1\<rparr>) mgr"
      using run Some h False by (simp_all add: get_handle_def deref_def)
    ultimately show ?thesis by simp
  qed
qed

lemma delete_inv:
  assumes inv: "handle_inv (mgr, hs)" and run: "delete_handle_wo mgr m = Inr mgr'"
  shows "handle_inv (mgr', hs)"
proof (cases "hmap mgr m")
  case None
  then show ?thesis using run inv by (simp add: delete_handle_wo_def)
next
  case (Some p)
  obtain h where h: "heap mgr p = Some h" "h_m h = m" using handle_invD(1) [OF inv Some] by blast
  note cnt = handle_invD(3) [OF inv h(1)]
  show ?thesis
  proof (cases "h_refcnt h = 0")
    case True
    then have "p \<notin># hs" using cnt by (simp add: not_in_iff)
    then show ?thesis
      using erase_inv [OF inv h(1), of hs] run Some h True by (simp add: delete_handle_wo_def deref_def)
  next
    case False
    have "handle_inv (store_at p (h\<lparr>h_del := True\<rparr>) mgr, hs)"
      by (rule store_inv [OF inv h(1)]) (use cnt False in simp_all)
    then show ?thesis using run Some h False by (simp add: delete_handle_wo_def deref_def)
  qed
qed

lemma done_handle_inv:
  assumes inv: "handle_inv (mgr, hs)" and p: "p \<in># hs"
  shows "\<exists>mgr'. done_handle mgr p = Inr mgr' \<and> handle_inv (mgr', hs - {#p#})"
proof -
  obtain h where h: "heap mgr p = Some h" using handle_invD(5) [OF inv p] by auto
  have m: "hmap mgr (h_m h) = Some p" by (rule handle_invD(2) [OF inv h])
  have cnt: "h_refcnt h = int (count hs p)" by (rule handle_invD(3) [OF inv h])
  have pos: "0 < count hs p" using p by simp
  show ?thesis
  proof (cases "h_refcnt h = 1 \<and> h_del h")
    case True
    then have "p \<notin># hs - {#p#}" using cnt by (simp add: not_in_iff)
    note inv' = erase_inv [OF inv h this]
    have "done_handle mgr p = Inr (mgr\<lparr>hmap := (hmap mgr)(h_m h := None), heap := (heap mgr)(p := None)\<rparr>)"
      using True h m by (simp add: done_handle_def delete_handle_wo_def deref_def store_at_def)
    then show ?thesis using inv' by simp
  next
    case False
    have "0 < h_refcnt h - 1" if "h_del h" using cnt pos False that by linarith
    then have "handle_inv (store_at p (h\<lparr>h_refcnt := h_refcnt h - 1\<rparr>) mgr, hs - {#p#})"
      using cnt pos by (intro store_inv [OF inv h]) auto
    then show ?thesis using False h by (auto simp: done_handle_def deref_def)
  qed
qed

lemma safebind_inv:
  assumes inv: "handle_inv (mgr, hs)" and p: "p \<in># hs" and run: "safebind mgr (Some p) cl ret = Inr (r, mgr')"
  shows "handle_inv (mgr', hs)"
proof -
  obtain h where h: "heap mgr p = Some h" using handle_invD(5) [OF inv p] by auto
  have cnt: "h_refcnt h = int (count hs p)" "0 < h_refcnt h" using handle_invD(3) [OF inv h] p by simp_all
  have "handle_inv (store_at p (if ret < 0 then h\<lparr>h_del := True\<rparr> else h\<lparr>h_cl := Some cl\<rparr>) mgr, hs)"
    by (rule store_inv [OF inv h]) (use cnt in auto)
  then show ?thesis using run h inv by (auto simp: safebind_def deref_def Let_def split: if_splits)
qed

lemma handle_step_inv: "handle_step s s' \<Longrightarrow> handle_inv s \<Longrightarrow> handle_inv s'"
proof (induction rule: handle_step.induct)
  case (refused mgr fresh m mgr' hs)
  then show ?case using get_handle_inv [of mgr hs fresh m None] by (simp add: handle_ctor_def)
next
  case (opened mgr fresh m p mgr' hs)
  then show ?case using get_handle_inv [of mgr hs fresh m "Some p"] by (simp add: handle_ctor_def)
next
  case (bound p hs mgr cl ret r mgr')
  then show ?case by (blast intro: safebind_inv)
next
  case (closed p hs mgr mgr')
  then show ?case using done_handle_inv [of mgr hs p] by (auto simp: handle_dtor_def)
next
  case (deleted mgr m mgr' hs)
  then show ?case by (auto simp: delete_handle_def intro: delete_inv)
qed

lemma handle_reach_inv: "handle_reach s \<Longrightarrow> handle_inv s"
proof (induction rule: handle_reach.induct)
  case handle_start
  show ?case by (rule handle_invI) (simp_all add: handle_mgr_ctor_def)
qed (blast intro: handle_step_inv)

end
