(* ===== verification/Handle_Properties.thy ===== *)
theory Handle_Properties
  imports Handle_Manager
begin

text \<open>
  The properties of the handle manager: handles never dangle, a connection that could not be
  made is given up by all users of the address, and the last of them frees the entry.
\<close>

text \<open>Two handles on one address, the second after the connection failed.\<close>

definition one_handle :: "nat handle_mgr" where
  "one_handle = \<lparr>hmap = [''h'' \<mapsto> 5], heap = [5 \<mapsto> \<lparr>h_cl = None, h_refcnt = 1, h_del = False, h_m = ''h''\<rparr>]\<rparr>"

definition dead_handle :: "nat handle_mgr" where
  "dead_handle = \<lparr>hmap = [''h'' \<mapsto> 5], heap = [5 \<mapsto> \<lparr>h_cl = None, h_refcnt = 1, h_del = True, h_m = ''h''\<rparr>]\<rparr>"

lemma one_handle: "handle_reach (one_handle, {#5#})"
proof -
  have "handle_ctor handle_mgr_ctor 5 ''h'' = Inr (Some 5, one_handle)"
    by (simp add: handle_ctor_def get_handle_def handle_mgr_ctor_def store_at_def one_handle_def)
  then have "handle_step (handle_mgr_ctor, {#}) (one_handle, {#5#})"
    by (intro opened) (simp_all add: handle_mgr_ctor_def)
  then show ?thesis by (rule handle_next [OF handle_start])
qed

lemma dead_handle: "handle_reach (dead_handle, {#5#})"
proof -
  have "safebind one_handle (Some 5) 9 (- 1) = Inr (None, dead_handle)"
    by (simp add: safebind_def deref_def one_handle_def dead_handle_def store_at_def)
  then have "handle_step (one_handle, {#5#}) (dead_handle, {#5#})" by (intro bound) simp_all
  then show ?thesis by (rule handle_next [OF one_handle])
qed

text \<open>C22: No handle dangles. In every state a program reaches by making, using and destroying handles and
  deleting addresses, a handle that is alive points to the entry its address maps to, whose
  reference count is the number of handles that point to it; using the handle and destroying it
  do not touch deleted memory.\<close>

theorem handles_never_dangle:
  assumes "handle_reach (mgr, hs)" and "p \<in># hs"
  shows "(\<exists>h. heap mgr p = Some h \<and> hmap mgr (h_m h) = Some p \<and> h_refcnt h = int (count hs p))
    \<and> (\<exists>r mgr'. safebind mgr (Some p) cl ret = Inr (r, mgr')) \<and> (\<exists>mgr'. handle_dtor mgr (Some p) = Inr mgr')"
proof -
  note inv = handle_reach_inv [OF assms(1)]
  obtain h where h: "heap mgr p = Some h" using handle_invD(5) [OF inv assms(2)] by auto
  show ?thesis
    using h handle_invD(2,3) [OF inv h] done_handle_inv [OF inv assms(2)]
    by (auto simp: safebind_def handle_dtor_def deref_def)
qed

theorem handles_never_dangle_witness:
  "\<exists>h. heap one_handle 5 = Some h \<and> hmap one_handle (h_m h) = Some 5 \<and> h_refcnt h = int (count {#5#} (5 :: addr))"
  using handles_never_dangle [OF one_handle, of 5] by simp

text \<open>A failed connection is final for its users. When \<open>bind\<close> fails, \<open>safebind\<close> returns null and from then
  on returns null to every handle on the entry, whatever a later connection would do, and no
  new handle on the address is given out.\<close>

theorem bind_failure_is_final:
  assumes "handle_reach (mgr, hs)" and "p \<in># hs" and "heap mgr p = Some h" and "\<not> h_del h" and "h_cl h = None"
    and "ret < 0"
  shows "\<exists>mgr'. safebind mgr (Some p) cl ret = Inr (None, mgr') \<and> safebind mgr' (Some p) cl2 ret2 = Inr (None, mgr')
    \<and> get_handle mgr' fresh (h_m h) = Inr (None, mgr')"
proof -
  have "hmap mgr (h_m h) = Some p" by (rule handle_invD(2) [OF handle_reach_inv [OF assms(1)] assms(3)])
  then show ?thesis using assms(3-6) by (simp add: safebind_def deref_def store_at_def get_handle_def)
qed

theorem bind_failure_is_final_witness:
  "\<exists>mgr'. safebind one_handle (Some 5) 1 (- 1) = Inr (None, mgr') \<and> safebind mgr' (Some 5) 2 0 = Inr (None, mgr')
    \<and> get_handle mgr' 6 ''h'' = Inr (None, mgr')"
  using bind_failure_is_final [OF one_handle, of 5 "\<lparr>h_cl = None, h_refcnt = 1, h_del = False, h_m = ''h''\<rparr>" "- 1" 1 2 0 6]
  by (simp add: one_handle_def)

text \<open>The last handle on an entry marked for deletion frees it: the address is forgotten, and the next
  handle on it starts with a new entry that is not connected.\<close>

theorem last_handle_frees:
  assumes "handle_reach (mgr, hs)" and "heap mgr p = Some h" and "h_del h" and "count hs p = 1"
  shows "\<exists>mgr'. handle_dtor mgr (Some p) = Inr mgr' \<and> hmap mgr' = (hmap mgr)(h_m h := None)
    \<and> heap mgr' = (heap mgr)(p := None)
    \<and> (\<exists>mgr''. get_handle mgr' fresh (h_m h) = Inr (Some fresh, mgr'')
         \<and> heap mgr'' fresh = Some \<lparr>h_cl = None, h_refcnt = 1, h_del = False, h_m = h_m h\<rparr>)"
proof -
  note inv = handle_reach_inv [OF assms(1)]
  have "hmap mgr (h_m h) = Some p" "h_refcnt h = 1"
    using handle_invD(2,3) [OF inv assms(2)] assms(4) by simp_all
  then show ?thesis
    using assms(2,3)
    by (simp add: handle_dtor_def done_handle_def delete_handle_wo_def get_handle_def deref_def store_at_def)
qed

theorem last_handle_frees_witness:
  "\<exists>mgr'. handle_dtor dead_handle (Some 5) = Inr mgr' \<and> hmap mgr' ''h'' = None \<and> heap mgr' 5 = None"
  using last_handle_frees [OF dead_handle, of 5 "\<lparr>h_cl = None, h_refcnt = 1, h_del = True, h_m = ''h''\<rparr>" 6]
  by (auto simp: dead_handle_def)

end
