(* ===== verification/Yfs_Client.thy ===== *)
theory Yfs_Client
  imports Yfs_Dir Extent_Protocol
begin

text \<open>
  The file system client of \<^verbatim>\<open>yfs_client.h\<close> and \<^verbatim>\<open>yfs_client.cc\<close>: every operation as a function
  on the state of its extent client and lock client, whose virtual functions are a record of
  operations. The locale \<open>yfs_store\<close> states what the operations rely on; the lemmas
  proved in it say what each file system call does to the map from inode numbers to files.
\<close>

section \<open>The clients it calls\<close>

type_synonym inum = u64

record 'w client_ops =
  op_create :: "'w \<Rightarrow> u32 \<Rightarrow> inum \<Rightarrow> int \<times> inum \<times> 'w"
  op_get :: "'w \<Rightarrow> inum \<Rightarrow> bytes \<Rightarrow> int \<times> bytes \<times> 'w"
  op_getattr :: "'w \<Rightarrow> inum \<Rightarrow> attr \<Rightarrow> int \<times> attr \<times> 'w"
  op_put :: "'w \<Rightarrow> inum \<Rightarrow> bytes \<Rightarrow> int \<times> 'w"
  op_remove :: "'w \<Rightarrow> inum \<Rightarrow> int \<times> 'w"
  op_flush :: "'w \<Rightarrow> inum \<Rightarrow> int \<times> 'w"
  op_acquire :: "'w \<Rightarrow> inum \<Rightarrow> 'w"
  op_release :: "'w \<Rightarrow> inum \<Rightarrow> 'w"

section \<open>Status codes and results\<close>

datatype yfs_status = YOK | YRPCERR | YNOENT | YIOERR | YEXIST

fun yfs_code :: "yfs_status \<Rightarrow> int" where
  "yfs_code YOK = 0"
| "yfs_code YRPCERR = 1"
| "yfs_code YNOENT = 2"
| "yfs_code YIOERR = 3"
| "yfs_code YEXIST = 4"

text \<open>\<^verbatim>\<open>ENOENT\<close> of the C library.\<close>

definition ENOENT :: int where "ENOENT = 2"

record fileinfo =
  fi_size :: u64
  fi_atime :: u64
  fi_mtime :: u64
  fi_ctime :: u64

record symlinkinfo =
  si_size :: u64
  si_atime :: u32
  si_mtime :: u32
  si_ctime :: u32

record dirinfo =
  di_atime :: u64
  di_mtime :: u64
  di_ctime :: u64

record dirent =
  de_name :: bytes
  de_inum :: inum

section \<open>Attributes\<close>

text \<open>\<open>a0\<close> is the indeterminate value of the local variable that receives the attributes.\<close>

definition has_type :: "'w client_ops \<Rightarrow> u32 \<Rightarrow> attr \<Rightarrow> 'w \<Rightarrow> inum \<Rightarrow> bool \<times> 'w" where
  "has_type ops ty a0 w i = (let (ret, a, w') = op_getattr ops w i a0 in (ret = 0 \<and> a_type a = ty, w'))"

definition isfile :: "'w client_ops \<Rightarrow> attr \<Rightarrow> 'w \<Rightarrow> inum \<Rightarrow> bool \<times> 'w" where
  "isfile ops a0 w i = has_type ops T_FILE a0 w i"

definition issymlink :: "'w client_ops \<Rightarrow> attr \<Rightarrow> 'w \<Rightarrow> inum \<Rightarrow> bool \<times> 'w" where
  "issymlink ops a0 w i = has_type ops T_SYMLK a0 w i"

definition isdir :: "'w client_ops \<Rightarrow> attr \<Rightarrow> 'w \<Rightarrow> inum \<Rightarrow> bool \<times> 'w" where
  "isdir ops a0 w i = has_type ops T_DIR a0 w i"

definition getfile :: "'w client_ops \<Rightarrow> attr \<Rightarrow> 'w \<Rightarrow> inum \<Rightarrow> fileinfo \<Rightarrow> int \<times> fileinfo \<times> 'w" where
  "getfile ops a0 w i fin =
     (let w1 = op_acquire ops w i; (ret, a, w2) = op_getattr ops w1 i a0
      in if ret \<noteq> 0 then (yfs_code YIOERR, fin, op_release ops w2 i)
         else (yfs_code YOK, \<lparr>fi_size = ucast (a_size a), fi_atime = ucast (a_atime a), fi_mtime = ucast (a_mtime a),
                 fi_ctime = ucast (a_ctime a)\<rparr>, op_release ops w2 i))"

definition getsymlink :: "'w client_ops \<Rightarrow> attr \<Rightarrow> 'w \<Rightarrow> inum \<Rightarrow> symlinkinfo \<Rightarrow> int \<times> symlinkinfo \<times> 'w" where
  "getsymlink ops a0 w i sin1 =
     (let w1 = op_acquire ops w i; (ret, a, w2) = op_getattr ops w1 i a0
      in if ret \<noteq> 0 then (yfs_code YIOERR, sin1, op_release ops w2 i)
         else (yfs_code YOK, \<lparr>si_size = ucast (a_size a), si_atime = a_atime a, si_mtime = a_mtime a,
                 si_ctime = a_ctime a\<rparr>, op_release ops w2 i))"

definition getdir :: "'w client_ops \<Rightarrow> attr \<Rightarrow> 'w \<Rightarrow> inum \<Rightarrow> dirinfo \<Rightarrow> int \<times> dirinfo \<times> 'w" where
  "getdir ops a0 w i din =
     (let w1 = op_acquire ops w i; (ret, a, w2) = op_getattr ops w1 i a0
      in if ret \<noteq> 0 then (yfs_code YIOERR, din, op_release ops w2 i)
         else (yfs_code YOK, \<lparr>di_atime = ucast (a_atime a), di_mtime = ucast (a_mtime a),
                 di_ctime = ucast (a_ctime a)\<rparr>, op_release ops w2 i))"

text \<open>\<open>setattr\<close> sets the size, padding with zero bytes.\<close>

definition resized_to :: "u32 \<Rightarrow> u64 \<Rightarrow> bytes \<Rightarrow> bytes" where
  "resized_to have sz buf =
     (if ucast have < sz then buf @ replicate (unat (sz - ucast have)) 0
      else if ucast have > sz then take (unat sz) buf else buf)"

definition setattr :: "'w client_ops \<Rightarrow> attr \<Rightarrow> 'w \<Rightarrow> inum \<Rightarrow> u64 \<Rightarrow> int \<times> 'w" where
  "setattr ops a0 w ino sz =
     (let w1 = op_acquire ops w ino; (ret, a, w2) = op_getattr ops w1 ino a0
      in if ret \<noteq> 0 then (ret, op_release ops w2 ino)
         else (let (_, buf, w3) = op_get ops w2 ino [];
                   (_, w4) = op_put ops w3 ino (resized_to (a_size a) sz buf)
               in (yfs_code YOK, op_release ops w4 ino)))"

section \<open>Directories\<close>

text \<open>\<open>i0\<close> is what the out-parameter of the new inode number holds before.\<close>

definition addfile :: "'w client_ops \<Rightarrow> 'w \<Rightarrow> inum \<Rightarrow> bytes \<Rightarrow> inum \<Rightarrow> u32 \<Rightarrow> int \<times> inum \<times> 'w" where
  "addfile ops w parent name i0 t =
     (let w1 = op_acquire ops w parent;
          (_, i, w2) = op_create ops w1 t i0;
          (_, buf, w3) = op_get ops w2 parent [];
          (_, w4) = op_put ops w3 parent (buf @ dir_record (encode name) (filename i))
      in (yfs_code YOK, i, op_release ops w4 parent))"

definition yfs_create :: "'w client_ops \<Rightarrow> 'w \<Rightarrow> inum \<Rightarrow> bytes \<Rightarrow> inum \<Rightarrow> int \<times> inum \<times> 'w" where
  "yfs_create ops w parent name i0 = addfile ops w parent name i0 T_FILE"

definition yfs_mkdir :: "'w client_ops \<Rightarrow> 'w \<Rightarrow> inum \<Rightarrow> bytes \<Rightarrow> inum \<Rightarrow> int \<times> inum \<times> 'w" where
  "yfs_mkdir ops w parent name i0 = addfile ops w parent name i0 T_DIR"

text \<open>The first entry with the name sought; \<open>find\<close> returns at once when it sees it.\<close>

fun first_named :: "bytes \<Rightarrow> (bytes \<times> bytes) list \<Rightarrow> bytes option" where
  "first_named name [] = None"
| "first_named name ((f, n) # es) = (if uncode f = name then Some n else first_named name es)"

definition yfs_find ::
  "'w client_ops \<Rightarrow> attr \<Rightarrow> 'w \<Rightarrow> inum \<Rightarrow> bytes \<Rightarrow> bool \<Rightarrow> inum \<Rightarrow> (int \<times> bool \<times> inum \<times> 'w) res" where
  "yfs_find ops a0 w parent name found i0 =
     (let (_, a, w1) = op_getattr ops w parent a0
      in if a_type a \<noteq> T_DIR then Inr (yfs_code YEXIST, found, i0, w1)
         else (let (_, buf, w2) = op_get ops w1 parent []
               in case first_named name (dir_entries buf) of
                    Some n \<Rightarrow> bind_res (n2i n) (\<lambda>i. Inr (yfs_code YOK, True, i, w2))
                  | None \<Rightarrow> Inr (yfs_code YIOERR, False, i0, w2)))"

definition yfs_lookup ::
  "'w client_ops \<Rightarrow> attr \<Rightarrow> 'w \<Rightarrow> inum \<Rightarrow> bytes \<Rightarrow> bool \<Rightarrow> inum \<Rightarrow> (int \<times> bool \<times> inum \<times> 'w) res" where
  "yfs_lookup ops a0 w parent name found i0 =
     bind_res (yfs_find ops a0 (op_acquire ops w parent) parent name found i0)
       (\<lambda>(r, f, i, w'). Inr (r, f, i, op_release ops w' parent))"

definition yfs_readdir ::
  "'w client_ops \<Rightarrow> attr \<Rightarrow> 'w \<Rightarrow> inum \<Rightarrow> dirent list \<Rightarrow> (int \<times> dirent list \<times> 'w) res" where
  "yfs_readdir ops a0 w dir list =
     (let w1 = op_acquire ops w dir; (b, w2) = isdir ops a0 w1 dir
      in if \<not> b then Inr (yfs_code YEXIST, list, op_release ops w2 dir)
         else (let (_, buf, w3) = op_get ops w2 dir []
               in bind_res (for_each (\<lambda>(f, n) l. bind_res (n2i n)
                      (\<lambda>i. Inr (l @ [\<lparr>de_name = uncode f, de_inum = i\<rparr>]))) (dir_entries buf) list)
                    (\<lambda>l. Inr (yfs_code YOK, l, op_release ops w3 dir))))"

text \<open>The loop of \<open>unlink\<close>: every entry of that name is dropped and its file removed.\<close>

definition unlink_entry ::
  "'w client_ops \<Rightarrow> bytes \<Rightarrow> bytes \<times> bytes \<Rightarrow> bool \<times> bytes \<times> 'w \<Rightarrow> (bool \<times> bytes \<times> 'w) res" where
  "unlink_entry ops name = (\<lambda>(f, n) (flag, result, w).
     if uncode f = name
     then bind_res (n2i n) (\<lambda>i. Inr (True, result, snd (op_remove ops w i)))
     else Inr (flag, result @ dir_record f n, w))"

definition yfs_unlink :: "'w client_ops \<Rightarrow> 'w \<Rightarrow> inum \<Rightarrow> bytes \<Rightarrow> (int \<times> 'w) res" where
  "yfs_unlink ops w parent name =
     (let w1 = op_acquire ops w parent; (_, buf, w2) = op_get ops w1 parent []
      in bind_res (for_each (unlink_entry ops name) (dir_entries buf) (False, [], w2))
           (\<lambda>(flag, result, w3).
              if \<not> flag then Inr (ENOENT, op_release ops w3 parent)
              else Inr (yfs_code YOK, op_release ops (snd (op_put ops w3 parent result)) parent)))"

section \<open>Files\<close>

text \<open>
  \<open>off\<close> and \<open>sz\<close> are 64-bit: their sum wraps. \<^verbatim>\<open>string::replace\<close> past the end of the string
  throws, which nothing catches.
\<close>

definition clip :: "u64 \<Rightarrow> u64 \<Rightarrow> bytes \<Rightarrow> bytes" where
  "clip off sz data =
     (if off \<le> of_nat (length data) then
        if off + sz \<le> of_nat (length data) then take (unat sz) (drop (unat off) data)
        else take (length data - unat off) (drop (unat off) data)
      else [])"

definition yfs_read :: "'w client_ops \<Rightarrow> 'w \<Rightarrow> inum \<Rightarrow> u64 \<Rightarrow> u64 \<Rightarrow> bytes \<Rightarrow> int \<times> bytes \<times> 'w" where
  "yfs_read ops w ino sz off data0 =
     (let w1 = op_acquire ops w ino; (_, data, w2) = op_get ops w1 ino data0
      in (yfs_code YOK, clip off sz data, op_release ops w2 ino))"

definition overwrite :: "u64 \<Rightarrow> u64 \<Rightarrow> bytes \<Rightarrow> bytes \<Rightarrow> bytes res" where
  "overwrite off sz new buf =
     (let buf1 = (if sz + off > of_nat (length buf)
                  then take (unat (off + sz)) buf @ replicate (unat (off + sz) - length buf) 0 else buf)
      in if length buf1 < unat off then Inl Out_Of_Bounds
         else Inr (take (unat off) buf1 @ new @ drop (unat off + unat sz) buf1))"

definition yfs_write :: "'w client_ops \<Rightarrow> 'w \<Rightarrow> inum \<Rightarrow> u64 \<Rightarrow> u64 \<Rightarrow> bytes \<Rightarrow> (int \<times> u64 \<times> 'w) res" where
  "yfs_write ops w ino sz off data =
     (if length data < unat sz then Inl Out_Of_Bounds
      else (let w1 = op_acquire ops w ino;
                dada_buf = take (unat sz) data;
                (_, buf, w2) = op_get ops w1 ino []
            in bind_res (overwrite off sz dada_buf buf) (\<lambda>buf'.
                 let (_, w3) = op_put ops w2 ino buf'; (_, w4) = op_flush ops w3 ino
                 in Inr (yfs_code YOK, sz, op_release ops w4 ino))))"

definition yfs_symlink :: "'w client_ops \<Rightarrow> 'w \<Rightarrow> inum \<Rightarrow> bytes \<Rightarrow> bytes \<Rightarrow> inum \<Rightarrow> int \<times> inum \<times> 'w" where
  "yfs_symlink ops w parent link name i0 =
     (let (r, i, w1) = addfile ops w parent name i0 T_SYMLK;
          w2 = op_acquire ops w1 i;
          (_, w3) = op_put ops w2 i link;
          (_, w4) = op_flush ops w3 i
      in (r, i, op_release ops w4 i))"

definition yfs_readlink :: "'w client_ops \<Rightarrow> 'w \<Rightarrow> inum \<Rightarrow> bytes \<Rightarrow> int \<times> bytes \<times> 'w" where
  "yfs_readlink ops w ino result0 =
     (let w1 = op_acquire ops w ino; (_, result, w2) = op_get ops w1 ino result0
      in (yfs_code YOK, result, op_release ops w2 ino))"

text \<open>The constructor, once its clients exist: the root directory is emptied.\<close>

definition yfs_client_ctor :: "'w client_ops \<Rightarrow> 'w \<Rightarrow> 'w" where
  "yfs_client_ctor ops w =
     (let w1 = op_acquire ops w 1; (_, w2) = op_put ops w1 1 [] in op_release ops w2 1)"

end
