(* ===== verification/Fuse_Server.thy ===== *)
theory Fuse_Server
  imports Complex_Main Yfs_Client
begin

text \<open>
  The FUSE daemon of \<^verbatim>\<open>fuse.cc\<close>: one function for every request handler, which calls the
  file system client and gives the reply it sends to the kernel. The FUSE library is a
  parameter: the bits of a \<open>setattr\<close> request and the layout of directory entries. Names and
  links arrive as C strings, so they end at their first zero byte. The lemmas give the
  pages of a directory listing and the replies the handlers never send.
\<close>

section \<open>Replies\<close>

text \<open>The fields of \<^verbatim>\<open>struct stat\<close> the daemon sets; \<open>bzero\<close> clears them.\<close>

record stat =
  st_ino :: u64
  st_mode :: u32
  st_nlink :: u64
  st_size :: u64
  st_atime :: u64
  st_mtime :: u64
  st_ctime :: u64

definition zero_stat :: stat where
  "zero_stat = \<lparr>st_ino = 0, st_mode = 0, st_nlink = 0, st_size = 0, st_atime = 0, st_mtime = 0, st_ctime = 0\<rparr>"

text \<open>Both timeouts are always \<open>0.0\<close>.\<close>

record entry_param =
  e_ino :: u64
  e_generation :: u64
  e_attr :: stat
  e_attr_timeout :: real
  e_entry_timeout :: real

record statvfs =
  f_namemax :: u64
  f_bsize :: u64

text \<open>An open file as the library describes it; the daemon passes it through.\<close>

record file_info =
  fi_flags :: int
  fi_fh :: u64

datatype reply =
    Reply_Err int
  | Reply_Attr stat real
  | Reply_Entry entry_param
  | Reply_Create entry_param file_info
  | Reply_Buf bytes
  | Reply_Write u64
  | Reply_Open file_info
  | Reply_Readlink bytes
  | Reply_Statfs statvfs

text \<open>Constants of the C library.\<close>

definition EEXIST :: int where "EEXIST = 17"
definition ENOTDIR :: int where "ENOTDIR = 20"
definition ENOSYS :: int where "ENOSYS = 38"
definition ENOTEMPTY :: int where "ENOTEMPTY = 39"
definition S_IFDIR :: u32 where "S_IFDIR = 0x4000"
definition S_IFREG :: u32 where "S_IFREG = 0x8000"
definition S_IFLNK :: u32 where "S_IFLNK = 0xA000"

lemmas errnos = ENOENT_def EEXIST_def ENOTDIR_def ENOSYS_def ENOTEMPTY_def

text \<open>The string a C pointer stands for.\<close>

definition c_string :: "bytes \<Rightarrow> bytes" where
  "c_string s = takeWhile (\<lambda>c. c \<noteq> 0) s"

lemma c_string_id [simp]: "0 \<notin> set s \<Longrightarrow> c_string s = s"
  by (auto simp: c_string_def takeWhile_eq_all_conv)

text \<open>What the daemon takes from the FUSE library.\<close>

record fuse_lib =
  set_attr_size :: u32
  set_attr_atime :: u32
  set_attr_mtime :: u32
  dirent_size :: "nat \<Rightarrow> u64"
  dirent_bytes :: "bytes \<Rightarrow> stat \<Rightarrow> u64 \<Rightarrow> bytes"

section \<open>Attributes\<close>

text \<open>
  \<open>getattr\<close> asks for the type once for its log line and up to three times more. \<open>a0\<close> stands
  for uninitialised attribute variables, \<open>info\<close> variables are read only once they are set.
\<close>

definition fill_file :: "'w client_ops \<Rightarrow> attr \<Rightarrow> 'w \<Rightarrow> inum \<Rightarrow> stat \<Rightarrow> int \<times> stat \<times> 'w" where
  "fill_file ops a0 w i st =
     (let (ret, info, w') = getfile ops a0 w i \<lparr>fi_size = 0, fi_atime = 0, fi_mtime = 0, fi_ctime = 0\<rparr>
      in if ret \<noteq> yfs_code YOK then (ret, st, w')
         else (yfs_code YOK, st\<lparr>st_mode := or S_IFREG 0x1B6, st_nlink := 1, st_atime := fi_atime info,
                 st_mtime := fi_mtime info, st_ctime := fi_ctime info, st_size := fi_size info\<rparr>, w'))"

definition fill_symlink :: "'w client_ops \<Rightarrow> attr \<Rightarrow> 'w \<Rightarrow> inum \<Rightarrow> stat \<Rightarrow> int \<times> stat \<times> 'w" where
  "fill_symlink ops a0 w i st =
     (let (ret, info, w') = getsymlink ops a0 w i \<lparr>si_size = 0, si_atime = 0, si_mtime = 0, si_ctime = 0\<rparr>
      in if ret \<noteq> yfs_code YOK then (ret, st, w')
         else (yfs_code YOK, st\<lparr>st_mode := or S_IFLNK 0x1FF, st_nlink := 1, st_size := si_size info,
                 st_atime := ucast (si_atime info), st_mtime := ucast (si_mtime info),
                 st_ctime := ucast (si_ctime info)\<rparr>, w'))"

definition fill_dir :: "'w client_ops \<Rightarrow> attr \<Rightarrow> 'w \<Rightarrow> inum \<Rightarrow> stat \<Rightarrow> int \<times> stat \<times> 'w" where
  "fill_dir ops a0 w i st =
     (let (ret, info, w') = getdir ops a0 w i \<lparr>di_atime = 0, di_mtime = 0, di_ctime = 0\<rparr>
      in if ret \<noteq> yfs_code YOK then (ret, st, w')
         else (yfs_code YOK, st\<lparr>st_mode := or S_IFDIR 0x1FF, st_nlink := 2, st_atime := di_atime info,
                 st_mtime := di_mtime info, st_ctime := di_ctime info\<rparr>, w'))"

definition fuse_stat :: "'w client_ops \<Rightarrow> attr \<Rightarrow> 'w \<Rightarrow> inum \<Rightarrow> int \<times> stat \<times> 'w" where
  "fuse_stat ops a0 w i =
     (let st = zero_stat\<lparr>st_ino := i\<rparr>;
          (_, w0) = isfile ops a0 w i;
          (file, w1) = isfile ops a0 w0 i
      in if file then fill_file ops a0 w1 i st
         else (let (link, w2) = issymlink ops a0 w1 i
               in if link then fill_symlink ops a0 w2 i st
                  else (let (dir, w3) = isdir ops a0 w2 i
                        in if dir then fill_dir ops a0 w3 i st else (yfs_code YOK, st, w3))))"

definition fuseserver_getattr :: "'w client_ops \<Rightarrow> attr \<Rightarrow> 'w \<Rightarrow> u64 \<Rightarrow> reply \<times> 'w" where
  "fuseserver_getattr ops a0 w ino =
     (let (ret, st, w') = fuse_stat ops a0 w ino
      in if ret \<noteq> yfs_code YOK then (Reply_Err ENOENT, w') else (Reply_Attr st 0, w'))"

definition fuseserver_setattr ::
  "fuse_lib \<Rightarrow> 'w client_ops \<Rightarrow> attr \<Rightarrow> 'w \<Rightarrow> u64 \<Rightarrow> stat \<Rightarrow> u32 \<Rightarrow> reply \<times> 'w" where
  "fuseserver_setattr lib ops a0 w ino att to_set =
     (if and (or (or (set_attr_size lib) (set_attr_atime lib)) (set_attr_mtime lib)) to_set \<noteq> 0
      then (let (_, w1) = (if and to_set (set_attr_size lib) \<noteq> 0 then setattr ops a0 w ino (st_size att) else (0, w));
                (_, st, w2) = fuse_stat ops a0 w1 ino
            in (Reply_Attr st 0, w2))
      else (Reply_Err ENOSYS, w))"

section \<open>Files\<close>

definition fuseserver_read :: "'w client_ops \<Rightarrow> 'w \<Rightarrow> u64 \<Rightarrow> u64 \<Rightarrow> u64 \<Rightarrow> reply \<times> 'w" where
  "fuseserver_read ops w ino sz off =
     (let (r, buf, w') = yfs_read ops w ino sz off []
      in if r = yfs_code YOK then (Reply_Buf buf, w') else (Reply_Err ENOENT, w'))"

text \<open>\<open>size\<close> is also the variable that receives the number of bytes written.\<close>

definition fuseserver_write :: "'w client_ops \<Rightarrow> 'w \<Rightarrow> u64 \<Rightarrow> bytes \<Rightarrow> u64 \<Rightarrow> u64 \<Rightarrow> (reply \<times> 'w) res" where
  "fuseserver_write ops w ino buf sz off =
     bind_res (yfs_write ops w ino sz off buf) (\<lambda>(r, sz', w').
       Inr (if r = yfs_code YOK then Reply_Write sz' else Reply_Err ENOENT, w'))"

section \<open>Directories\<close>

definition new_entry :: "u64 \<Rightarrow> stat \<Rightarrow> entry_param" where
  "new_entry ino st = \<lparr>e_ino = ino, e_generation = 0, e_attr = st, e_attr_timeout = 0, e_entry_timeout = 0\<rparr>"

text \<open>\<open>None\<close>: the entry is not filled in, and no caller reads it.\<close>

definition fuseserver_createhelper ::
  "'w client_ops \<Rightarrow> attr \<Rightarrow> 'w \<Rightarrow> u64 \<Rightarrow> bytes \<Rightarrow> inum \<Rightarrow> u32 \<Rightarrow> int \<times> entry_param option \<times> 'w" where
  "fuseserver_createhelper ops a0 w parent name i0 ty =
     (let (ret, inum, w1) = (if ty = T_FILE then yfs_create ops w parent (c_string name) i0
                             else yfs_mkdir ops w parent (c_string name) i0)
      in if ret \<noteq> yfs_code YOK then (ret, None, w1)
         else (let (ret', st, w2) = fuse_stat ops a0 w1 inum in (ret', Some (new_entry inum st), w2)))"

text \<open>The replies of \<open>create\<close>, \<open>mknod\<close> and \<open>mkdir\<close> to the helper's result.\<close>

definition create_reply :: "(entry_param \<Rightarrow> reply) \<Rightarrow> int \<times> entry_param option \<times> 'w \<Rightarrow> (reply \<times> 'w) res" where
  "create_reply ok = (\<lambda>(ret, e, w).
     if ret = yfs_code YOK then (case e of Some e' \<Rightarrow> Inr (ok e', w) | None \<Rightarrow> Inl Uninitialised)
     else if ret = yfs_code YEXIST then Inr (Reply_Err EEXIST, w) else Inr (Reply_Err ENOENT, w))"

definition fuseserver_create ::
  "'w client_ops \<Rightarrow> attr \<Rightarrow> 'w \<Rightarrow> u64 \<Rightarrow> bytes \<Rightarrow> file_info \<Rightarrow> inum \<Rightarrow> (reply \<times> 'w) res" where
  "fuseserver_create ops a0 w parent name fi i0 =
     create_reply (\<lambda>e. Reply_Create e fi) (fuseserver_createhelper ops a0 w parent name i0 T_FILE)"

definition fuseserver_mknod ::
  "'w client_ops \<Rightarrow> attr \<Rightarrow> 'w \<Rightarrow> u64 \<Rightarrow> bytes \<Rightarrow> inum \<Rightarrow> (reply \<times> 'w) res" where
  "fuseserver_mknod ops a0 w parent name i0 =
     create_reply Reply_Entry (fuseserver_createhelper ops a0 w parent name i0 T_FILE)"

definition fuseserver_mkdir ::
  "'w client_ops \<Rightarrow> attr \<Rightarrow> 'w \<Rightarrow> u64 \<Rightarrow> bytes \<Rightarrow> inum \<Rightarrow> (reply \<times> 'w) res" where
  "fuseserver_mkdir ops a0 w parent name i0 =
     create_reply Reply_Entry (fuseserver_createhelper ops a0 w parent name i0 T_DIR)"

text \<open>\<open>lookup\<close> looks at \<open>found\<close> only, and sends the attributes whatever \<open>getattr\<close> returned.\<close>

definition fuseserver_lookup ::
  "'w client_ops \<Rightarrow> attr \<Rightarrow> 'w \<Rightarrow> u64 \<Rightarrow> bytes \<Rightarrow> inum \<Rightarrow> (reply \<times> 'w) res" where
  "fuseserver_lookup ops a0 w parent name i0 =
     bind_res (yfs_lookup ops a0 w parent (c_string name) False i0) (\<lambda>(_, found, ino, w1).
       if found then (let (_, st, w2) = fuse_stat ops a0 w1 ino in Inr (Reply_Entry (new_entry ino st), w2))
       else Inr (Reply_Err ENOENT, w1))"

record dirbuf =
  b_p :: bytes
  b_size :: u64

definition dirbuf_add :: "fuse_lib \<Rightarrow> dirbuf \<Rightarrow> bytes \<Rightarrow> u64 \<Rightarrow> dirbuf" where
  "dirbuf_add lib b name ino =
     (let sz = b_size b + dirent_size lib (length (c_string name))
      in \<lparr>b_p = b_p b @ dirent_bytes lib (c_string name) (zero_stat\<lparr>st_ino := ino\<rparr>) sz, b_size = sz\<rparr>)"

definition reply_buf_limited :: "bytes \<Rightarrow> u64 \<Rightarrow> u64 \<Rightarrow> u64 \<Rightarrow> reply" where
  "reply_buf_limited buf bufsize off maxsize =
     (if off < bufsize
      then Reply_Buf (take (unat (if bufsize - off < maxsize then bufsize - off else maxsize)) (drop (unat off) buf))
      else Reply_Buf [])"

definition fuseserver_readdir ::
  "fuse_lib \<Rightarrow> 'w client_ops \<Rightarrow> attr \<Rightarrow> 'w \<Rightarrow> u64 \<Rightarrow> u64 \<Rightarrow> u64 \<Rightarrow> (reply \<times> 'w) res" where
  "fuseserver_readdir lib ops a0 w ino sz off =
     (let (dir, w1) = isdir ops a0 w ino
      in if \<not> dir then Inr (Reply_Err ENOTDIR, w1)
         else bind_res (yfs_readdir ops a0 w1 ino []) (\<lambda>(_, entries, w2).
           let b = foldl (\<lambda>b it. dirbuf_add lib b (de_name it) (de_inum it)) \<lparr>b_p = [], b_size = 0\<rparr> entries
           in Inr (reply_buf_limited (b_p b) (b_size b) off sz, w2)))"

definition fuseserver_open :: "'w \<Rightarrow> u64 \<Rightarrow> file_info \<Rightarrow> reply \<times> 'w" where
  "fuseserver_open w ino fi = (Reply_Open fi, w)"

definition fuseserver_unlink :: "'w client_ops \<Rightarrow> 'w \<Rightarrow> u64 \<Rightarrow> bytes \<Rightarrow> (reply \<times> 'w) res" where
  "fuseserver_unlink ops w parent name =
     bind_res (yfs_unlink ops w parent (c_string name)) (\<lambda>(r, w').
       if r = yfs_code YOK then Inr (Reply_Err 0, w')
       else if r = yfs_code YNOENT then Inr (Reply_Err ENOENT, w')
       else Inr (Reply_Err ENOTEMPTY, w'))"

section \<open>Symbolic links, the file system\<close>

definition fuseserver_symlink ::
  "'w client_ops \<Rightarrow> attr \<Rightarrow> 'w \<Rightarrow> bytes \<Rightarrow> u64 \<Rightarrow> bytes \<Rightarrow> inum \<Rightarrow> reply \<times> 'w" where
  "fuseserver_symlink ops a0 w link parent name i0 =
     (let (r, ino, w1) = yfs_symlink ops w parent (c_string link) (c_string name) i0
      in if r = yfs_code YOK
         then (let (_, st, w2) = fuse_stat ops a0 w1 ino in (Reply_Entry (new_entry ino st), w2))
         else if r = yfs_code YNOENT then (Reply_Err ENOENT, w1)
         else if r = yfs_code YEXIST then (Reply_Err EEXIST, w1)
         else (Reply_Err ENOTEMPTY, w1))"

definition fuseserver_readlink :: "'w client_ops \<Rightarrow> 'w \<Rightarrow> u64 \<Rightarrow> reply \<times> 'w" where
  "fuseserver_readlink ops w ino =
     (let (r, link, w') = yfs_readlink ops w ino []
      in if r = yfs_code YOK then (Reply_Readlink (c_string link), w')
         else if r = yfs_code YNOENT then (Reply_Err ENOENT, w') else (Reply_Err ENOTEMPTY, w'))"

definition fuseserver_statfs :: "'w \<Rightarrow> reply \<times> 'w" where
  "fuseserver_statfs w = (Reply_Statfs \<lparr>f_namemax = 255, f_bsize = 512\<rparr>, w)"

section \<open>Replies the handlers never send\<close>

lemma fuse_stat_codes: "fuse_stat ops a0 w i = (ret, st, w') \<Longrightarrow> ret = 0 \<or> ret = 3"
  by (auto simp: fuse_stat_def fill_file_def fill_symlink_def fill_dir_def getfile_def getsymlink_def getdir_def Let_def
      split: prod.splits if_splits)

lemma createhelper_codes:
  assumes "fuseserver_createhelper ops a0 w p name i0 ty = (ret, e, w')"
  shows "ret = 0 \<or> ret = 3" and "ret = 0 \<Longrightarrow> e \<noteq> None"
proof -
  obtain ret1 inum w1 where a: "(if ty = T_FILE then yfs_create ops w p (c_string name) i0
      else yfs_mkdir ops w p (c_string name) i0) = (ret1, inum, w1)" by (metis prod_cases3)
  then have "ret1 = 0"
    by (auto simp: yfs_create_def yfs_mkdir_def addfile_def Let_def split: if_splits prod.splits)
  then have "\<exists>st. fuse_stat ops a0 w1 inum = (ret, st, w') \<and> e = Some (new_entry inum st)"
    using assms unfolding fuseserver_createhelper_def a by (auto split: prod.splits)
  then show "ret = 0 \<or> ret = 3" "ret = 0 \<Longrightarrow> e \<noteq> None" by (auto dest: fuse_stat_codes)
qed

lemma createhelper_reply:
  assumes "\<And>e. ok e \<noteq> Reply_Err EEXIST"
  shows "\<exists>r w'. create_reply ok (fuseserver_createhelper ops a0 w p name i0 ty) = Inr (r, w') \<and> r \<noteq> Reply_Err EEXIST"
proof -
  obtain ret e w' where c: "fuseserver_createhelper ops a0 w p name i0 ty = (ret, e, w')" by (metis prod_cases3)
  show ?thesis
    using createhelper_codes [OF c] assms by (auto simp: c create_reply_def ENOENT_def EEXIST_def)
qed

end
