(* ===== verification/Yfs_Store.thy ===== *)
theory Yfs_Store
  imports Yfs_Client
begin

text \<open>
  What the file system calls of \<open>Yfs_Client\<close> do. The locale \<open>yfs_store\<close> is the contract of the
  extent and lock clients: a map from inode numbers to typed contents that every operation
  updates as its name says; a file is warm while its attributes are in the cache, and there
  is room for a contents when flushing it will succeed. \<open>Yfs_System\<close> interprets the
  contract on the caching extent client in front of the extent server.
\<close>

section \<open>The contract\<close>

definition op_keeps ::
  "('w \<Rightarrow> bool) \<Rightarrow> ('w \<Rightarrow> inum \<rightharpoonup> (u32 \<times> bytes)) \<Rightarrow> ('w \<Rightarrow> inum \<Rightarrow> bool) \<Rightarrow> ('w \<Rightarrow> inum \<Rightarrow> bytes \<Rightarrow> bool) \<Rightarrow>
   'w \<Rightarrow> (inum \<rightharpoonup> (u32 \<times> bytes)) \<Rightarrow> 'w \<Rightarrow> bool" where
  "op_keeps winv wview warm wroom w m w' \<longleftrightarrow> winv w' \<and> wview w' = m
     \<and> (\<forall>e. warm w e \<longrightarrow> warm w' e) \<and> (\<forall>e b. wroom w e b \<longrightarrow> wroom w' e b)"

locale yfs_store =
  fixes ops :: "'w client_ops"
    and winv :: "'w \<Rightarrow> bool"
    and wview :: "'w \<Rightarrow> inum \<rightharpoonup> (u32 \<times> bytes)"
    and warm :: "'w \<Rightarrow> inum \<Rightarrow> bool"
    and wroom :: "'w \<Rightarrow> inum \<Rightarrow> bytes \<Rightarrow> bool"
  assumes get_law: "winv w \<Longrightarrow> wview w e = Some (ty, d) \<Longrightarrow>
      \<exists>w'. op_get ops w e buf = (0, d, w') \<and> op_keeps winv wview warm wroom w (wview w) w' \<and> warm w' e"
    and getattr_law: "winv w \<Longrightarrow> wview w e = Some (ty, d) \<Longrightarrow>
      \<exists>a w'. op_getattr ops w e a0 = (0, a, w') \<and> a_type a = ty \<and> a_size a = of_nat (length d)
        \<and> op_keeps winv wview warm wroom w (wview w) w' \<and> warm w' e"
    and put_law: "winv w \<Longrightarrow> wview w e = Some (ty, d) \<Longrightarrow> warm w e \<Longrightarrow>
      \<exists>w'. op_put ops w e buf = (0, w') \<and> op_keeps winv wview warm wroom w ((wview w)(e \<mapsto> (ty, buf))) w'"
    and create_law: "winv w \<Longrightarrow> t \<in> {T_DIR, T_FILE, T_SYMLK} \<Longrightarrow> op_create ops w t i0 = (0, i, w') \<Longrightarrow>
      wview w i = None \<and> op_keeps winv wview warm wroom w ((wview w)(i \<mapsto> (t, []))) w' \<and> warm w' i"
    and remove_law: "winv w \<Longrightarrow> wview w e = Some (ty, d) \<Longrightarrow>
      \<exists>w'. op_remove ops w e = (0, w') \<and> op_keeps winv wview warm wroom w ((wview w)(e := None)) w' \<and> warm w' e"
    and flush_law: "winv w \<Longrightarrow> wview w e = Some (ty, d) \<Longrightarrow> wroom w e d \<Longrightarrow>
      \<exists>r w'. op_flush ops w e = (r, w') \<and> winv w' \<and> wview w' = wview w \<and> wroom w' e d"
    and acquire_law: "winv w \<Longrightarrow> op_keeps winv wview warm wroom w (wview w) (op_acquire ops w l)"
    and release_law: "winv w \<Longrightarrow> wview w l = Some (ty, d) \<Longrightarrow> wroom w l d \<Longrightarrow>
      winv (op_release ops w l) \<and> wview (op_release ops w l) = wview w \<and> wroom (op_release ops w l) l d
      \<and> (\<forall>e. e \<noteq> l \<longrightarrow> warm w e \<longrightarrow> warm (op_release ops w l) e)"
    and empty_law: "winv w \<Longrightarrow> wview w e \<noteq> None \<Longrightarrow> wroom w e []"

section \<open>Reading and writing as functions on contents\<close>

lemma clip_eq:
  assumes "length d < 2 ^ 64"
  shows "clip off sz d = take (unat sz) (drop (unat off) d)"
proof -
  have n: "unat (of_nat (length d) :: u64) = length d" using assms by (simp add: unat_of_nat)
  have le: "off \<le> of_nat (length d) \<longleftrightarrow> unat off \<le> length d" by (simp add: word_le_nat_alt n)
  have sum: "length d < unat off + unat sz" if "\<not> off + sz \<le> of_nat (length d)"
    using that by (simp add: word_le_nat_alt n unat_word_ariths)
  show ?thesis using sum by (auto simp: clip_def le)
qed

text \<open>The contents after a write of \<open>new\<close> at \<open>off\<close>: a gap is filled with zeros.\<close>

definition written_at :: "nat \<Rightarrow> bytes \<Rightarrow> bytes \<Rightarrow> bytes" where
  "written_at off new d = take off d @ replicate (off - length d) 0 @ new @ drop (off + length new) d"

lemma overwrite_eq:
  assumes d: "length d < 2 ^ 64" and new: "length new = unat sz" and sum: "unat off + unat sz < 2 ^ 64"
  shows "overwrite off sz new d = Inr (written_at (unat off) new d)"
proof -
  have n: "unat (of_nat (length d) :: u64) = length d" using d by (simp add: unat_of_nat)
  have s: "unat (off + sz) = unat off + unat sz" using sum by (simp add: unat_word_ariths)
  have gt: "sz + off > of_nat (length d) \<longleftrightarrow> length d < unat off + unat sz"
    by (simp add: word_less_nat_alt n add.commute [of sz] s)
  show ?thesis
  proof (cases "length d < unat off + unat sz")
    case True
    then show ?thesis
      using new by (simp add: overwrite_def gt s written_at_def Let_def min_def take_replicate)
  next
    case False
    then show ?thesis using new by (simp add: overwrite_def gt s written_at_def Let_def)
  qed
qed

definition sized :: "nat \<Rightarrow> bytes \<Rightarrow> bytes" where
  "sized n d = take n d @ replicate (n - length d) 0"

lemma resized_to_eq:
  assumes "length d < 2 ^ 32"
  shows "resized_to (of_nat (length d)) sz d = sized (unat sz) d"
proof -
  have n: "unat (ucast (of_nat (length d) :: u32) :: u64) = length d"
    using assms by (simp add: unsigned_ucast_eq unsigned_take_bit_eq unat_of_nat take_bit_nat_eq_self)
  consider "unat sz < length d" | "unat sz = length d" | "length d < unat sz" by linarith
  then show ?thesis
  proof cases
    case 3
    then have "unat (sz - ucast (of_nat (length d) :: u32)) = unat sz - length d"
      using n by (simp add: unat_sub word_le_nat_alt)
    then show ?thesis using 3 n by (simp add: resized_to_def sized_def word_less_nat_alt)
  qed (use n in \<open>simp_all add: resized_to_def sized_def word_less_nat_alt\<close>)
qed

text \<open>What a read returns after a write.\<close>

lemma written_at_read: "take (length new) (drop off (written_at off new d)) = new"
proof -
  have "length (take off d @ replicate (off - length d) 0) = off" by simp
  then have "drop off (written_at off new d) = new @ drop (off + length new) d"
    unfolding written_at_def append_assoc [symmetric] by (simp only: append_assoc drop_append) simp
  then show ?thesis by simp
qed

lemma length_written_at: "length (written_at off new d) = max (length d) (off + length new)"
  by (simp add: written_at_def)

section \<open>The file system calls\<close>

lemma op_keepsD:
  assumes "op_keeps winv wview warm wroom w m w'"
  shows "winv w'" "wview w' = m" "warm w e \<Longrightarrow> warm w' e" "wroom w e b \<Longrightarrow> wroom w' e b"
  using assms by (simp_all add: op_keeps_def)

context yfs_store
begin

abbreviation "kept \<equiv> op_keeps winv wview warm wroom"

lemma keeps_trans: "kept w1 m1 w2 \<Longrightarrow> kept w2 m2 w3 \<Longrightarrow> kept w1 m2 w3"
  by (simp add: op_keeps_def)

text \<open>Taking the lock and looking at the file, as every call begins.\<close>

lemma locked_get:
  assumes "winv w" and "wview w i = Some (ty, d)"
  obtains w' where "op_get ops (op_acquire ops w l) i buf = (0, d, w')" "kept w (wview w) w'" "warm w' i"
proof -
  note a = acquire_law [OF assms(1), of l]
  have "wview (op_acquire ops w l) i = Some (ty, d)" using op_keepsD(2) [OF a] assms(2) by simp
  from get_law [OF op_keepsD(1) [OF a] this] obtain w' where
    "op_get ops (op_acquire ops w l) i buf = (0, d, w')" "kept (op_acquire ops w l) (wview (op_acquire ops w l)) w'"
    "warm w' i" by blast
  with keeps_trans [OF a] op_keepsD(2) [OF a] that show thesis by simp
qed

lemma locked_getattr:
  assumes "winv w" and "wview w i = Some (ty, d)"
  obtains a w' where "op_getattr ops (op_acquire ops w l) i a0 = (0, a, w')" "a_type a = ty"
    "a_size a = of_nat (length d)" "kept w (wview w) w'" "warm w' i"
proof -
  note a = acquire_law [OF assms(1), of l]
  have "wview (op_acquire ops w l) i = Some (ty, d)" using op_keepsD(2) [OF a] assms(2) by simp
  from getattr_law [OF op_keepsD(1) [OF a] this] obtain x w' where
    "op_getattr ops (op_acquire ops w l) i a0 = (0, x, w')" "a_type x = ty" "a_size x = of_nat (length d)"
    "kept (op_acquire ops w l) (wview (op_acquire ops w l)) w'" "warm w' i" by blast
  with keeps_trans [OF a] op_keepsD(2) [OF a] that show thesis by simp
qed

lemma get_after:
  assumes "kept w m w1" and "m i = Some (ty, d)"
  obtains w' where "op_get ops w1 i buf = (0, d, w')" "kept w m w'" "warm w' i" "\<forall>e. warm w1 e \<longrightarrow> warm w' e"
proof -
  have v: "wview w1 i = Some (ty, d)" using op_keepsD(2) [OF assms(1)] assms(2) by simp
  obtain w' where g: "op_get ops w1 i buf = (0, d, w')" "kept w1 (wview w1) w'" "warm w' i"
    using get_law [OF op_keepsD(1) [OF assms(1)] v] by blast
  have k: "kept w m w'" using keeps_trans [OF assms(1) g(2)] op_keepsD(2) [OF assms(1)] by simp
  show thesis using that [OF g(1) k g(3)] op_keepsD(3) [OF g(2)] by blast
qed

lemma put_after:
  assumes "kept w m w1" and "m i = Some (ty, d)" and "warm w1 i"
  obtains w' where "op_put ops w1 i buf = (0, w')" "kept w (m(i \<mapsto> (ty, buf))) w'" "\<forall>e. warm w1 e \<longrightarrow> warm w' e"
proof -
  have v: "wview w1 i = Some (ty, d)" using op_keepsD(2) [OF assms(1)] assms(2) by simp
  obtain w' where g: "op_put ops w1 i buf = (0, w')" "kept w1 ((wview w1)(i \<mapsto> (ty, buf))) w'"
    using put_law [OF op_keepsD(1) [OF assms(1)] v assms(3)] by blast
  have k: "kept w (m(i \<mapsto> (ty, buf))) w'" using keeps_trans [OF assms(1) g(2)] op_keepsD(2) [OF assms(1)] by simp
  show thesis using that [OF g(1) k] op_keepsD(3) [OF g(2)] by blast
qed

lemma release_after:
  assumes "kept w m w1" and "m l = Some (ty, d)" and "wroom w l d"
  shows "winv (op_release ops w1 l)" "wview (op_release ops w1 l) = m"
    and "e \<noteq> l \<Longrightarrow> warm w1 e \<Longrightarrow> warm (op_release ops w1 l) e"
    and "wroom (op_release ops w1 l) l d"
  using release_law [of w1 l ty d] op_keepsD [OF assms(1)] assms(2,3) by auto

lemma read_call:
  assumes "winv w" and "wview w i = Some (ty, d)" and "length d < 2 ^ 64" and "wroom w i d"
  shows "\<exists>w'. yfs_read ops w i sz off data0 = (0, take (unat sz) (drop (unat off) d), w')
    \<and> winv w' \<and> wview w' = wview w \<and> wroom w' i d"
proof -
  obtain w2 where g: "op_get ops (op_acquire ops w i) i data0 = (0, d, w2)" "kept w (wview w) w2"
    by (rule locked_get [OF assms(1,2)])
  show ?thesis
    using release_after [OF g(2) assms(2,4)] by (simp add: yfs_read_def g(1) clip_eq [OF assms(3)])
qed

lemma readlink_call:
  assumes "winv w" and "wview w i = Some (ty, d)" and "wroom w i d"
  shows "\<exists>w'. yfs_readlink ops w i r0 = (0, d, w') \<and> winv w' \<and> wview w' = wview w \<and> wroom w' i d"
proof -
  obtain w2 where g: "op_get ops (op_acquire ops w i) i r0 = (0, d, w2)" "kept w (wview w) w2"
    by (rule locked_get [OF assms(1,2)])
  show ?thesis using release_after [OF g(2) assms(2,3)] by (simp add: yfs_readlink_def g(1))
qed

text \<open>Putting new contents and flushing them, as \<open>write\<close> and \<open>symlink\<close> end.\<close>

lemma put_flush_release:
  assumes k: "kept w m w1" and v: "m i = Some (ty, d)" and warm: "warm w1 i" and room: "wroom w i buf"
  obtains r w2 w3 where "op_put ops w1 i buf = (0, w2)" "op_flush ops w2 i = (r, w3)"
    "winv (op_release ops w3 i)" "wview (op_release ops w3 i) = m(i \<mapsto> (ty, buf))" "wroom (op_release ops w3 i) i buf"
proof -
  obtain w2 where p: "op_put ops w1 i buf = (0, w2)" "kept w (m(i \<mapsto> (ty, buf))) w2"
    by (rule put_after [OF k v warm])
  have v2: "wview w2 i = Some (ty, buf)" using op_keepsD(2) [OF p(2)] by simp
  obtain r w3 where f: "op_flush ops w2 i = (r, w3)" "winv w3" "wview w3 = wview w2" "wroom w3 i buf"
    using flush_law [OF op_keepsD(1) [OF p(2)] v2 op_keepsD(4) [OF p(2) room]] by blast
  have v3: "wview w3 i = Some (ty, buf)" using f(3) v2 by simp
  show thesis
    using that [OF p(1) f(1)] release_law [OF f(2) v3 f(4)] f(3) op_keepsD(2) [OF p(2)] by simp
qed

lemma write_call:
  assumes inv: "winv w" and v: "wview w i = Some (ty, d)" and d: "length d < 2 ^ 64"
    and data: "unat sz \<le> length data" and sum: "unat off + unat sz < 2 ^ 64"
    and room: "wroom w i (written_at (unat off) (take (unat sz) data) d)"
  shows "\<exists>w'. yfs_write ops w i sz off data = Inr (0, sz, w') \<and> winv w'
    \<and> wroom w' i (written_at (unat off) (take (unat sz) data) d)
    \<and> wview w' = (wview w)(i \<mapsto> (ty, written_at (unat off) (take (unat sz) data) d))"
proof -
  obtain w2 where g: "op_get ops (op_acquire ops w i) i [] = (0, d, w2)" "kept w (wview w) w2" "warm w2 i"
    by (rule locked_get [OF inv v])
  have ow: "overwrite off sz (take (unat sz) data) d = Inr (written_at (unat off) (take (unat sz) data) d)"
    using overwrite_eq [OF d _ sum] data by simp
  obtain r w3 w4 where f: "op_put ops w2 i (written_at (unat off) (take (unat sz) data) d) = (0, w3)"
    "op_flush ops w3 i = (r, w4)" "winv (op_release ops w4 i)"
    "wview (op_release ops w4 i) = (wview w)(i \<mapsto> (ty, written_at (unat off) (take (unat sz) data) d))"
    "wroom (op_release ops w4 i) i (written_at (unat off) (take (unat sz) data) d)"
    by (rule put_flush_release [OF g(2) v g(3) room])
  show ?thesis using data f by (simp add: yfs_write_def g(1) ow)
qed

lemma setattr_call:
  assumes inv: "winv w" and v: "wview w i = Some (ty, d)" and d: "length d < 2 ^ 32"
    and room: "wroom w i (sized (unat sz) d)"
  shows "\<exists>w'. setattr ops a0 w i sz = (0, w') \<and> winv w' \<and> wview w' = (wview w)(i \<mapsto> (ty, sized (unat sz) d))
    \<and> wroom w' i (sized (unat sz) d)"
proof -
  obtain a w2 where a: "op_getattr ops (op_acquire ops w i) i a0 = (0, a, w2)" "a_size a = of_nat (length d)"
    "kept w (wview w) w2" by (rule locked_getattr [OF inv v])
  obtain w3 where g: "op_get ops w2 i [] = (0, d, w3)" "kept w (wview w) w3" "warm w3 i"
    by (rule get_after [OF a(3) v])
  obtain w4 where p: "op_put ops w3 i (sized (unat sz) d) = (0, w4)"
    "kept w ((wview w)(i \<mapsto> (ty, sized (unat sz) d))) w4" by (rule put_after [OF g(2) v g(3)])
  show ?thesis
    using release_after [OF p(2) _ room] p(1) by (simp add: setattr_def a(1,2) g(1) resized_to_eq [OF d])
qed

lemma getfile_call:
  assumes "winv w" and "wview w i = Some (ty, d)" and "wroom w i d"
  shows "\<exists>fin w'. getfile ops a0 w i fin0 = (0, fin, w') \<and> fi_size fin = ucast (of_nat (length d) :: u32)
    \<and> winv w' \<and> wview w' = wview w \<and> wroom w' i d"
proof -
  obtain a w2 where a: "op_getattr ops (op_acquire ops w i) i a0 = (0, a, w2)" "a_size a = of_nat (length d)"
    "kept w (wview w) w2" by (rule locked_getattr [OF assms(1,2)])
  show ?thesis using release_after [OF a(3) assms(2,3)] by (simp add: getfile_def a(1,2))
qed

text \<open>Directories hold the text of a list of named entries.\<close>

lemma find_after:
  assumes es: "\<forall>(n, i) \<in> set es. n \<noteq> []" and k: "winv w" and v: "wview w p = Some (T_DIR, dir_text es)"
    and room: "wroom w p (dir_text es)"
  shows "\<exists>w'. yfs_lookup ops a0 w p name fd i0 =
      Inr (case map_of es name of Some i \<Rightarrow> (0, True, i, w') | None \<Rightarrow> (3, False, i0, w'))
    \<and> winv w' \<and> wview w' = wview w \<and> wroom w' p (dir_text es)"
proof -
  obtain a w2 where a: "op_getattr ops (op_acquire ops w p) p a0 = (0, a, w2)" "a_type a = T_DIR"
    "kept w (wview w) w2" by (rule locked_getattr [OF k v])
  obtain w3 where g: "op_get ops w2 p [] = (0, dir_text es, w3)" "kept w (wview w) w3"
    by (rule get_after [OF a(3) v])
  have first: "first_named name (map (\<lambda>(n, i). (encode n, filename i)) es) = map_option filename (map_of es name)" for es
    by (induction es) (auto simp: uncode_encode)
  have "yfs_find ops a0 (op_acquire ops w p) p name fd i0 =
      Inr (case map_of es name of Some i \<Rightarrow> (0, True, i, w3) | None \<Rightarrow> (3, False, i0, w3))"
    by (cases "map_of es name")
      (simp_all add: yfs_find_def a(1,2) [simplified] g(1) dir_entries_text [OF es] first n2i_filename)
  then show ?thesis
    using release_after [OF g(2) v room] by (cases "map_of es name") (simp_all add: yfs_lookup_def)
qed

lemma readdir_loop:
  "for_each (\<lambda>(f, n) l. bind_res (n2i n) (\<lambda>i. Inr (l @ [\<lparr>de_name = uncode f, de_inum = i\<rparr>])))
     (map (\<lambda>(n, i). (encode n, filename i)) es) l =
   Inr (l @ map (\<lambda>(n, i). \<lparr>de_name = n, de_inum = i\<rparr>) es)"
  by (induction es arbitrary: l) (auto simp: uncode_encode n2i_filename)

lemma readdir_call:
  assumes es: "\<forall>(n, i) \<in> set es. n \<noteq> []" and k: "winv w" and v: "wview w p = Some (T_DIR, dir_text es)"
    and room: "wroom w p (dir_text es)"
  shows "\<exists>w'. yfs_readdir ops a0 w p l = Inr (0, l @ map (\<lambda>(n, i). \<lparr>de_name = n, de_inum = i\<rparr>) es, w')
    \<and> winv w' \<and> wview w' = wview w \<and> wroom w' p (dir_text es)"
proof -
  obtain a w2 where a: "op_getattr ops (op_acquire ops w p) p a0 = (0, a, w2)" "a_type a = T_DIR"
    "kept w (wview w) w2" by (rule locked_getattr [OF k v])
  obtain w3 where g: "op_get ops w2 p [] = (0, dir_text es, w3)" "kept w (wview w) w3"
    by (rule get_after [OF a(3) v])
  show ?thesis
    using release_after [OF g(2) v room]
    by (simp add: yfs_readdir_def isdir_def has_type_def a(1,2) [simplified] g(1) dir_entries_text [OF es] readdir_loop)
qed

lemma addfile_call:
  assumes k: "winv w" and v: "wview w p = Some (T_DIR, dir_text es)" and t: "t \<in> {T_DIR, T_FILE, T_SYMLK}"
    and made: "fst (op_create ops (op_acquire ops w p) t i0) = 0"
    and room: "\<And>i. wroom w p (dir_text (es @ [(name, i)]))"
  shows "\<exists>i w'. addfile ops w p name i0 t = (0, i, w') \<and> wview w i = None \<and> winv w' \<and> warm w' i
    \<and> wroom w' p (dir_text (es @ [(name, i)]))
    \<and> wview w' = (wview w)(i \<mapsto> (t, []), p \<mapsto> (T_DIR, dir_text (es @ [(name, i)])))"
proof -
  note ac = acquire_law [OF k, of p]
  obtain i w2 where c: "op_create ops (op_acquire ops w p) t i0 = (0, i, w2)"
    using made by (cases "op_create ops (op_acquire ops w p) t i0") auto
  from create_law [OF op_keepsD(1) [OF ac] t c] have fresh: "wview w i = None"
    and k2: "kept w ((wview w)(i \<mapsto> (t, []))) w2" and warm: "warm w2 i"
    using keeps_trans [OF ac] op_keepsD(2) [OF ac] by auto
  have ne: "i \<noteq> p" using fresh v by auto
  have v2: "((wview w)(i \<mapsto> (t, []))) p = Some (T_DIR, dir_text es)" using v ne by simp
  obtain w3 where g: "op_get ops w2 p [] = (0, dir_text es, w3)" "kept w ((wview w)(i \<mapsto> (t, []))) w3" "warm w3 p"
    "\<forall>e. warm w2 e \<longrightarrow> warm w3 e" by (rule get_after [OF k2 v2])
  have warm3: "warm w3 i" using g(4) warm by blast
  obtain w4 where q: "op_put ops w3 p (dir_text (es @ [(name, i)])) = (0, w4)"
    "kept w ((wview w)(i \<mapsto> (t, []), p \<mapsto> (T_DIR, dir_text (es @ [(name, i)])))) w4" "\<forall>e. warm w3 e \<longrightarrow> warm w4 e"
    by (rule put_after [OF g(2) v2 g(3)])
  have warm4: "warm w4 i" using q(3) warm3 by blast
  have app: "dir_text es @ dir_record (encode name) (filename i) = dir_text (es @ [(name, i)])" by simp
  show ?thesis
    using release_after [OF q(2) _ room] release_after(3) [OF q(2) _ room ne warm4] fresh
    by (simp add: addfile_def c g(1) app q(1) del: dir_text_simps)
qed

text \<open>The loop of \<open>unlink\<close> when the name does not occur, and when it occurs once.\<close>

lemma unlink_absent:
  assumes "name \<notin> fst ` set es"
  shows "for_each (unlink_entry ops name) (map (\<lambda>(n, i). (encode n, filename i)) es) (flag, result, w) =
    Inr (flag, result @ dir_text es, w)"
  using assms by (induction es arbitrary: result) (auto simp: unlink_entry_def uncode_encode)

lemma unlink_once:
  assumes es: "es = es1 @ (name, i) # es2" and one: "name \<notin> fst ` set es1" "name \<notin> fst ` set es2"
  shows "for_each (unlink_entry ops name) (map (\<lambda>(n, i). (encode n, filename i)) es) (False, [], w) =
    Inr (True, dir_text (es1 @ es2), snd (op_remove ops w i))"
proof -
  have "for_each (unlink_entry ops name) (map (\<lambda>(n, i). (encode n, filename i)) ((name, i) # es2))
      (False, dir_text es1, w) = Inr (True, dir_text es1 @ dir_text es2, snd (op_remove ops w i))"
    using unlink_absent [OF one(2)] by (simp add: unlink_entry_def uncode_encode n2i_filename)
  then show ?thesis
    unfolding es map_append for_each_append unlink_absent [OF one(1), of False "[]", simplified] by simp
qed

lemma unlink_call:
  assumes es: "\<forall>(n, i) \<in> set es. n \<noteq> []" and k: "winv w" and v: "wview w p = Some (T_DIR, dir_text es)"
    and split: "es = es1 @ (name, i) # es2" and one: "name \<notin> fst ` set (es1 @ es2)"
    and i: "wview w i \<noteq> None" "i \<noteq> p" and room: "wroom w p (dir_text (es1 @ es2))"
  shows "\<exists>w'. yfs_unlink ops w p name = Inr (0, w') \<and> winv w'
    \<and> wview w' = (wview w)(i := None, p \<mapsto> (T_DIR, dir_text (es1 @ es2))) \<and> warm w' i"
proof -
  obtain w2 where g: "op_get ops (op_acquire ops w p) p [] = (0, dir_text es, w2)" "kept w (wview w) w2" "warm w2 p"
    by (rule locked_get [OF k v])
  obtain ty d where vi: "wview w2 i = Some (ty, d)" using i(1) op_keepsD(2) [OF g(2)] by auto
  obtain w3 where r: "op_remove ops w2 i = (0, w3)" "kept w2 ((wview w2)(i := None)) w3" "warm w3 i"
    using remove_law [OF op_keepsD(1) [OF g(2)] vi] by blast
  have k3: "kept w ((wview w)(i := None)) w3" using keeps_trans [OF g(2) r(2)] op_keepsD(2) [OF g(2)] by simp
  have v3: "((wview w)(i := None)) p = Some (T_DIR, dir_text es)" using v i(2) by simp
  have warm: "warm w3 p" using op_keepsD(3) [OF r(2) g(3)] .
  have v3': "wview w3 p = Some (T_DIR, dir_text es)" using v3 op_keepsD(2) [OF k3] by simp
  obtain w4 where q1: "op_put ops w3 p (dir_text (es1 @ es2)) = (0, w4)"
    "kept w3 ((wview w3)(p \<mapsto> (T_DIR, dir_text (es1 @ es2)))) w4"
    using put_law [OF op_keepsD(1) [OF k3] v3' warm] by blast
  have q: "op_put ops w3 p (dir_text (es1 @ es2)) = (0, w4)"
    "kept w ((wview w)(i := None, p \<mapsto> (T_DIR, dir_text (es1 @ es2)))) w4"
    using q1 keeps_trans [OF k3 q1(2)] op_keepsD(2) [OF k3] by simp_all
  have gone: "warm w4 i" using op_keepsD(3) [OF q1(2) r(3)] .
  have once: "for_each (unlink_entry ops name) (map (\<lambda>(n, i). (encode n, filename i)) es) (False, [], w2) =
      Inr (True, dir_text (es1 @ es2), w3)"
    using unlink_once [OF split] one r(1) by (simp add: image_Un)
  show ?thesis
    using release_after [OF q(2) _ room] q(1) gone i(2)
    by (simp add: yfs_unlink_def g(1) dir_entries_text [OF es] once del: dir_text_simps)
qed

lemma unlink_missing:
  assumes es: "\<forall>(n, i) \<in> set es. n \<noteq> []" and k: "winv w" and v: "wview w p = Some (T_DIR, dir_text es)"
    and none: "name \<notin> fst ` set es" and room: "wroom w p (dir_text es)"
  shows "\<exists>w'. yfs_unlink ops w p name = Inr (ENOENT, w') \<and> winv w' \<and> wview w' = wview w"
proof -
  obtain w2 where g: "op_get ops (op_acquire ops w p) p [] = (0, dir_text es, w2)" "kept w (wview w) w2"
    by (rule locked_get [OF k v])
  show ?thesis
    using release_after [OF g(2) v room]
    by (simp add: yfs_unlink_def g(1) dir_entries_text [OF es] unlink_absent [OF none])
qed

lemma symlink_call:
  assumes k: "winv w" and v: "wview w p = Some (T_DIR, dir_text es)"
    and made: "fst (op_create ops (op_acquire ops w p) T_SYMLK i0) = 0"
    and room: "\<And>i. wroom w p (dir_text (es @ [(name, i)]))"
    and room2: "\<And>i w1. addfile ops w p name i0 T_SYMLK = (0, i, w1) \<Longrightarrow> wroom w1 i link"
  shows "\<exists>i w'. yfs_symlink ops w p link name i0 = (0, i, w') \<and> wview w i = None \<and> winv w' \<and> wroom w' i link
    \<and> wview w' = (wview w)(i \<mapsto> (T_SYMLK, link), p \<mapsto> (T_DIR, dir_text (es @ [(name, i)])))"
proof -
  obtain i w1 where a: "addfile ops w p name i0 T_SYMLK = (0, i, w1)" "wview w i = None" "winv w1" "warm w1 i"
    "wview w1 = (wview w)(i \<mapsto> (T_SYMLK, []), p \<mapsto> (T_DIR, dir_text (es @ [(name, i)])))"
    using addfile_call [OF k v _ made room] by blast
  have ne: "i \<noteq> p" using a(2) v by auto
  note ac = acquire_law [OF a(3), of i]
  have v1: "wview w1 i = Some (T_SYMLK, [])" using ne by (simp add: a(5))
  obtain r w2 w3 where f: "op_put ops (op_acquire ops w1 i) i link = (0, w2)" "op_flush ops w2 i = (r, w3)"
    "winv (op_release ops w3 i)" "wview (op_release ops w3 i) = (wview w1)(i \<mapsto> (T_SYMLK, link))"
    "wroom (op_release ops w3 i) i link" by (rule put_flush_release [OF ac v1 op_keepsD(3) [OF ac a(4)] room2 [OF a(1)]])
  have "(wview w1)(i \<mapsto> (T_SYMLK, link)) =
      (wview w)(i \<mapsto> (T_SYMLK, link), p \<mapsto> (T_DIR, dir_text (es @ [(name, i)])))"
    using ne unfolding a(5) by (simp add: fun_upd_twist [of p i] del: dir_text_simps)
  then show ?thesis using f a(1,2) by (simp add: yfs_symlink_def del: dir_text_simps)
qed

end

end
