(* ===== verification/Fuse_Store.thy ===== *)
theory Fuse_Store
  imports Fuse_Server Yfs_Store
begin

text \<open>
  What the handlers of \<open>Fuse_Server\<close> reply on a file system client that keeps the contract of
  \<open>Yfs_Store\<close>. The lemmas of the client's calls give the result of the call, so each handler
  adds the attributes it sends and its reply.
\<close>

section \<open>Attributes\<close>

definition mode_of :: "u32 \<Rightarrow> u32" where
  "mode_of ty = (if ty = T_DIR then or S_IFDIR 0x1FF else if ty = T_FILE then or S_IFREG 0x1B6 else or S_IFLNK 0x1FF)"

definition stat_of :: "inum \<Rightarrow> u32 \<Rightarrow> bytes \<Rightarrow> stat \<Rightarrow> bool" where
  "stat_of i ty d st \<longleftrightarrow> st_ino st = i \<and> st_mode st = mode_of ty \<and> st_nlink st = (if ty = T_DIR then 2 else 1)
     \<and> st_size st = (if ty = T_DIR then 0 else ucast (of_nat (length d) :: u32))"

lemma new_entry_inject [simp]: "new_entry i st = new_entry j st' \<longleftrightarrow> i = j \<and> st = st'"
  by (simp add: new_entry_def)

context yfs_store
begin

lemma has_type_call:
  assumes "kept w m w1" and "m i = Some (ty, d)"
  obtains w' where "has_type ops t a0 w1 i = (ty = t, w')" "kept w m w'"
proof -
  have v: "wview w1 i = Some (ty, d)" using op_keepsD(2) [OF assms(1)] assms(2) by simp
  obtain a w' where g: "op_getattr ops w1 i a0 = (0, a, w')" "a_type a = ty" "kept w1 (wview w1) w'"
    using getattr_law [OF op_keepsD(1) [OF assms(1)] v] by blast
  show thesis
    using that [of w'] g keeps_trans [OF assms(1) g(3)] op_keepsD(2) [OF assms(1)] by (simp add: has_type_def)
qed

text \<open>The three ways to fill in the attributes.\<close>

lemma fill_call:
  assumes inv: "winv w" and v: "wview w i = Some (ty, d)" and room: "wroom w i d"
  shows "\<exists>st' w'. fill_file ops a0 w i st = (0, st', w') \<and> winv w' \<and> wview w' = wview w \<and> wroom w' i d
      \<and> st_ino st' = st_ino st \<and> st_mode st' = or S_IFREG 0x1B6 \<and> st_nlink st' = 1
      \<and> st_size st' = ucast (of_nat (length d) :: u32)"
    and "\<exists>st' w'. fill_symlink ops a0 w i st = (0, st', w') \<and> winv w' \<and> wview w' = wview w \<and> wroom w' i d
      \<and> st_ino st' = st_ino st \<and> st_mode st' = or S_IFLNK 0x1FF \<and> st_nlink st' = 1
      \<and> st_size st' = ucast (of_nat (length d) :: u32)"
    and "\<exists>st' w'. fill_dir ops a0 w i st = (0, st', w') \<and> winv w' \<and> wview w' = wview w \<and> wroom w' i d
      \<and> st_ino st' = st_ino st \<and> st_mode st' = or S_IFDIR 0x1FF \<and> st_nlink st' = 2 \<and> st_size st' = st_size st"
proof -
  obtain a w2 where a: "op_getattr ops (op_acquire ops w i) i a0 = (0, a, w2)" "a_size a = of_nat (length d)"
    "kept w (wview w) w2" by (rule locked_getattr [OF inv v])
  note r = release_after [OF a(3) v room]
  show "\<exists>st' w'. fill_file ops a0 w i st = (0, st', w') \<and> winv w' \<and> wview w' = wview w \<and> wroom w' i d
      \<and> st_ino st' = st_ino st \<and> st_mode st' = or S_IFREG 0x1B6 \<and> st_nlink st' = 1
      \<and> st_size st' = ucast (of_nat (length d) :: u32)"
    using r(1,2,4) by (simp add: fill_file_def getfile_def a(1,2))
  show "\<exists>st' w'. fill_symlink ops a0 w i st = (0, st', w') \<and> winv w' \<and> wview w' = wview w \<and> wroom w' i d
      \<and> st_ino st' = st_ino st \<and> st_mode st' = or S_IFLNK 0x1FF \<and> st_nlink st' = 1
      \<and> st_size st' = ucast (of_nat (length d) :: u32)"
    using r(1,2,4) by (simp add: fill_symlink_def getsymlink_def a(1,2))
  show "\<exists>st' w'. fill_dir ops a0 w i st = (0, st', w') \<and> winv w' \<and> wview w' = wview w \<and> wroom w' i d
      \<and> st_ino st' = st_ino st \<and> st_mode st' = or S_IFDIR 0x1FF \<and> st_nlink st' = 2 \<and> st_size st' = st_size st"
    using r(1,2,4) by (simp add: fill_dir_def getdir_def a(1,2))
qed

lemma stat_call:
  assumes inv: "winv w" and v: "wview w i = Some (ty, d)" and room: "wroom w i d" and ty: "ty \<in> {T_DIR, T_FILE, T_SYMLK}"
  obtains st w' where "fuse_stat ops a0 w i = (0, st, w')" "stat_of i ty d st" "winv w'" "wview w' = wview w" "wroom w' i d"
proof -
  have k: "kept w (wview w) w" by (simp add: op_keeps_def inv)
  obtain w0 where t0: "isfile ops a0 w i = (ty = T_FILE, w0)" "kept w (wview w) w0"
    unfolding isfile_def by (rule has_type_call [OF k v])
  obtain w1 where t1: "isfile ops a0 w0 i = (ty = T_FILE, w1)" "kept w (wview w) w1"
    unfolding isfile_def by (rule has_type_call [OF t0(2) v])
  obtain w2 where t2: "issymlink ops a0 w1 i = (ty = T_SYMLK, w2)" "kept w (wview w) w2"
    unfolding issymlink_def by (rule has_type_call [OF t1(2) v])
  obtain w3 where t3: "isdir ops a0 w2 i = (ty = T_DIR, w3)" "kept w (wview w) w3"
    unfolding isdir_def by (rule has_type_call [OF t2(2) v])
  have at: "winv x" "wview x i = Some (ty, d)" "wview x = wview w" "wroom x i d" if "kept w (wview w) x" for x
    using op_keepsD [OF that] v room by auto
  let ?st = "zero_stat\<lparr>st_ino := i\<rparr>"
  consider (regular) "ty = T_FILE" | (link) "ty = T_SYMLK" | (dir) "ty = T_DIR" using ty by auto
  then show thesis
  proof cases
    case regular
    obtain st' w' where "fill_file ops a0 w1 i ?st = (0, st', w')" "winv w'" "wview w' = wview w1" "wroom w' i d"
      "st_ino st' = i" "st_mode st' = or S_IFREG 0x1B6" "st_nlink st' = 1" "st_size st' = ucast (of_nat (length d) :: u32)"
      using fill_call(1) [OF at(1,2,4) [OF t1(2)], of a0 ?st] by auto
    then show thesis
      using that [of st' w'] at(3) [OF t1(2)] regular t0(1) t1(1) by (simp add: fuse_stat_def stat_of_def mode_of_def)
  next
    case link
    obtain st' w' where "fill_symlink ops a0 w2 i ?st = (0, st', w')" "winv w'" "wview w' = wview w2" "wroom w' i d"
      "st_ino st' = i" "st_mode st' = or S_IFLNK 0x1FF" "st_nlink st' = 1" "st_size st' = ucast (of_nat (length d) :: u32)"
      using fill_call(2) [OF at(1,2,4) [OF t2(2)], of a0 ?st] by auto
    then show thesis
      using that [of st' w'] at(3) [OF t2(2)] link t0(1) t1(1) t2(1) by (simp add: fuse_stat_def stat_of_def mode_of_def)
  next
    case dir
    obtain st' w' where "fill_dir ops a0 w3 i ?st = (0, st', w')" "winv w'" "wview w' = wview w3" "wroom w' i d"
      "st_ino st' = i" "st_mode st' = or S_IFDIR 0x1FF" "st_nlink st' = 2" "st_size st' = 0"
      using fill_call(3) [OF at(1,2,4) [OF t3(2)], of a0 ?st] by (auto simp: zero_stat_def)
    then show thesis
      using that [of st' w'] at(3) [OF t3(2)] dir t0(1) t1(1) t2(1) t3(1) by (simp add: fuse_stat_def stat_of_def mode_of_def)
  qed
qed

section \<open>Handlers\<close>

lemma getattr_handler:
  assumes "winv w" and "wview w i = Some (ty, d)" and "wroom w i d" and "ty \<in> {T_DIR, T_FILE, T_SYMLK}"
  shows "\<exists>st w'. fuseserver_getattr ops a0 w i = (Reply_Attr st 0, w') \<and> stat_of i ty d st
    \<and> winv w' \<and> wview w' = wview w"
  by (rule stat_call [OF assms, of a0]) (simp add: fuseserver_getattr_def)

lemma setattr_handler:
  assumes inv: "winv w" and v: "wview w i = Some (ty, d)" and d: "length d < 2 ^ 32" and ty: "ty \<in> {T_DIR, T_FILE, T_SYMLK}"
    and bit: "and to_set (set_attr_size lib) \<noteq> 0" and room: "wroom w i (sized (unat (st_size att)) d)"
  shows "\<exists>st w'. fuseserver_setattr lib ops a0 w i att to_set = (Reply_Attr st 0, w')
    \<and> stat_of i ty (sized (unat (st_size att)) d) st \<and> winv w'
    \<and> wview w' = (wview w)(i \<mapsto> (ty, sized (unat (st_size att)) d))"
proof -
  let ?d = "sized (unat (st_size att)) d"
  have any: "and (or (or (set_attr_size lib) (set_attr_atime lib)) (set_attr_mtime lib)) to_set \<noteq> 0"
  proof
    assume z: "and (or (or (set_attr_size lib) (set_attr_atime lib)) (set_attr_mtime lib)) to_set = 0"
    have "and to_set (set_attr_size lib) = and (and (or (or (set_attr_size lib) (set_attr_atime lib)) (set_attr_mtime lib)) to_set) (set_attr_size lib)"
      by (rule bit_eqI) (auto simp: bit_simps)
    then show False using bit by (simp add: z)
  qed
  obtain w1 where w1: "setattr ops a0 w i (st_size att) = (0, w1)" "winv w1" "wview w1 = (wview w)(i \<mapsto> (ty, ?d))" "wroom w1 i ?d"
    using setattr_call [OF inv v d room] by blast
  have v1: "wview w1 i = Some (ty, ?d)" by (simp add: w1(3))
  show ?thesis
    by (rule stat_call [OF w1(2) v1 w1(4) ty, of a0])
      (simp add: fuseserver_setattr_def any bit w1(1) w1(3))
qed

lemma read_handler:
  assumes "winv w" and "wview w i = Some (ty, d)" and "length d < 2 ^ 64" and "wroom w i d"
  shows "\<exists>w'. fuseserver_read ops w i sz off = (Reply_Buf (take (unat sz) (drop (unat off) d)), w')
    \<and> winv w' \<and> wview w' = wview w"
  using read_call [OF assms, of sz off "[]"] by (auto simp: fuseserver_read_def)

lemma write_handler:
  assumes "winv w" and "wview w i = Some (ty, d)" and "length d < 2 ^ 64" and "unat sz \<le> length data"
    and "unat off + unat sz < 2 ^ 64" and "wroom w i (written_at (unat off) (take (unat sz) data) d)"
  shows "\<exists>w'. fuseserver_write ops w i data sz off = Inr (Reply_Write sz, w') \<and> winv w'
    \<and> wroom w' i (written_at (unat off) (take (unat sz) data) d)
    \<and> wview w' = (wview w)(i \<mapsto> (ty, written_at (unat off) (take (unat sz) data) d))"
  using write_call [OF assms] by (auto simp: fuseserver_write_def)

text \<open>Making a file or directory: the helper returns the entry of the new, empty file.\<close>

lemma create_helper:
  assumes inv: "winv w" and v: "wview w p = Some (T_DIR, dir_text es)" and t: "t \<in> {T_FILE, T_DIR}"
    and made: "fst (op_create ops (op_acquire ops w p) t i0) = 0"
    and room: "\<And>i. wroom w p (dir_text (es @ [(c_string name, i)]))"
  shows "\<exists>i st w'. fuseserver_createhelper ops a0 w p name i0 t = (0, Some (new_entry i st), w') \<and> wview w i = None
    \<and> stat_of i t [] st \<and> winv w'
    \<and> wview w' = (wview w)(i \<mapsto> (t, []), p \<mapsto> (T_DIR, dir_text (es @ [(c_string name, i)])))"
proof -
  have t': "t \<in> {T_DIR, T_FILE, T_SYMLK}" using t by auto
  obtain i w1 where a: "addfile ops w p (c_string name) i0 t = (0, i, w1)" "wview w i = None" "winv w1"
    "wview w1 = (wview w)(i \<mapsto> (t, []), p \<mapsto> (T_DIR, dir_text (es @ [(c_string name, i)])))"
    using addfile_call [OF inv v t' made room] by blast
  have "i \<noteq> p" using a(2) v by auto
  then have v1: "wview w1 i = Some (t, [])" by (simp add: a(4) del: dir_text_simps)
  then have room1: "wroom w1 i []" by (intro empty_law [OF a(3)]) simp
  have run: "(if t = T_FILE then yfs_create ops w p (c_string name) i0 else yfs_mkdir ops w p (c_string name) i0) = (0, i, w1)"
    using t a(1) by (auto simp: yfs_create_def yfs_mkdir_def)
  obtain st w2 where s: "fuse_stat ops a0 w1 i = (0, st, w2)" "stat_of i t [] st" "winv w2" "wview w2 = wview w1"
    by (rule stat_call [OF a(3) v1 room1 t'])
  have "fuseserver_createhelper ops a0 w p name i0 t = (0, Some (new_entry i st), w2)"
    unfolding fuseserver_createhelper_def run by (simp add: s(1))
  then show ?thesis using a(2) s(2,3) s(4) [unfolded a(4)] by blast
qed

lemma lookup_handler:
  assumes es: "\<forall>(n, i) \<in> set es. n \<noteq> []" and inv: "winv w" and v: "wview w p = Some (T_DIR, dir_text es)"
    and room: "wroom w p (dir_text es)" and i: "map_of es (c_string name) = Some i" and vi: "wview w i = Some (ty, d)"
    and ty: "ty \<in> {T_DIR, T_FILE, T_SYMLK}"
    and room2: "\<And>w1. yfs_lookup ops a0 w p (c_string name) False i0 = Inr (0, True, i, w1) \<Longrightarrow> wroom w1 i d"
  shows "\<exists>st w'. fuseserver_lookup ops a0 w p name i0 = Inr (Reply_Entry (new_entry i st), w') \<and> stat_of i ty d st
    \<and> winv w' \<and> wview w' = wview w"
proof -
  obtain w1 where l: "yfs_lookup ops a0 w p (c_string name) False i0 = Inr (0, True, i, w1)" "winv w1" "wview w1 = wview w"
    using find_after [OF es inv v room, of a0 "c_string name" False i0] i by auto
  have v1: "wview w1 i = Some (ty, d)" by (simp add: l(3) vi)
  show ?thesis
    by (rule stat_call [OF l(2) v1 room2 [OF l(1)] ty, of a0]) (simp add: fuseserver_lookup_def l(1,3))
qed

lemma lookup_handler_missing:
  assumes es: "\<forall>(n, i) \<in> set es. n \<noteq> []" and inv: "winv w" and v: "wview w p = Some (T_DIR, dir_text es)"
    and room: "wroom w p (dir_text es)" and none: "map_of es (c_string name) = None"
  shows "\<exists>w'. fuseserver_lookup ops a0 w p name i0 = Inr (Reply_Err ENOENT, w') \<and> winv w' \<and> wview w' = wview w"
  using find_after [OF es inv v room, of a0 "c_string name" False i0] none by (auto simp: fuseserver_lookup_def)

lemma unlink_handler:
  assumes "\<forall>(n, i) \<in> set es. n \<noteq> []" and "winv w" and "wview w p = Some (T_DIR, dir_text es)"
    and "es = es1 @ (c_string name, i) # es2" and "c_string name \<notin> fst ` set (es1 @ es2)"
    and "wview w i \<noteq> None" "i \<noteq> p" and "wroom w p (dir_text (es1 @ es2))"
  shows "\<exists>w'. fuseserver_unlink ops w p name = Inr (Reply_Err 0, w') \<and> winv w'
    \<and> wview w' = (wview w)(i := None, p \<mapsto> (T_DIR, dir_text (es1 @ es2)))"
  using unlink_call [OF assms] by (auto simp: fuseserver_unlink_def simp del: dir_text_simps)

lemma unlink_handler_missing:
  assumes "\<forall>(n, i) \<in> set es. n \<noteq> []" and "winv w" and "wview w p = Some (T_DIR, dir_text es)"
    and "c_string name \<notin> fst ` set es" and "wroom w p (dir_text es)"
  shows "\<exists>w'. fuseserver_unlink ops w p name = Inr (Reply_Err ENOENT, w') \<and> winv w' \<and> wview w' = wview w"
  using unlink_missing [OF assms] by (auto simp: fuseserver_unlink_def ENOENT_def)

lemma symlink_handler:
  assumes inv: "winv w" and v: "wview w p = Some (T_DIR, dir_text es)"
    and made: "fst (op_create ops (op_acquire ops w p) T_SYMLK i0) = 0"
    and room: "\<And>i. wroom w p (dir_text (es @ [(c_string name, i)]))"
    and room2: "\<And>i w1. addfile ops w p (c_string name) i0 T_SYMLK = (0, i, w1) \<Longrightarrow> wroom w1 i (c_string link)"
  shows "\<exists>i st w'. fuseserver_symlink ops a0 w link p name i0 = (Reply_Entry (new_entry i st), w') \<and> wview w i = None
    \<and> stat_of i T_SYMLK (c_string link) st \<and> winv w' \<and> wroom w' i (c_string link)
    \<and> wview w' = (wview w)(i \<mapsto> (T_SYMLK, c_string link), p \<mapsto> (T_DIR, dir_text (es @ [(c_string name, i)])))"
proof -
  obtain i w1 where a: "yfs_symlink ops w p (c_string link) (c_string name) i0 = (0, i, w1)" "wview w i = None" "winv w1"
    "wroom w1 i (c_string link)"
    "wview w1 = (wview w)(i \<mapsto> (T_SYMLK, c_string link), p \<mapsto> (T_DIR, dir_text (es @ [(c_string name, i)])))"
    using symlink_call [OF inv v made room room2] by blast
  have "i \<noteq> p" using a(2) v by auto
  then have v1: "wview w1 i = Some (T_SYMLK, c_string link)" by (simp add: a(5) del: dir_text_simps)
  obtain st w2 where s: "fuse_stat ops a0 w1 i = (0, st, w2)" "stat_of i T_SYMLK (c_string link) st" "winv w2"
    "wview w2 = wview w1" "wroom w2 i (c_string link)"
    by (rule stat_call [OF a(3) v1 a(4)]) simp_all
  have "fuseserver_symlink ops a0 w link p name i0 = (Reply_Entry (new_entry i st), w2)"
    by (simp add: fuseserver_symlink_def a(1) s(1))
  then show ?thesis using a(2) s(2,3,5) s(4) [unfolded a(5)] by blast
qed

lemma readlink_handler:
  assumes "winv w" and "wview w i = Some (ty, d)" and "wroom w i d"
  shows "\<exists>w'. fuseserver_readlink ops w i = (Reply_Readlink (c_string d), w') \<and> winv w' \<and> wview w' = wview w"
  using readlink_call [OF assms, of "[]"] by (auto simp: fuseserver_readlink_def)

end

section \<open>Directory listings\<close>

text \<open>
  The bytes of a listing: the entries one after the other, each told the offset at which the
  next one starts. \<open>lib_ok\<close> is what \<^verbatim>\<open>fuse_lowlevel.h\<close> says of the two library functions: an entry
  takes as many bytes as \<^verbatim>\<open>fuse_dirent_size\<close> gives for its name.
\<close>

definition lib_ok :: "fuse_lib \<Rightarrow> bool" where
  "lib_ok lib \<longleftrightarrow> (\<forall>name st off. length name < 2 ^ 32 \<longrightarrow>
     length (dirent_bytes lib name st off) = unat (dirent_size lib (length name)))"

fun listing :: "fuse_lib \<Rightarrow> u64 \<Rightarrow> (bytes \<times> u64) list \<Rightarrow> bytes" where
  "listing lib pos [] = []"
| "listing lib pos ((name, i) # es) =
     (let next_off = pos + dirent_size lib (length (c_string name))
      in dirent_bytes lib (c_string name) (zero_stat\<lparr>st_ino := i\<rparr>) next_off @ listing lib next_off es)"

fun listing_size :: "fuse_lib \<Rightarrow> (bytes \<times> u64) list \<Rightarrow> nat" where
  "listing_size lib [] = 0"
| "listing_size lib ((name, i) # es) = unat (dirent_size lib (length (c_string name))) + listing_size lib es"

lemma length_listing:
  assumes "lib_ok lib" and "\<forall>(n, i) \<in> set es. length n < 2 ^ 32"
  shows "length (listing lib pos es) = listing_size lib es"
  using assms(2)
proof (induction es arbitrary: pos)
  case (Cons e es)
  obtain n i where e: "e = (n, i)" by (cases e)
  have "length (c_string n) \<le> length n" by (simp add: c_string_def length_takeWhile_le)
  then have "length (c_string n) < 2 ^ 32" using Cons.prems e by auto
  then show ?case using Cons assms(1) by (simp add: e lib_ok_def Let_def)
qed simp

lemma dirbuf_fold:
  "foldl (\<lambda>b it. dirbuf_add lib b (de_name it) (de_inum it)) b (map (\<lambda>(n, i). \<lparr>de_name = n, de_inum = i\<rparr>) es) =
    \<lparr>b_p = b_p b @ listing lib (b_size b) es, b_size = b_size b + of_nat (listing_size lib es)\<rparr>"
proof (induction es arbitrary: b)
  case (Cons e es)
  obtain n i where "e = (n, i)" by (cases e)
  then show ?case using Cons.IH by (simp add: dirbuf_add_def Let_def add.assoc)
qed simp

text \<open>A reply is the window of the buffer that the kernel asked for.\<close>

lemma reply_buf_limited_eq:
  assumes "unat bufsize = length buf"
  shows "reply_buf_limited buf bufsize off maxsize = Reply_Buf (take (unat maxsize) (drop (unat off) buf))"
proof (cases "off < bufsize")
  case True
  then have o: "unat off < length buf" using assms by (simp add: word_less_nat_alt)
  have d: "unat (bufsize - off) = length buf - unat off" using True assms by (simp add: unat_sub less_imp_le word_le_nat_alt [symmetric])
  show ?thesis using True d o by (auto simp: reply_buf_limited_def word_less_nat_alt)
next
  case False
  then show ?thesis using assms by (simp add: reply_buf_limited_def word_less_nat_alt)
qed

context yfs_store
begin

lemma readdir_handler:
  assumes es: "\<forall>(n, i) \<in> set es. n \<noteq> []" and inv: "winv w" and v: "wview w p = Some (T_DIR, dir_text es)"
    and room: "wroom w p (dir_text es)" and lib: "lib_ok lib" and names: "\<forall>(n, i) \<in> set es. length n < 2 ^ 32"
    and small: "listing_size lib es < 2 ^ 64"
  shows "\<exists>w'. fuseserver_readdir lib ops a0 w p sz off =
      Inr (Reply_Buf (take (unat sz) (drop (unat off) (listing lib 0 es))), w') \<and> winv w' \<and> wview w' = wview w"
proof -
  have k: "kept w (wview w) w" by (simp add: op_keeps_def inv)
  obtain w1 where t: "isdir ops a0 w p = (True, w1)" "kept w (wview w) w1"
    unfolding isdir_def using has_type_call [OF k v, of T_DIR a0] by auto
  have v1: "wview w1 p = Some (T_DIR, dir_text es)" using op_keepsD(2) [OF t(2)] v by simp
  obtain w2 where r: "yfs_readdir ops a0 w1 p [] = Inr (0, map (\<lambda>(n, i). \<lparr>de_name = n, de_inum = i\<rparr>) es, w2)"
    "winv w2" "wview w2 = wview w"
    using readdir_call [OF es op_keepsD(1) [OF t(2)] v1 op_keepsD(4) [OF t(2) room], of a0 "[]"] op_keepsD(2) [OF t(2)] by auto
  have n: "unat (of_nat (listing_size lib es) :: u64) = length (listing lib 0 es)"
    using small by (simp add: length_listing [OF lib names] unat_of_nat)
  show ?thesis
    using r(2,3) by (simp add: fuseserver_readdir_def t(1) r(1) dirbuf_fold reply_buf_limited_eq [OF n])
qed

lemma readdir_handler_nodir:
  assumes inv: "winv w" and v: "wview w i = Some (ty, d)" and ty: "ty \<noteq> T_DIR"
  shows "\<exists>w'. fuseserver_readdir lib ops a0 w i sz off = Inr (Reply_Err ENOTDIR, w') \<and> winv w' \<and> wview w' = wview w"
proof -
  have k: "kept w (wview w) w" by (simp add: op_keeps_def inv)
  obtain w1 where "isdir ops a0 w i = (False, w1)" "kept w (wview w) w1"
    unfolding isdir_def using has_type_call [OF k v, of T_DIR a0] ty by auto
  then show ?thesis using op_keepsD by (auto simp: fuseserver_readdir_def)
qed

end

end
