(* ===== verification/Fuse_Dispatch.thy ===== *)
theory Fuse_Dispatch
  imports Fuse_Store
begin

text \<open>
  The requests of the kernel, the table of handlers that \<^verbatim>\<open>main\<close> of \<^verbatim>\<open>fuse.cc\<close> fills in, and a
  specification of the file system as a map from inode numbers to files: which replies a
  request may get, and what it makes of the map. The lemmas show that serving requests
  implements the specification, one request and a sequence of requests.
\<close>

section \<open>Requests\<close>

datatype request =
    Req_Getattr u64
  | Req_Statfs
  | Req_Readdir u64 u64 u64
  | Req_Lookup u64 bytes
  | Req_Create u64 bytes file_info
  | Req_Mknod u64 bytes
  | Req_Open u64 file_info
  | Req_Read u64 u64 u64
  | Req_Write u64 bytes u64 u64
  | Req_Setattr u64 stat u32
  | Req_Unlink u64 bytes
  | Req_Mkdir u64 bytes
  | Req_Symlink bytes u64 bytes
  | Req_Readlink u64

text \<open>\<open>a0\<close> and \<open>i0\<close> are the indeterminate values of local variables.\<close>

fun fuseserver_oper :: "fuse_lib \<Rightarrow> 'w client_ops \<Rightarrow> attr \<Rightarrow> inum \<Rightarrow> 'w \<Rightarrow> request \<Rightarrow> (reply \<times> 'w) res" where
  "fuseserver_oper lib ops a0 i0 w (Req_Getattr ino) = Inr (fuseserver_getattr ops a0 w ino)"
| "fuseserver_oper lib ops a0 i0 w Req_Statfs = Inr (fuseserver_statfs w)"
| "fuseserver_oper lib ops a0 i0 w (Req_Readdir ino sz off) = fuseserver_readdir lib ops a0 w ino sz off"
| "fuseserver_oper lib ops a0 i0 w (Req_Lookup parent name) = fuseserver_lookup ops a0 w parent name i0"
| "fuseserver_oper lib ops a0 i0 w (Req_Create parent name fi) = fuseserver_create ops a0 w parent name fi i0"
| "fuseserver_oper lib ops a0 i0 w (Req_Mknod parent name) = fuseserver_mknod ops a0 w parent name i0"
| "fuseserver_oper lib ops a0 i0 w (Req_Open ino fi) = Inr (fuseserver_open w ino fi)"
| "fuseserver_oper lib ops a0 i0 w (Req_Read ino sz off) = Inr (fuseserver_read ops w ino sz off)"
| "fuseserver_oper lib ops a0 i0 w (Req_Write ino buf sz off) = fuseserver_write ops w ino buf sz off"
| "fuseserver_oper lib ops a0 i0 w (Req_Setattr ino att to_set) = Inr (fuseserver_setattr lib ops a0 w ino att to_set)"
| "fuseserver_oper lib ops a0 i0 w (Req_Unlink parent name) = fuseserver_unlink ops w parent name"
| "fuseserver_oper lib ops a0 i0 w (Req_Mkdir parent name) = fuseserver_mkdir ops a0 w parent name i0"
| "fuseserver_oper lib ops a0 i0 w (Req_Symlink link parent name) = Inr (fuseserver_symlink ops a0 w link parent name i0)"
| "fuseserver_oper lib ops a0 i0 w (Req_Readlink ino) = Inr (fuseserver_readlink ops w ino)"

text \<open>The session serves one request after the other.\<close>

fun serve_all :: "fuse_lib \<Rightarrow> 'w client_ops \<Rightarrow> attr \<Rightarrow> inum \<Rightarrow> 'w \<Rightarrow> request list \<Rightarrow> (reply list \<times> 'w) res" where
  "serve_all lib ops a0 i0 w [] = Inr ([], w)"
| "serve_all lib ops a0 i0 w (q # qs) =
     bind_res (fuseserver_oper lib ops a0 i0 w q) (\<lambda>(r, w').
     bind_res (serve_all lib ops a0 i0 w' qs) (\<lambda>(rs, w''). Inr (r # rs, w'')))"

section \<open>The specification\<close>

type_synonym filemap = "inum \<rightharpoonup> (u32 \<times> bytes)"

text \<open>A new file of type \<open>t\<close> under an unused number, named at the end of the parent directory.\<close>

definition linked :: "filemap \<Rightarrow> inum \<Rightarrow> (bytes \<times> inum) list \<Rightarrow> bytes \<Rightarrow> inum \<Rightarrow> u32 \<Rightarrow> bytes \<Rightarrow> filemap" where
  "linked m p es name i t d = m(i \<mapsto> (t, d), p \<mapsto> (T_DIR, dir_text (es @ [(name, i)])))"

definition named :: "(bytes \<times> inum) list \<Rightarrow> bool" where
  "named es \<longleftrightarrow> (\<forall>(n, i) \<in> set es. n \<noteq> [])"

inductive fs_spec :: "fuse_lib \<Rightarrow> filemap \<Rightarrow> request \<Rightarrow> reply \<Rightarrow> filemap \<Rightarrow> bool" for lib where
  spec_getattr: "m i = Some (ty, d) \<Longrightarrow> stat_of i ty d st \<Longrightarrow> fs_spec lib m (Req_Getattr i) (Reply_Attr st 0) m"
| spec_statfs: "fs_spec lib m Req_Statfs (Reply_Statfs \<lparr>f_namemax = 255, f_bsize = 512\<rparr>) m"
| spec_readdir: "m p = Some (T_DIR, dir_text es) \<Longrightarrow> named es \<Longrightarrow>
    fs_spec lib m (Req_Readdir p sz off) (Reply_Buf (take (unat sz) (drop (unat off) (listing lib 0 es)))) m"
| spec_not_dir: "m i = Some (ty, d) \<Longrightarrow> ty \<noteq> T_DIR \<Longrightarrow> fs_spec lib m (Req_Readdir i sz off) (Reply_Err ENOTDIR) m"
| spec_lookup: "m p = Some (T_DIR, dir_text es) \<Longrightarrow> named es \<Longrightarrow> map_of es (c_string name) = Some i \<Longrightarrow>
    m i = Some (ty, d) \<Longrightarrow> stat_of i ty d st \<Longrightarrow> fs_spec lib m (Req_Lookup p name) (Reply_Entry (new_entry i st)) m"
| spec_no_entry: "m p = Some (T_DIR, dir_text es) \<Longrightarrow> named es \<Longrightarrow> map_of es (c_string name) = None \<Longrightarrow>
    fs_spec lib m (Req_Lookup p name) (Reply_Err ENOENT) m"
| spec_create: "m p = Some (T_DIR, dir_text es) \<Longrightarrow> m i = None \<Longrightarrow> stat_of i T_FILE [] st \<Longrightarrow>
    fs_spec lib m (Req_Create p name fi) (Reply_Create (new_entry i st) fi) (linked m p es (c_string name) i T_FILE [])"
| spec_mknod: "m p = Some (T_DIR, dir_text es) \<Longrightarrow> m i = None \<Longrightarrow> stat_of i T_FILE [] st \<Longrightarrow>
    fs_spec lib m (Req_Mknod p name) (Reply_Entry (new_entry i st)) (linked m p es (c_string name) i T_FILE [])"
| spec_mkdir: "m p = Some (T_DIR, dir_text es) \<Longrightarrow> m i = None \<Longrightarrow> stat_of i T_DIR [] st \<Longrightarrow>
    fs_spec lib m (Req_Mkdir p name) (Reply_Entry (new_entry i st)) (linked m p es (c_string name) i T_DIR [])"
| spec_symlink: "m p = Some (T_DIR, dir_text es) \<Longrightarrow> m i = None \<Longrightarrow> stat_of i T_SYMLK (c_string link) st \<Longrightarrow>
    fs_spec lib m (Req_Symlink link p name) (Reply_Entry (new_entry i st))
      (linked m p es (c_string name) i T_SYMLK (c_string link))"
| spec_open: "fs_spec lib m (Req_Open i fi) (Reply_Open fi) m"
| spec_read: "m i = Some (ty, d) \<Longrightarrow>
    fs_spec lib m (Req_Read i sz off) (Reply_Buf (take (unat sz) (drop (unat off) d))) m"
| spec_write: "m i = Some (ty, d) \<Longrightarrow>
    fs_spec lib m (Req_Write i buf sz off) (Reply_Write sz) (m(i \<mapsto> (ty, written_at (unat off) (take (unat sz) buf) d)))"
| spec_setattr: "m i = Some (ty, d) \<Longrightarrow> stat_of i ty (sized (unat (st_size att)) d) st \<Longrightarrow>
    fs_spec lib m (Req_Setattr i att to_set) (Reply_Attr st 0) (m(i \<mapsto> (ty, sized (unat (st_size att)) d)))"
| spec_unlink: "m p = Some (T_DIR, dir_text (es1 @ (c_string name, i) # es2)) \<Longrightarrow> named (es1 @ (c_string name, i) # es2) \<Longrightarrow>
    c_string name \<notin> fst ` set (es1 @ es2) \<Longrightarrow>
    fs_spec lib m (Req_Unlink p name) (Reply_Err 0) (m(i := None, p \<mapsto> (T_DIR, dir_text (es1 @ es2))))"
| spec_no_name: "m p = Some (T_DIR, dir_text es) \<Longrightarrow> named es \<Longrightarrow> c_string name \<notin> fst ` set es \<Longrightarrow>
    fs_spec lib m (Req_Unlink p name) (Reply_Err ENOENT) m"
| spec_readlink: "m i = Some (ty, d) \<Longrightarrow> fs_spec lib m (Req_Readlink i) (Reply_Readlink (c_string d)) m"

fun spec_run :: "fuse_lib \<Rightarrow> filemap \<Rightarrow> request list \<Rightarrow> reply list \<Rightarrow> filemap \<Rightarrow> bool" where
  "spec_run lib m [] rs m' \<longleftrightarrow> rs = [] \<and> m' = m"
| "spec_run lib m (q # qs) rs m'' \<longleftrightarrow> (\<exists>r rs' m'. rs = r # rs' \<and> fs_spec lib m q r m' \<and> spec_run lib m' qs rs' m'')"

section \<open>When a request can be served\<close>

text \<open>
  A request can be served when the files it is about exist, the numbers it gives are in
  range, the server gives an inode, and there is room for what has to be flushed. \<open>view\<close> is the
  files that calls on the client see and \<open>room\<close> tells what can be flushed.
\<close>

definition file_at :: "('w \<Rightarrow> filemap) \<Rightarrow> ('w \<Rightarrow> inum \<Rightarrow> bytes \<Rightarrow> bool) \<Rightarrow> 'w \<Rightarrow> inum \<Rightarrow> u32 \<Rightarrow> bytes \<Rightarrow> bool" where
  "file_at view room w i ty d \<longleftrightarrow>
     view w i = Some (ty, d) \<and> room w i d \<and> length d < 2 ^ 32 \<and> ty \<in> {T_DIR, T_FILE, T_SYMLK}"

definition dir_at :: "('w \<Rightarrow> filemap) \<Rightarrow> ('w \<Rightarrow> inum \<Rightarrow> bytes \<Rightarrow> bool) \<Rightarrow> 'w \<Rightarrow> inum \<Rightarrow> (bytes \<times> inum) list \<Rightarrow> bool" where
  "dir_at view room w p es \<longleftrightarrow> view w p = Some (T_DIR, dir_text es) \<and> room w p (dir_text es) \<and> named es"

definition can_link :: "('w \<Rightarrow> filemap) \<Rightarrow> ('w \<Rightarrow> inum \<Rightarrow> bytes \<Rightarrow> bool) \<Rightarrow> 'w client_ops \<Rightarrow> 'w \<Rightarrow> inum \<Rightarrow> bytes \<Rightarrow> u32 \<Rightarrow> inum \<Rightarrow> bool" where
  "can_link view room ops w p name t i0 \<longleftrightarrow> fst (op_create ops (op_acquire ops w p) t i0) = 0
     \<and> (\<exists>es. view w p = Some (T_DIR, dir_text es) \<and> (\<forall>i. room w p (dir_text (es @ [(c_string name, i)]))))"

fun ready :: "('w \<Rightarrow> filemap) \<Rightarrow> ('w \<Rightarrow> inum \<Rightarrow> bytes \<Rightarrow> bool) \<Rightarrow> fuse_lib \<Rightarrow> 'w client_ops \<Rightarrow> attr \<Rightarrow> inum \<Rightarrow> 'w \<Rightarrow> request \<Rightarrow> bool" where
  "ready view room lib ops a0 i0 w (Req_Getattr i) \<longleftrightarrow> (\<exists>ty d. file_at view room w i ty d)"
| "ready view room lib ops a0 i0 w Req_Statfs \<longleftrightarrow> True"
| "ready view room lib ops a0 i0 w (Req_Readdir p sz off) \<longleftrightarrow> (\<exists>ty d. view w p = Some (ty, d) \<and> ty \<noteq> T_DIR)
     \<or> (\<exists>es. dir_at view room w p es \<and> lib_ok lib \<and> (\<forall>(n, i) \<in> set es. length n < 2 ^ 32) \<and> listing_size lib es < 2 ^ 64)"
| "ready view room lib ops a0 i0 w (Req_Lookup p name) \<longleftrightarrow> (\<exists>es. dir_at view room w p es \<and> (\<forall>i. map_of es (c_string name) = Some i \<longrightarrow>
     (\<exists>ty d. file_at view room w i ty d
        \<and> (\<forall>w1. yfs_lookup ops a0 w p (c_string name) False i0 = Inr (0, True, i, w1) \<longrightarrow> room w1 i d))))"
| "ready view room lib ops a0 i0 w (Req_Create p name fi) \<longleftrightarrow> can_link view room ops w p name T_FILE i0"
| "ready view room lib ops a0 i0 w (Req_Mknod p name) \<longleftrightarrow> can_link view room ops w p name T_FILE i0"
| "ready view room lib ops a0 i0 w (Req_Open i fi) \<longleftrightarrow> True"
| "ready view room lib ops a0 i0 w (Req_Read i sz off) \<longleftrightarrow> (\<exists>ty d. view w i = Some (ty, d) \<and> room w i d \<and> length d < 2 ^ 64)"
| "ready view room lib ops a0 i0 w (Req_Write i buf sz off) \<longleftrightarrow> (\<exists>ty d. view w i = Some (ty, d) \<and> length d < 2 ^ 64
     \<and> unat sz \<le> length buf \<and> unat off + unat sz < 2 ^ 64 \<and> room w i (written_at (unat off) (take (unat sz) buf) d))"
| "ready view room lib ops a0 i0 w (Req_Setattr i att to_set) \<longleftrightarrow> and to_set (set_attr_size lib) \<noteq> 0
     \<and> (\<exists>ty d. view w i = Some (ty, d) \<and> length d < 2 ^ 32 \<and> ty \<in> {T_DIR, T_FILE, T_SYMLK}
          \<and> room w i (sized (unat (st_size att)) d))"
| "ready view room lib ops a0 i0 w (Req_Unlink p name) \<longleftrightarrow> (\<exists>es. dir_at view room w p es \<and> c_string name \<notin> fst ` set es)
     \<or> (\<exists>es1 i es2. view w p = Some (T_DIR, dir_text (es1 @ (c_string name, i) # es2)) \<and> named (es1 @ (c_string name, i) # es2)
          \<and> c_string name \<notin> fst ` set (es1 @ es2) \<and> view w i \<noteq> None \<and> i \<noteq> p \<and> room w p (dir_text (es1 @ es2)))"
| "ready view room lib ops a0 i0 w (Req_Mkdir p name) \<longleftrightarrow> can_link view room ops w p name T_DIR i0"
| "ready view room lib ops a0 i0 w (Req_Symlink link p name) \<longleftrightarrow> can_link view room ops w p name T_SYMLK i0
     \<and> (\<forall>i w1. addfile ops w p (c_string name) i0 T_SYMLK = (0, i, w1) \<longrightarrow> room w1 i (c_string link))"
| "ready view room lib ops a0 i0 w (Req_Readlink i) \<longleftrightarrow> (\<exists>ty d. view w i = Some (ty, d) \<and> room w i d)"

text \<open>For a sequence of requests, each must be ready where the ones before it have led.\<close>

fun ready_run :: "('w \<Rightarrow> filemap) \<Rightarrow> ('w \<Rightarrow> inum \<Rightarrow> bytes \<Rightarrow> bool) \<Rightarrow> fuse_lib \<Rightarrow> 'w client_ops \<Rightarrow> attr \<Rightarrow> inum \<Rightarrow> 'w \<Rightarrow> request list \<Rightarrow> bool" where
  "ready_run view room lib ops a0 i0 w [] \<longleftrightarrow> True"
| "ready_run view room lib ops a0 i0 w (q # qs) \<longleftrightarrow> ready view room lib ops a0 i0 w q
     \<and> (\<forall>r w'. fuseserver_oper lib ops a0 i0 w q = Inr (r, w') \<longrightarrow> ready_run view room lib ops a0 i0 w' qs)"

section \<open>Serving implements the specification\<close>

context yfs_store
begin

abbreviation implements :: "fuse_lib \<Rightarrow> attr \<Rightarrow> inum \<Rightarrow> 'w \<Rightarrow> request \<Rightarrow> bool" where
  "implements lib a0 i0 w q \<equiv> \<exists>r w'. fuseserver_oper lib ops a0 i0 w q = Inr (r, w')
     \<and> fs_spec lib (wview w) q r (wview w') \<and> winv w'"

lemma create_implements:
  assumes inv: "winv w" and can: "can_link wview wroom ops w p name t i0" and t: "t \<in> {T_FILE, T_DIR}"
  obtains es i st w' where "fuseserver_createhelper ops a0 w p name i0 t = (0, Some (new_entry i st), w')"
    "wview w p = Some (T_DIR, dir_text es)" "wview w i = None" "stat_of i t [] st" "winv w'"
    "wview w' = linked (wview w) p es (c_string name) i t []"
proof -
  obtain es where es: "wview w p = Some (T_DIR, dir_text es)" "\<And>i. wroom w p (dir_text (es @ [(c_string name, i)]))"
    using can by (auto simp: can_link_def)
  have made: "fst (op_create ops (op_acquire ops w p) t i0) = 0" using can by (simp add: can_link_def)
  show thesis
    using create_helper [OF inv es(1) t made es(2), of a0] that es(1) unfolding linked_def by blast
qed

lemma read_implements:
  assumes inv: "winv w"
  shows "ready wview wroom lib ops a0 i0 w (Req_Getattr i) \<Longrightarrow> implements lib a0 i0 w (Req_Getattr i)"
    and "ready wview wroom lib ops a0 i0 w (Req_Read i sz off) \<Longrightarrow> implements lib a0 i0 w (Req_Read i sz off)"
    and "ready wview wroom lib ops a0 i0 w (Req_Readlink i) \<Longrightarrow> implements lib a0 i0 w (Req_Readlink i)"
    and "implements lib a0 i0 w Req_Statfs"
    and "implements lib a0 i0 w (Req_Open i fi)"
proof -
  assume "ready wview wroom lib ops a0 i0 w (Req_Getattr i)"
  then obtain ty d where f: "wview w i = Some (ty, d)" "wroom w i d" "ty \<in> {T_DIR, T_FILE, T_SYMLK}"
    by (auto simp only: ready.simps file_at_def)
  show "implements lib a0 i0 w (Req_Getattr i)"
    using getattr_handler [OF inv f, of a0] f(1) by (auto intro: spec_getattr)
next
  assume "ready wview wroom lib ops a0 i0 w (Req_Read i sz off)"
  then obtain ty d where f: "wview w i = Some (ty, d)" "length d < 2 ^ 64" "wroom w i d" by auto
  show "implements lib a0 i0 w (Req_Read i sz off)"
    using read_handler [OF inv f, of sz off] f(1) by (auto intro: spec_read)
next
  assume "ready wview wroom lib ops a0 i0 w (Req_Readlink i)"
  then obtain ty d where f: "wview w i = Some (ty, d)" "wroom w i d" by auto
  show "implements lib a0 i0 w (Req_Readlink i)"
    using readlink_handler [OF inv f] f(1) by (auto intro: spec_readlink)
next
  show "implements lib a0 i0 w Req_Statfs" by (simp add: fuseserver_statfs_def inv spec_statfs)
  show "implements lib a0 i0 w (Req_Open i fi)" by (simp add: fuseserver_open_def inv spec_open)
qed

lemma update_implements:
  assumes inv: "winv w"
  shows "ready wview wroom lib ops a0 i0 w (Req_Write i buf sz off) \<Longrightarrow> implements lib a0 i0 w (Req_Write i buf sz off)"
    and "ready wview wroom lib ops a0 i0 w (Req_Setattr i att to_set) \<Longrightarrow> implements lib a0 i0 w (Req_Setattr i att to_set)"
proof -
  assume "ready wview wroom lib ops a0 i0 w (Req_Write i buf sz off)"
  then obtain ty d where f: "wview w i = Some (ty, d)" "length d < 2 ^ 64" "unat sz \<le> length buf"
    "unat off + unat sz < 2 ^ 64" "wroom w i (written_at (unat off) (take (unat sz) buf) d)" by auto
  obtain w' where r: "fuseserver_write ops w i buf sz off = Inr (Reply_Write sz, w')" "winv w'"
    "wview w' = (wview w)(i \<mapsto> (ty, written_at (unat off) (take (unat sz) buf) d))"
    using write_handler [OF inv f] by blast
  show "implements lib a0 i0 w (Req_Write i buf sz off)"
    using r spec_write [where m = "wview w", OF f(1), of lib buf sz off] by (simp add: r(3))
next
  assume "ready wview wroom lib ops a0 i0 w (Req_Setattr i att to_set)"
  then obtain ty d where b: "and to_set (set_attr_size lib) \<noteq> 0" and f: "wview w i = Some (ty, d)" "length d < 2 ^ 32"
    "ty \<in> {T_DIR, T_FILE, T_SYMLK}" "wroom w i (sized (unat (st_size att)) d)" by auto
  obtain st w' where r: "fuseserver_setattr lib ops a0 w i att to_set = (Reply_Attr st 0, w')" "winv w'"
    "stat_of i ty (sized (unat (st_size att)) d) st" "wview w' = (wview w)(i \<mapsto> (ty, sized (unat (st_size att)) d))"
    using setattr_handler [OF inv f(1-3) b f(4), of a0] by blast
  show "implements lib a0 i0 w (Req_Setattr i att to_set)"
    using r(1,2) spec_setattr [where m = "wview w", OF f(1) r(3), of lib to_set] by (simp add: r(4))
qed

lemma find_implements:
  assumes inv: "winv w"
  shows "ready wview wroom lib ops a0 i0 w (Req_Readdir p sz off) \<Longrightarrow> implements lib a0 i0 w (Req_Readdir p sz off)"
    and "ready wview wroom lib ops a0 i0 w (Req_Lookup p name) \<Longrightarrow> implements lib a0 i0 w (Req_Lookup p name)"
proof -
  assume "ready wview wroom lib ops a0 i0 w (Req_Readdir p sz off)"
  then consider ty d where "wview w p = Some (ty, d)" "ty \<noteq> T_DIR"
    | es where "wview w p = Some (T_DIR, dir_text es)" "wroom w p (dir_text es)" "named es" "lib_ok lib"
      "\<forall>(n, i) \<in> set es. length n < 2 ^ 32" "listing_size lib es < 2 ^ 64" unfolding ready.simps dir_at_def by blast
  then show "implements lib a0 i0 w (Req_Readdir p sz off)"
  proof cases
    case (1 ty d)
    then show ?thesis 
      using readdir_handler_nodir [OF inv 1, of lib a0 sz off] spec_not_dir [where m = "wview w", OF 1, of lib sz off] by auto
  next
    case (2 es)
    then show ?thesis
      using readdir_handler [OF _ inv 2(1,2,4,5,6), of a0 sz off] spec_readdir [where m = "wview w", OF 2(1,3), of lib sz off]
      by (auto simp: named_def simp del: dir_text_simps)
  qed
next
  assume "ready wview wroom lib ops a0 i0 w (Req_Lookup p name)"
  then obtain es where v: "wview w p = Some (T_DIR, dir_text es)" "wroom w p (dir_text es)" "named es"
    and f: "\<And>i. map_of es (c_string name) = Some i \<Longrightarrow> \<exists>ty d. file_at wview wroom w i ty d
        \<and> (\<forall>w1. yfs_lookup ops a0 w p (c_string name) False i0 = Inr (0, True, i, w1) \<longrightarrow> wroom w1 i d)"
    unfolding ready.simps dir_at_def by blast
  note es = v(3) [unfolded named_def]
  show "implements lib a0 i0 w (Req_Lookup p name)"
  proof (cases "map_of es (c_string name)")
    case None
    then show ?thesis
      using lookup_handler_missing [OF es inv v(1,2) None, of a0 i0] spec_no_entry [where m = "wview w", OF v(1,3) None, of lib] by auto
  next
    case (Some i)
    then obtain ty d where g: "wview w i = Some (ty, d)" "ty \<in> {T_DIR, T_FILE, T_SYMLK}"
      "\<And>w1. yfs_lookup ops a0 w p (c_string name) False i0 = Inr (0, True, i, w1) \<Longrightarrow> wroom w1 i d"
      using f unfolding file_at_def by blast
    show ?thesis
      using lookup_handler [OF es inv v(1,2) Some g] spec_lookup [where m = "wview w", OF v(1,3) Some g(1), of _ lib] by fastforce
  qed
qed

lemma link_implements:
  assumes inv: "winv w"
  shows "ready wview wroom lib ops a0 i0 w (Req_Create p name fi) \<Longrightarrow> implements lib a0 i0 w (Req_Create p name fi)"
    and "ready wview wroom lib ops a0 i0 w (Req_Mknod p name) \<Longrightarrow> implements lib a0 i0 w (Req_Mknod p name)"
    and "ready wview wroom lib ops a0 i0 w (Req_Mkdir p name) \<Longrightarrow> implements lib a0 i0 w (Req_Mkdir p name)"
    and "ready wview wroom lib ops a0 i0 w (Req_Symlink link p name) \<Longrightarrow> implements lib a0 i0 w (Req_Symlink link p name)"
proof -
  assume "ready wview wroom lib ops a0 i0 w (Req_Create p name fi)"
  then have can: "can_link wview wroom ops w p name T_FILE i0" by simp
  obtain es i st w' where r: "fuseserver_createhelper ops a0 w p name i0 T_FILE = (0, Some (new_entry i st), w')"
    "wview w p = Some (T_DIR, dir_text es)" "wview w i = None" "stat_of i T_FILE [] st" "winv w'"
    "wview w' = linked (wview w) p es (c_string name) i T_FILE []"
    by (rule create_implements [OF inv can, of a0]) simp_all
  show "implements lib a0 i0 w (Req_Create p name fi)"
    using r(5) spec_create [where m = "wview w", OF r(2-4), of lib name fi]
    unfolding fuseserver_oper.simps fuseserver_create_def create_reply_def r(1) by (simp add: r(6))
next
  assume "ready wview wroom lib ops a0 i0 w (Req_Mknod p name)"
  then have can: "can_link wview wroom ops w p name T_FILE i0" by simp
  obtain es i st w' where r: "fuseserver_createhelper ops a0 w p name i0 T_FILE = (0, Some (new_entry i st), w')"
    "wview w p = Some (T_DIR, dir_text es)" "wview w i = None" "stat_of i T_FILE [] st" "winv w'"
    "wview w' = linked (wview w) p es (c_string name) i T_FILE []"
    by (rule create_implements [OF inv can, of a0]) simp_all
  show "implements lib a0 i0 w (Req_Mknod p name)"
    using r(5) spec_mknod [where m = "wview w", OF r(2-4), of lib name]
    unfolding fuseserver_oper.simps fuseserver_mknod_def create_reply_def r(1) by (simp add: r(6))
next
  assume "ready wview wroom lib ops a0 i0 w (Req_Mkdir p name)"
  then have can: "can_link wview wroom ops w p name T_DIR i0" by simp
  obtain es i st w' where r: "fuseserver_createhelper ops a0 w p name i0 T_DIR = (0, Some (new_entry i st), w')"
    "wview w p = Some (T_DIR, dir_text es)" "wview w i = None" "stat_of i T_DIR [] st" "winv w'"
    "wview w' = linked (wview w) p es (c_string name) i T_DIR []"
    by (rule create_implements [OF inv can, of a0]) simp_all
  show "implements lib a0 i0 w (Req_Mkdir p name)"
    using r(5) spec_mkdir [where m = "wview w", OF r(2-4), of lib name]
    unfolding fuseserver_oper.simps fuseserver_mkdir_def create_reply_def r(1) by (simp add: r(6))
next
  assume q: "ready wview wroom lib ops a0 i0 w (Req_Symlink link p name)"
  then obtain es where es: "wview w p = Some (T_DIR, dir_text es)" "\<And>i. wroom w p (dir_text (es @ [(c_string name, i)]))"
    and made: "fst (op_create ops (op_acquire ops w p) T_SYMLK i0) = 0" by (auto simp: can_link_def)
  have room2: "\<And>i w1. addfile ops w p (c_string name) i0 T_SYMLK = (0, i, w1) \<Longrightarrow> wroom w1 i (c_string link)"
    using q by simp
  obtain i st w' where r: "fuseserver_symlink ops a0 w link p name i0 = (Reply_Entry (new_entry i st), w')" "wview w i = None"
    "stat_of i T_SYMLK (c_string link) st" "winv w'"
    "wview w' = linked (wview w) p es (c_string name) i T_SYMLK (c_string link)"
    using symlink_handler [OF inv es(1) made es(2) room2, of a0] unfolding linked_def by blast
  show "implements lib a0 i0 w (Req_Symlink link p name)"
    using r(1,4) spec_symlink [where m = "wview w", OF es(1) r(2,3), of lib name] by (simp add: r(5))
qed

lemma unlink_implements:
  assumes inv: "winv w" and q: "ready wview wroom lib ops a0 i0 w (Req_Unlink p name)"
  shows "implements lib a0 i0 w (Req_Unlink p name)"
proof -
  consider es where "wview w p = Some (T_DIR, dir_text es)" "named es" "c_string name \<notin> fst ` set es" "wroom w p (dir_text es)"
    | es1 i es2 where "wview w p = Some (T_DIR, dir_text (es1 @ (c_string name, i) # es2))"
      "named (es1 @ (c_string name, i) # es2)" "c_string name \<notin> fst ` set (es1 @ es2)" "wview w i \<noteq> None" "i \<noteq> p"
      "wroom w p (dir_text (es1 @ es2))"
    using q unfolding ready.simps dir_at_def by blast
  then show ?thesis
  proof cases
    case (1 es)
    then show ?thesis
      using unlink_handler_missing [OF 1(2) [unfolded named_def] inv 1(1,3,4)] spec_no_name [where m = "wview w", OF 1(1-3), of lib] by auto
  next
    case (2 es1 i es2)
    obtain w' where r: "fuseserver_unlink ops w p name = Inr (Reply_Err 0, w')" "winv w'"
      "wview w' = (wview w)(i := None, p \<mapsto> (T_DIR, dir_text (es1 @ es2)))"
      using unlink_handler [OF 2(2) [unfolded named_def] inv 2(1) refl 2(3-6)] by blast
    show ?thesis using r(1,2) spec_unlink [where m = "wview w", OF 2(1-3), of lib] by (simp add: r(3))
  qed
qed

lemma request_implements:
  assumes "winv w" and "ready wview wroom lib ops a0 i0 w q"
  shows "implements lib a0 i0 w q"
  using assms(2)
  by (cases q) (simp_all only: read_implements [OF assms(1)] update_implements [OF assms(1)] find_implements [OF assms(1)]
      link_implements [OF assms(1)] unlink_implements [OF assms(1)])

lemma run_implements:
  assumes "winv w" and "ready_run wview wroom lib ops a0 i0 w qs"
  shows "\<exists>rs w'. serve_all lib ops a0 i0 w qs = Inr (rs, w') \<and> spec_run lib (wview w) qs rs (wview w') \<and> winv w'"
  using assms
proof (induction qs arbitrary: w)
  case (Cons q qs)
  obtain r w1 where r: "fuseserver_oper lib ops a0 i0 w q = Inr (r, w1)" "fs_spec lib (wview w) q r (wview w1)" "winv w1"
    using request_implements [OF Cons.prems(1), of lib a0 i0 q] Cons.prems(2) by auto
  then obtain rs w2 where "serve_all lib ops a0 i0 w1 qs = Inr (rs, w2)" "spec_run lib (wview w1) qs rs (wview w2)" "winv w2"
    using Cons.IH [OF r(3)] Cons.prems(2) by auto
  then show ?case using r by auto
qed simp

end

end
