(* ===== verification/Yfs_System.thy ===== *)
theory Yfs_System
  imports Fuse_Dispatch Extent_Room
begin

text \<open>
  The file system client on its caching extent client: the state is the cache table and the
  state behind the RPC stubs. The lock client is seen from the cache: taking a lock leaves the
  cache alone; releasing one flushes the extent when the server has revoked the lock, as \<open>release\<close> of
  \<open>Lock_Client_Cache\<close> does through \<^verbatim>\<open>lock_user::dorelease\<close>. \<open>revoked\<close> and \<open>junk\<close>, the memory of a new entry, may
  differ from operation to operation. The flush by the revoke handler of a lock that is free in the client is
  put at the release before it, so here no flush comes between a release and the next
  operation; \<open>Cluster\<close> and \<open>File_Cluster\<close> have it where the lock client makes it.
\<close>

section \<open>The operations of the caching client\<close>

record 's world =
  w_tbl :: cache_table
  w_srv :: 's
  w_ticks :: nat

definition dorelease :: "'s extent_rpc \<Rightarrow> 's world \<Rightarrow> extentid \<Rightarrow> int \<times> 's world" where
  "dorelease rpc w e = (let (ret, tbl, s) = cc_flush rpc (w_tbl w) (w_srv w) e in (ret, w\<lparr>w_tbl := tbl, w_srv := s\<rparr>))"

definition cached_ops :: "'s extent_rpc \<Rightarrow> (nat \<Rightarrow> attr) \<Rightarrow> clock \<Rightarrow> (nat \<Rightarrow> extentid \<Rightarrow> bool) \<Rightarrow> 's world client_ops" where
  "cached_ops rpc junk time_at revoked =
     (let clk = (\<lambda>w k. time_at (w_ticks w + k));
          world = (\<lambda>w tbl s. \<lparr>w_tbl = tbl, w_srv = s, w_ticks = w_ticks w + 2\<rparr>)
      in \<lparr>op_create = (\<lambda>w ty e. let (ret, e', tbl, s) = cc_create rpc (junk (w_ticks w)) (clk w) (w_tbl w) (w_srv w) ty e in (ret, e', world w tbl s)),
          op_get = (\<lambda>w e buf. let (ret, buf', tbl, s) = cc_get rpc (junk (w_ticks w)) (clk w) (w_tbl w) (w_srv w) e buf in (ret, buf', world w tbl s)),
          op_getattr = (\<lambda>w e a. let (ret, a', tbl, s) = cc_getattr rpc (w_tbl w) (w_srv w) e a in (ret, a', world w tbl s)),
          op_put = (\<lambda>w e buf. let (ret, tbl) = cc_put (junk (w_ticks w)) (clk w) (w_tbl w) e buf in (ret, world w tbl (w_srv w))),
          op_remove = (\<lambda>w e. let (ret, tbl) = cc_remove (junk (w_ticks w)) (w_tbl w) e in (ret, world w tbl (w_srv w))),
          op_flush = dorelease rpc,
          op_acquire = (\<lambda>w l. w),
          op_release = (\<lambda>w l. if revoked (w_ticks w) l then snd (dorelease rpc w l) else w)\<rparr>)"

lemmas cached_ops_simps = cached_ops_def Let_def

definition world_inv :: "('s \<Rightarrow> bool) \<Rightarrow> ('s \<Rightarrow> extentid \<rightharpoonup> (u32 \<times> bytes)) \<Rightarrow> 's world \<Rightarrow> bool" where
  "world_inv good view w \<longleftrightarrow> good (w_srv w) \<and> cache_ok view (w_tbl w) (w_srv w)"

definition world_view :: "('s \<Rightarrow> extentid \<rightharpoonup> (u32 \<times> bytes)) \<Rightarrow> 's world \<Rightarrow> extentid \<rightharpoonup> (u32 \<times> bytes)" where
  "world_view view w = cview view (w_tbl w) (w_srv w)"

definition world_warm :: "'s world \<Rightarrow> extentid \<Rightarrow> bool" where
  "world_warm w e \<longleftrightarrow> w_tbl w e \<noteq> None"

definition world_room :: "('s \<Rightarrow> extentid \<Rightarrow> bytes \<Rightarrow> bool) \<Rightarrow> 's world \<Rightarrow> extentid \<Rightarrow> bytes \<Rightarrow> bool" where
  "world_room room w e b \<longleftrightarrow> room (w_srv w) e b"

lemmas world_defs = world_inv_def world_view_def world_warm_def world_room_def

text \<open>No operation but a flush loses an entry of the table.\<close>

lemma cc_get_warm: "cc_get rpc junk clk tbl s e buf = (ret, b, tbl', s') \<Longrightarrow> tbl x \<noteq> None \<Longrightarrow> tbl' x \<noteq> None"
  by (auto simp: cc_get_def Let_def split: option.splits cache_state.splits prod.splits if_splits)

lemma cc_getattr_warm: "cc_getattr rpc tbl s e a = (ret, b, tbl', s') \<Longrightarrow> tbl x \<noteq> None \<Longrightarrow> tbl' x \<noteq> None"
  by (auto simp: cc_getattr_def Let_def split: option.splits prod.splits if_splits)

lemma cc_put_warm: "cc_put junk clk tbl e buf = (ret, tbl') \<Longrightarrow> tbl x \<noteq> None \<Longrightarrow> tbl' x \<noteq> None"
  by (auto simp: cc_put_def split: if_splits)

lemma cc_remove_warm: "cc_remove junk tbl e = (ret, tbl') \<Longrightarrow> tbl x \<noteq> None \<Longrightarrow> tbl' x \<noteq> None"
  by (auto simp: cc_remove_def split: if_splits)

context roomy_service
begin

lemma cc_get_room:
  assumes inv: "inv s" and v: "view s e \<noteq> None" and run: "cc_get rpc junk clk tbl s e buf = (ret, b, tbl', s')"
    and room: "room s x y"
  shows "room s' x y"
proof -
  obtain ty d where vd: "view s e = Some (ty, d)" using v by auto
  obtain s1 where s1: "rpc_get rpc s e = (0, Some d, s1)" "inv s1" "view s1 = view s" using get_law [OF inv vd] by blast
  obtain ra s2 ret2 where s2: "rpc_getattr rpc s1 e = (ret2, ra, s2)" by (cases "rpc_getattr rpc s1 e")
  have r1: "room s1 x y" by (rule room_get [OF inv v s1(1) room])
  have v1: "view s1 e \<noteq> None" unfolding s1(3) by (rule v)
  have r2: "room s2 x y" by (rule room_getattr [OF s1(2) v1 s2 r1])
  have "s' \<in> {s, s1, s2}"
    using run s1(1) s2 by (auto simp: cc_get_def Let_def split: option.splits cache_state.splits if_splits)
  then show ?thesis using room r1 r2 by blast
qed

lemma cc_getattr_room:
  assumes inv: "inv s" and v: "view s e \<noteq> None" and run: "cc_getattr rpc tbl s e a0 = (ret, a, tbl', s')"
    and room: "room s x y"
  shows "room s' x y"
proof -
  obtain ra s1 ret1 where s1: "rpc_getattr rpc s e = (ret1, ra, s1)" by (cases "rpc_getattr rpc s e")
  have r1: "room s1 x y" by (rule room_getattr [OF inv v s1 room])
  have "s' \<in> {s, s1}" using run s1 by (auto simp: cc_getattr_def Let_def split: option.splits if_splits)
  then show ?thesis using room r1 by blast
qed

lemma dorelease_spec:
  assumes inv: "world_inv inv view w" and v: "world_view view w e = Some (ty, d)" and room: "world_room room w e d"
  shows "\<exists>r w'. dorelease rpc w e = (r, w') \<and> world_inv inv view w' \<and> world_view view w' = world_view view w
    \<and> world_room room w' e d \<and> (\<forall>x. x \<noteq> e \<longrightarrow> world_warm w x \<longrightarrow> world_warm w' x)"
proof -
  let ?tbl = "w_tbl w" and ?s = "w_srv w"
  have i: "inv ?s" "agrees ?tbl ?s" and sv: "seen ?tbl ?s e = Some (ty, d)" and rm: "room ?s e d"
    using inv v room by (simp_all add: world_defs)
  obtain ret tbl' s' where f: "cc_flush rpc ?tbl ?s e = (ret, tbl', s')" by (cases "cc_flush rpc ?tbl ?s e")
  obtain d0 where d0: "view ?s e = Some (ty, d0)"
    "\<forall>x. ?tbl e = Some x \<longrightarrow> x_state x \<noteq> REMOVED \<and> d = (if x_state x = MODIFIED then x_data x else d0)"
    by (rule cview_SomeE [OF sv])
  obtain s1 where s1: "rpc_put rpc ?s e d = (0, s1)" "inv s1" "view s1 = (view ?s)(e \<mapsto> (ty, d))" "room s1 e d"
    using room_put [OF i(1) d0(1) rm] by blast
  show ?thesis
  proof (cases "\<exists>x. ?tbl e = Some x \<and> x_state x = MODIFIED")
    case True
    then have e: "ret = 0" "tbl' = ?tbl(e := None)" "s' = s1"
      using f s1(1) d0(2) by (auto simp: cc_flush_def)
    have "agrees tbl' s'" using i(2) by (auto simp: e cache_ok_def s1(3))
    moreover have "seen tbl' s' = seen ?tbl ?s"
      using sv by (auto simp: fun_eq_iff e cview_def s1(3) split: option.splits cache_state.splits)
    ultimately show ?thesis
      using f s1 e by (auto simp: dorelease_def world_defs)
  next
    case False
    then have e: "s' = ?s" "tbl' = ?tbl(e := None)"
      using f d0(2) by (auto simp: cc_flush_def fun_upd_idem split: option.splits cache_state.splits)
    have "agrees tbl' s'" using i(2) by (auto simp: e cache_ok_def)
    moreover have "seen tbl' s' = seen ?tbl ?s"
      using False d0(2) by (auto simp: fun_eq_iff e cview_def split: option.splits cache_state.splits)
    ultimately show ?thesis
      using f i rm e by (auto simp: dorelease_def world_defs)
  qed
qed

end

section \<open>The contract holds\<close>

sublocale roomy_service \<subseteq> files: yfs_store "cached_ops rpc junk time_at revoked"
    "world_inv inv view" "world_view view" world_warm "world_room room"
  for junk :: "nat \<Rightarrow> attr" and time_at :: clock and revoked :: "nat \<Rightarrow> extentid \<Rightarrow> bool"
proof
  fix w w' :: "'a world" and e i ty d buf a0 t i0 l
  let ?ops = "cached_ops rpc junk time_at revoked"
    and ?kept = "op_keeps (world_inv inv view) (world_view view) world_warm (world_room room)"
  assume "world_inv inv view w"
  then have inv: "inv (w_srv w)" "agrees (w_tbl w) (w_srv w)" by (simp_all add: world_defs)
  show "?kept w (world_view view w) (op_acquire ?ops w l)"
    using inv by (simp add: op_keeps_def world_defs cached_ops_simps)
  show "world_view view w i = None \<and> ?kept w ((world_view view w)(i \<mapsto> (t, []))) w' \<and> world_warm w' i"
    if t: "t \<in> {T_DIR, T_FILE, T_SYMLK}" and run: "op_create ?ops w t i0 = (0, i, w')"
  proof -
    let ?clk = "\<lambda>k. time_at (w_ticks w + k)"
    obtain tbl s where c: "cc_create rpc (junk (w_ticks w)) ?clk (w_tbl w) (w_srv w) t i0 = (0, i, tbl, s)"
      and w': "w' = \<lparr>w_tbl = tbl, w_srv = s, w_ticks = w_ticks w + 2\<rparr>"
      using run by (auto simp: cached_ops_simps split: prod.splits)
    obtain r where r: "rpc_create rpc (w_srv w) t = (0, r, s)" and tbl: "\<forall>x. w_tbl w x \<noteq> None \<longrightarrow> tbl x \<noteq> None"
      using c by (auto simp: cc_create_def Let_def split: prod.splits)
    show ?thesis
      using cache_create [OF inv t c] tbl room_create [OF inv(1) t r] w'
      by (auto simp: op_keeps_def world_defs)
  qed
  assume v: "world_view view w e = Some (ty, d)"
  then have sv: "seen (w_tbl w) (w_srv w) e = Some (ty, d)" by (simp add: world_view_def)
  have vs: "view (w_srv w) e \<noteq> None" by (rule cview_SomeE [OF sv]) simp
  show "\<exists>w'. op_get ?ops w e buf = (0, d, w') \<and> ?kept w (world_view view w) w' \<and> world_warm w' e"
  proof -
    let ?clk = "\<lambda>k. time_at (w_ticks w + k)"
    obtain tbl s where g: "cc_get rpc (junk (w_ticks w)) ?clk (w_tbl w) (w_srv w) e buf = (0, d, tbl, s)" "inv s"
      "agrees tbl s" "seen tbl s = seen (w_tbl w) (w_srv w)" "tbl e \<noteq> None"
      using cache_get [OF inv sv] by blast
    have "op_get ?ops w e buf = (0, d, \<lparr>w_tbl = tbl, w_srv = s, w_ticks = w_ticks w + 2\<rparr>)"
      by (simp add: cached_ops_simps g(1))
    then show ?thesis
      using g cc_get_warm [OF g(1)] cc_get_room [OF inv(1) vs g(1)] by (auto simp: op_keeps_def world_defs)
  qed
  show "\<exists>a w'. op_getattr ?ops w e a0 = (0, a, w') \<and> a_type a = ty \<and> a_size a = word_of_nat (length d)
      \<and> ?kept w (world_view view w) w' \<and> world_warm w' e"
  proof -
    obtain a tbl s where g: "cc_getattr rpc (w_tbl w) (w_srv w) e a0 = (0, a, tbl, s)" "a_type a = ty"
      "a_size a = word_of_nat (length d)" "inv s" "agrees tbl s" "seen tbl s = seen (w_tbl w) (w_srv w)" "tbl e \<noteq> None"
      using cache_getattr [OF inv sv] by blast
    have "op_getattr ?ops w e a0 = (0, a, \<lparr>w_tbl = tbl, w_srv = s, w_ticks = w_ticks w + 2\<rparr>)"
      by (simp add: cached_ops_simps g(1))
    then show ?thesis
      using g cc_getattr_warm [OF g(1)] cc_getattr_room [OF inv(1) vs g(1)] by (auto simp: op_keeps_def world_defs)
  qed
  show "\<exists>w'. op_remove ?ops w e = (0, w') \<and> ?kept w ((world_view view w)(e := None)) w' \<and> world_warm w' e"
  proof -
    obtain tbl where g: "cc_remove (junk (w_ticks w)) (w_tbl w) e = (0, tbl)" "agrees tbl (w_srv w)"
      "seen tbl (w_srv w) = (seen (w_tbl w) (w_srv w))(e := None)" "tbl e \<noteq> None"
      using cache_remove [OF inv(2) sv] by blast
    have "op_remove ?ops w e = (0, \<lparr>w_tbl = tbl, w_srv = w_srv w, w_ticks = w_ticks w + 2\<rparr>)"
      by (simp add: cached_ops_simps g(1))
    then show ?thesis using g inv cc_remove_warm [OF g(1)] by (auto simp: op_keeps_def world_defs)
  qed
  show "\<exists>w'. op_put ?ops w e buf = (0, w') \<and> ?kept w ((world_view view w)(e \<mapsto> (ty, buf))) w'" if "world_warm w e"
  proof -
    let ?clk = "\<lambda>k. time_at (w_ticks w + k)"
    have typed: "w_tbl w e = None \<longrightarrow> a_type (junk (w_ticks w)) = ty" using that by (auto simp: world_warm_def)
    obtain tbl where g: "cc_put (junk (w_ticks w)) ?clk (w_tbl w) e buf = (0, tbl)" "agrees tbl (w_srv w)"
      "seen tbl (w_srv w) = (seen (w_tbl w) (w_srv w))(e \<mapsto> (ty, buf))"
      using cache_put [OF inv(2) sv typed] by blast
    have "op_put ?ops w e buf = (0, \<lparr>w_tbl = tbl, w_srv = w_srv w, w_ticks = w_ticks w + 2\<rparr>)"
      by (simp add: cached_ops_simps g(1))
    then show ?thesis using g inv cc_put_warm [OF g(1)] by (auto simp: op_keeps_def world_defs)
  qed
next
  fix w :: "'a world" and e ty d
  let ?ops = "cached_ops rpc junk time_at revoked"
  assume h: "world_inv inv view w" "world_view view w e = Some (ty, d)" "world_room room w e d"
  note dorelease_spec [OF h]
  then show "\<exists>r w'. op_flush ?ops w e = (r, w') \<and> world_inv inv view w' \<and> world_view view w' = world_view view w
      \<and> world_room room w' e d" by (auto simp: cached_ops_simps)
  show "world_inv inv view (op_release ?ops w e) \<and> world_view view (op_release ?ops w e) = world_view view w
      \<and> world_room room (op_release ?ops w e) e d
      \<and> (\<forall>x. x \<noteq> e \<longrightarrow> world_warm w x \<longrightarrow> world_warm (op_release ?ops w e) x)"
    using dorelease_spec [OF h] h by (auto simp: cached_ops_simps)
next
  fix w :: "'a world" and e
  assume inv: "world_inv inv view w" and v: "world_view view w e \<noteq> None"
  obtain ty d where "seen (w_tbl w) (w_srv w) e = Some (ty, d)" using v by (auto simp: world_view_def)
  then have "view (w_srv w) e \<noteq> None" by (rule cview_SomeE) simp
  then show "world_room room w e []" using inv room_empty by (simp add: world_defs)
qed

end
