(* ===== verification/Yfs_Properties.thy ===== *)
theory Yfs_Properties
  imports Yfs_System Cache_Properties
begin

text \<open>
  The properties of the file system client on its caching extent client in front of the extent
  server, each with a concrete instance of its hypotheses: a client with an empty cache and a
  server with a freshly formatted disk, and the states it reaches from there.
\<close>

section \<open>The mounted file system\<close>

text \<open>
  \<open>mount\<close> gives the operations the client calls; \<open>files\<close> is the map from inode numbers to types
  and contents that it sees, \<open>fs_inv\<close> the invariant, \<open>fs_room\<close> the condition under which
  the server takes a contents.
\<close>

definition mount :: "clock \<Rightarrow> nat \<Rightarrow> (server \<Rightarrow> extentid \<Rightarrow> int \<times> server) \<Rightarrow> (nat \<Rightarrow> attr) \<Rightarrow> (nat \<Rightarrow> extentid \<Rightarrow> bool) \<Rightarrow> server world client_ops" where
  "mount time_at lost bare junk revoked = cached_ops (direct_rpc time_at lost bare) junk time_at revoked"

abbreviation "fs_inv \<equiv> world_inv server_inv server_view"
abbreviation "files \<equiv> world_view server_view"
abbreviation "fs_room \<equiv> world_room server_room"

lemmas mount_unfold = mount_def

interpretation mounted: yfs_store "mount time_at lost bare junk revoked" fs_inv files world_warm fs_room
  for time_at :: clock and lost :: nat and bare :: "server \<Rightarrow> extentid \<Rightarrow> int \<times> server" and junk :: "nat \<Rightarrow> attr" and revoked :: "nat \<Rightarrow> extentid \<Rightarrow> bool"
  unfolding mount_unfold by (rule direct_roomy.files.yfs_store_axioms)

lemma fs_room_length: "fs_room w i d \<Longrightarrow> length d \<le> 51200"
  by (simp add: world_room_def server_room_def)

definition example_world :: "server world" where
  "example_world = \<lparr>w_tbl = Map.empty, w_srv = example_server, w_ticks = 0\<rparr>"

definition example_mount :: "server world client_ops" where
  "example_mount = mount example_clock 0 example_bare (\<lambda>_. zero_attr) (\<lambda>_ _. True)"

lemma example_written:
  "written_at (unat (3 :: u64)) (take (unat (2 :: u64)) [104, 105]) (dir_text []) = [0, 0, 0, 104, 105]"
  "take (unat (2 :: u64)) [104, 105] = [104, 105]" "sized (unat (3 :: u64)) (dir_text []) = [0, 0, 0]"
  "written_at 3 [104, 105] [] = [0, 0, 0, 104, 105]" "sized 3 [] = [0, 0, 0]"
  by (simp_all add: written_at_def sized_def, simp_all add: numeral_eq_Suc)

lemma example_world:
  shows "fs_inv example_world" and "files example_world 1 = Some (T_DIR, dir_text [])"
    and "length d \<le> 512 \<Longrightarrow> fs_room example_world 1 d"
  using example_server example_room empty_cache_ok
  by (simp_all add: world_defs example_world_def cview_def)

section \<open>Files\<close>

text \<open>Writing a file. A \<open>write\<close> inside the size limits returns \<open>OK\<close> and the number of bytes, and
  changes one file only: its bytes from the offset on are the data, everything before and after
  is as it was, and a gap between the old end and the offset is filled with zeros.\<close>

theorem write_correct:
  assumes "fs_inv w" and "files w i = Some (ty, d)" and "unat sz \<le> length data"
    and "unat off + unat sz < 2 ^ 64" and "length d < 2 ^ 64"
    and "fs_room w i (written_at (unat off) (take (unat sz) data) d)"
  shows "\<exists>w'. yfs_write (mount time_at lost bare junk revoked) w i sz off data = Inr (0, sz, w') \<and> fs_inv w'
    \<and> files w' = (files w)(i \<mapsto> (ty, written_at (unat off) (take (unat sz) data) d))"
  using mounted.write_call [OF assms(1,2,5,3,4,6), of time_at lost bare junk revoked] by blast

theorem write_correct_witness:
  "\<exists>w'. yfs_write example_mount example_world 1 2 3 [104, 105] = Inr (0, 2, w')
    \<and> files w' 1 = Some (T_DIR, [0, 0, 0, 104, 105])"
  using write_correct [OF example_world(1,2), of 2 "[104, 105]" 3 example_clock 0 example_bare "\<lambda>_. zero_attr" "\<lambda>_ _. True"]
      example_world(3) [of "[0, 0, 0, 104, 105]"] unfolding example_written example_mount_def by (auto simp: example_written)

text \<open>Reading a file returns the bytes of the file from the offset on, at most as many as asked
  for and none past the end, even when offset and size add up past 64 bits, and changes no file.\<close>

theorem read_correct:
  assumes "fs_inv w" and "files w i = Some (ty, d)" and "fs_room w i d"
  shows "\<exists>w'. yfs_read (mount time_at lost bare junk revoked) w i sz off data0 =
      (0, take (unat sz) (drop (unat off) d), w') \<and> fs_inv w' \<and> files w' = files w"
proof -
  have d: "length d < 2 ^ 64" using fs_room_length [OF assms(3)] by simp
  show ?thesis
    using mounted.read_call [OF assms(1,2) d assms(3), of time_at lost bare junk revoked] by blast
qed

theorem read_correct_witness:
  "\<exists>w'. yfs_read example_mount example_world 1 (- 1) 1 [9] = (0, [], w') \<and> files w' = files example_world"
  using read_correct [OF example_world(1,2) example_world(3), of example_clock 0 example_bare "\<lambda>_. zero_attr" "\<lambda>_ _. True" "- 1" 1 "[9]"]
  unfolding example_mount_def by auto

text \<open>What was written is read back: a \<open>read\<close> of the same range after a \<open>write\<close> returns the
  data written.\<close>

theorem read_after_write:
  assumes "fs_inv w" and "files w i = Some (ty, d)" and "unat sz \<le> length data"
    and "unat off + unat sz < 2 ^ 64" and "length d < 2 ^ 64"
    and "fs_room w i (written_at (unat off) (take (unat sz) data) d)"
  shows "\<exists>w' w''. yfs_write (mount time_at lost bare junk revoked) w i sz off data = Inr (0, sz, w')
    \<and> yfs_read (mount time_at lost bare junk revoked) w' i sz off data0 = (0, take (unat sz) data, w'')"
proof -
  let ?new = "written_at (unat off) (take (unat sz) data) d"
  obtain w' where w: "yfs_write (mount time_at lost bare junk revoked) w i sz off data = Inr (0, sz, w')" "fs_inv w'"
    "fs_room w' i ?new" "files w' = (files w)(i \<mapsto> (ty, ?new))"
    using mounted.write_call [OF assms(1,2,5,3,4,6), of time_at lost bare junk revoked] by blast
  have v: "files w' i = Some (ty, ?new)" by (simp add: w(4))
  have len: "length ?new < 2 ^ 64" using fs_room_length [OF w(3)] by simp
  have same: "take (unat sz) (drop (unat off) ?new) = take (unat sz) data"
    using written_at_read [of "take (unat sz) data" "unat off" d] assms(3) by (simp add: min_absorb2)
  show ?thesis
    using w(1) mounted.read_call [OF w(2) v len w(3), of time_at lost bare junk revoked sz off data0]
    unfolding same by blast
qed

theorem read_after_write_witness:
  "\<exists>w' w''. yfs_write example_mount example_world 1 2 3 [104, 105] = Inr (0, 2, w')
    \<and> yfs_read example_mount w' 1 2 3 [] = (0, [104, 105], w'')"
  using read_after_write [OF example_world(1,2), of 2 "[104, 105]" 3 example_clock 0 example_bare "\<lambda>_. zero_attr" "\<lambda>_ _. True" "[]"]
      example_world(3) [of "[0, 0, 0, 104, 105]"] unfolding example_written example_mount_def by (auto simp: example_written)

text \<open>\<open>setattr\<close> cuts a file to the size asked for, or extends it with zero bytes, and changes no
  other file.\<close>

theorem setattr_correct:
  assumes "fs_inv w" and "files w i = Some (ty, d)" and "length d < 2 ^ 32" and "fs_room w i (sized (unat sz) d)"
  shows "\<exists>w'. setattr (mount time_at lost bare junk revoked) a0 w i sz = (0, w') \<and> fs_inv w'
    \<and> files w' = (files w)(i \<mapsto> (ty, sized (unat sz) d))"
  using mounted.setattr_call [OF assms, of time_at lost bare junk revoked a0] by blast

theorem setattr_correct_witness:
  "\<exists>w'. setattr example_mount zero_attr example_world 1 3 = (0, w') \<and> files w' 1 = Some (T_DIR, [0, 0, 0])"
  using setattr_correct [OF example_world(1,2), of 3 example_clock 0 example_bare "\<lambda>_. zero_attr" "\<lambda>_ _. True" zero_attr]
      example_world(3) [of "[0, 0, 0]"] unfolding example_written example_mount_def by (auto simp: example_written)

section \<open>Directories\<close>

text \<open>C20: The text of a directory. Parsing what was written for any list of entries with non-empty
  names gives the entries back, in order; an inode number survives being printed and read, a
  name survives encoding and decoding whatever bytes it has, and the encoded name contains no
  white space.\<close>

theorem directory_roundtrip:
  assumes "\<forall>(name, i) \<in> set es. name \<noteq> []"
  shows "map (\<lambda>(f, n). (uncode f, n2i n)) (dir_entries (dir_text es)) = map (\<lambda>(name, i). (name, Inr i)) es
    \<and> (\<forall>(name, i) \<in> set es. \<forall>c \<in> set (encode name). \<not> is_space c)"
  using encode_no_space by (auto simp: dir_entries_text [OF assms] uncode_encode n2i_filename)

theorem directory_roundtrip_witness:
  "map (\<lambda>(f, n). (uncode f, n2i n)) (dir_entries (dir_text [([32, 255], 7), ([0], 1024)])) =
    [([32, 255], Inr 7), ([0], Inr 1024)]"
  using directory_roundtrip [of "[([32, 255], 7), ([0], 1024)]"] by simp

text \<open>C30: The loop that parses a directory ends on every contents, well-formed or not, after at most half
  as many iterations as the contents has characters, rounded up: every iteration advances by two at least.\<close>

theorem dir_loop_bound: "2 * length (dir_entries buf) \<le> length buf + 1"
proof -
  have "2 * length (dir_loop n i ss f k) \<le> n - i + 1" for n i ss f k
  proof (induction n i ss f k rule: dir_loop.induct)
    case (1 n i ss f k)
    obtain f' ss1 k' ss2 where r: "read_word ss f = (f', ss1)" "read_word ss1 k = (k', ss2)" by (metis surj_pair)
    show ?case
    proof (cases "i < n")
      case True
      then have "2 * length (dir_loop n (i + (length f' + length k' + 2)) ss2 f' k') \<le> n - (i + (length f' + length k' + 2)) + 1"
        using "1.IH" [of "(f', ss1)" f' ss1 "(k', ss2)" k' ss2] r by simp
      moreover have "dir_loop n i ss f k = (f', k') # dir_loop n (i + (length f' + length k' + 2)) ss2 f' k'"
        using True r by (subst dir_loop.simps) simp
      ultimately show ?thesis using True by simp presburger
    qed (simp add: dir_loop.simps)
  qed
  from this [of "length buf" 0] show ?thesis by (simp add: dir_entries_def)
qed

text \<open>\<open>lookup\<close> finds the first entry of a directory with the name and returns its inode
  number; a name the directory does not have gives \<open>IOERR\<close> and \<open>found\<close> false. No file changes.\<close>

theorem lookup_correct:
  assumes "\<forall>(name, i) \<in> set es. name \<noteq> []" and "fs_inv w" and "files w p = Some (T_DIR, dir_text es)"
    and "fs_room w p (dir_text es)"
  shows "\<exists>w'. yfs_lookup (mount time_at lost bare junk revoked) a0 w p name fd i0 =
      Inr (case map_of es name of Some i \<Rightarrow> (0, True, i, w') | None \<Rightarrow> (yfs_code YIOERR, False, i0, w'))
    \<and> fs_inv w' \<and> files w' = files w"
  using mounted.find_after [OF assms, of time_at lost bare junk revoked a0 name fd i0]
  unfolding yfs_code.simps by blast

theorem lookup_correct_witness:
  "\<exists>w'. yfs_lookup example_mount zero_attr example_world 1 [97] True 9 = Inr (3, False, 9, w')
    \<and> files w' = files example_world"
  using lookup_correct [of "[]", OF _ example_world(1,2,3), of example_clock 0 example_bare "\<lambda>_. zero_attr" "\<lambda>_ _. True" zero_attr "[97]" True 9]
  unfolding example_mount_def by auto

text \<open>\<open>readdir\<close> appends every entry of a directory to the list, in order, with its name and
  inode number, and changes no file.\<close>

theorem readdir_correct:
  assumes "\<forall>(name, i) \<in> set es. name \<noteq> []" and "fs_inv w" and "files w p = Some (T_DIR, dir_text es)"
    and "fs_room w p (dir_text es)"
  shows "\<exists>w'. yfs_readdir (mount time_at lost bare junk revoked) a0 w p l =
      Inr (0, l @ map (\<lambda>(name, i). \<lparr>de_name = name, de_inum = i\<rparr>) es, w') \<and> fs_inv w' \<and> files w' = files w"
  using mounted.readdir_call [OF assms, of time_at lost bare junk revoked a0 l] by blast

theorem readdir_correct_witness:
  "\<exists>w'. yfs_readdir example_mount zero_attr example_world 1 [] = Inr (0, [], w') \<and> files w' = files example_world"
  using readdir_correct [of "[]", OF _ example_world(1,2,3), of example_clock 0 example_bare "\<lambda>_. zero_attr" "\<lambda>_ _. True" zero_attr "[]"]
  unfolding example_mount_def by auto

text \<open>Making a file, directory or symbolic link. When the server gives an inode, \<open>addfile\<close>
  returns \<open>OK\<close> and its number, which was unused; the new file is empty, the parent has one
  more entry, at its end, and no other file changes.\<close>

theorem addfile_correct:
  assumes "fs_inv w" and "files w p = Some (T_DIR, dir_text es)" and "t \<in> {T_DIR, T_FILE, T_SYMLK}"
    and "fst (op_create (mount time_at lost bare junk revoked) (op_acquire (mount time_at lost bare junk revoked) w p) t i0) = 0"
    and "\<And>i. fs_room w p (dir_text (es @ [(name, i)]))"
  shows "\<exists>i w'. addfile (mount time_at lost bare junk revoked) w p name i0 t = (0, i, w') \<and> files w i = None \<and> fs_inv w'
    \<and> files w' = (files w)(i \<mapsto> (t, []), p \<mapsto> (T_DIR, dir_text (es @ [(name, i)])))"
  using mounted.addfile_call [OF assms(1,2,3) assms(4) assms(5)] by blast

lemma example_creates':
  assumes t: "t \<in> {T_DIR, T_FILE, T_SYMLK}" and w: "w_srv w = example_server"
  shows "fst (op_create (mount time_at lost bare junk revoked) (op_acquire (mount time_at lost bare junk revoked) w 1) t i0) = 0"
proof -
  have "fs_view example_store 2 = None" using example_store(2) by simp
  then have "i_type (inode_at example_store 2) = 0"
    by (auto simp: fs_view_def live_def valid_inum_def split: if_splits)
  then obtain h im' where "alloc_inode example_store t (\<lambda>k. time_at (0 + k)) = Inr (h, im')"
    using alloc_inode_cases [OF example_store(1), of t "\<lambda>k. time_at (0 + k)"] by (auto dest: spec [of _ 2])
  then show ?thesis
    by (simp add: mount_unfold cached_ops_simps cc_create_def direct_rpc_def serve_def w
        example_server_def es_create_def split: prod.splits)
qed

lemma example_creates: "t \<in> {T_DIR, T_FILE, T_SYMLK} \<Longrightarrow>
  fst (op_create (mount time_at lost bare junk revoked) (op_acquire (mount time_at lost bare junk revoked) example_world 1) t i0) = 0"
  by (rule example_creates') (simp_all add: example_world_def)

lemma example_dir_room: "fs_room example_world 1 (dir_text ([] @ [([97], i)]))"
  using length_filename [of i] by (intro example_world(3)) (simp add: dir_record_def)

theorem addfile_correct_witness:
  "\<exists>i w'. addfile example_mount example_world 1 [97] 0 T_FILE = (0, i, w') \<and> files example_world i = None
    \<and> files w' = (files example_world)(i \<mapsto> (T_FILE, []), 1 \<mapsto> (T_DIR, dir_text [([97], i)]))"
  using addfile_correct [OF example_world(1,2) _ example_creates example_dir_room, of T_FILE example_clock 0 example_bare "\<lambda>_. zero_attr" "\<lambda>_ _. True" 0]
  unfolding example_mount_def by auto

lemma addfile_kept:
  assumes "fs_inv w" and "files w p = Some (T_DIR, dir_text es)" and "t \<in> {T_DIR, T_FILE, T_SYMLK}"
    and "fst (op_create (mount time_at lost bare junk revoked) (op_acquire (mount time_at lost bare junk revoked) w p) t i0) = 0"
    and "\<And>i. fs_room w p (dir_text (es @ [(name, i)]))"
  obtains i w' where "addfile (mount time_at lost bare junk revoked) w p name i0 t = (0, i, w')" "files w i = None"
    "fs_inv w'" "fs_room w' p (dir_text (es @ [(name, i)]))" "i \<noteq> p"
    "files w' p = Some (T_DIR, dir_text (es @ [(name, i)]))" "files w' i = Some (t, [])"
proof -
  obtain i w' where a: "addfile (mount time_at lost bare junk revoked) w p name i0 t = (0, i, w')" "files w i = None"
    "fs_inv w'" "fs_room w' p (dir_text (es @ [(name, i)]))"
    "files w' = (files w)(i \<mapsto> (t, []), p \<mapsto> (T_DIR, dir_text (es @ [(name, i)])))"
    using mounted.addfile_call [OF assms(1,2,3) assms(4) assms(5)] by blast
  moreover have "i \<noteq> p" using a(2) assms(2) by auto
  ultimately show thesis using that by (simp del: dir_text_simps)
qed

text \<open>A file that was created is found: after \<open>create\<close> of a name the directory does not have,
  \<open>lookup\<close> of that name returns the new inode number.\<close>

theorem create_then_lookup:
  assumes "\<forall>(n, i) \<in> set es. n \<noteq> []" and "name \<noteq> []" and "name \<notin> fst ` set es"
    and "fs_inv w" and "files w p = Some (T_DIR, dir_text es)"
    and "fst (op_create (mount time_at lost bare junk revoked) (op_acquire (mount time_at lost bare junk revoked) w p) T_FILE i0) = 0"
    and "\<And>i. fs_room w p (dir_text (es @ [(name, i)]))"
  shows "\<exists>i w' w''. yfs_create (mount time_at lost bare junk revoked) w p name i0 = (0, i, w')
    \<and> yfs_lookup (mount time_at lost bare junk revoked) a0 w' p name fd i1 = Inr (0, True, i, w'')"
proof -
  obtain i w' where a: "addfile (mount time_at lost bare junk revoked) w p name i0 T_FILE = (0, i, w')" "fs_inv w'"
    "fs_room w' p (dir_text (es @ [(name, i)]))" "files w' p = Some (T_DIR, dir_text (es @ [(name, i)]))"
    by (rule addfile_kept [OF assms(4,5) _ assms(6,7)]) simp_all
  have es': "\<forall>(n, j) \<in> set (es @ [(name, i)]). n \<noteq> []" using assms(1,2) by auto
  have "map_of (es @ [(name, i)]) name = Some i" using assms(3) by (auto simp: map_add_def map_of_eq_None_iff [symmetric])
  with lookup_correct [OF es' a(2,4,3), of time_at lost bare junk revoked a0 name fd i1] a(1) show ?thesis
    by (auto simp: yfs_create_def)
qed

theorem create_then_lookup_witness:
  "\<exists>i w' w''. yfs_create example_mount example_world 1 [97] 0 = (0, i, w')
    \<and> yfs_lookup example_mount zero_attr w' 1 [97] False 0 = Inr (0, True, i, w'')"
  using create_then_lookup [OF _ _ _ example_world(1,2) example_creates example_dir_room,
      of example_clock 0 example_bare "\<lambda>_. zero_attr" "\<lambda>_ _. True" 0 zero_attr False 0]
  unfolding example_mount_def by auto

text \<open>C35: \<open>create\<close> does not look whether the name exists. Creating a name the directory already
  has succeeds and adds a second entry with a new inode; \<open>lookup\<close> still finds the old one.\<close>

theorem create_duplicates:
  assumes "\<forall>(n, i) \<in> set es. n \<noteq> []" and "map_of es name = Some old"
    and "fs_inv w" and "files w p = Some (T_DIR, dir_text es)"
    and "fst (op_create (mount time_at lost bare junk revoked) (op_acquire (mount time_at lost bare junk revoked) w p) T_FILE i0) = 0"
    and "\<And>i. fs_room w p (dir_text (es @ [(name, i)]))"
  shows "\<exists>i w' w''. yfs_create (mount time_at lost bare junk revoked) w p name i0 = (0, i, w') \<and> files w i = None
    \<and> files w' p = Some (T_DIR, dir_text (es @ [(name, i)]))
    \<and> yfs_lookup (mount time_at lost bare junk revoked) a0 w' p name fd i1 = Inr (0, True, old, w'')"
proof -
  obtain i w' where a: "addfile (mount time_at lost bare junk revoked) w p name i0 T_FILE = (0, i, w')" "fs_inv w'"
    "fs_room w' p (dir_text (es @ [(name, i)]))" "files w' p = Some (T_DIR, dir_text (es @ [(name, i)]))"
    "files w i = None"
    by (rule addfile_kept [OF assms(3,4) _ assms(5,6)]) simp_all
  have "name \<noteq> []" using assms(1) map_of_SomeD [OF assms(2)] by auto
  then have es': "\<forall>(n, j) \<in> set (es @ [(name, i)]). n \<noteq> []" using assms(1) by auto
  have "map_of (es @ [(name, i)]) name = Some old" using assms(2) by (simp add: map_add_def)
  with lookup_correct [OF es' a(2,4,3), of time_at lost bare junk revoked a0 name fd i1] a(1,4,5) show ?thesis
    by (auto simp: yfs_create_def simp del: dir_text_simps)
qed

text \<open>A client whose cache holds a changed root directory with one entry.\<close>

definition example_named :: "server world" where
  "example_named = \<lparr>w_tbl = [1 \<mapsto> \<lparr>x_data = dir_text [([97], 1)], x_state = MODIFIED,
      x_attr = zero_attr\<lparr>a_type := 1, a_size := of_nat (length (dir_text [([97], 1)]))\<rparr>\<rparr>],
    w_srv = example_server, w_ticks = 0\<rparr>"

lemma example_named:
  shows "fs_inv example_named" and "files example_named 1 = Some (T_DIR, dir_text [([97], 1)])"
    and "fs_room example_named 1 (dir_text ([([97], 1)] @ [([97], i)]))"
proof -
  show "fs_inv example_named" "files example_named 1 = Some (T_DIR, dir_text [([97], 1)])"
    using example_server
    by (simp_all add: example_named_def world_defs cache_ok_def cview_def entry_ok_def del: dir_text_simps)
  have "length (dir_text ([([97], 1)] @ [([97], i)])) \<le> 512"
    using length_filename [of i] length_filename [of 1] by (simp add: dir_record_def)
  then show "fs_room example_named 1 (dir_text ([([97], 1)] @ [([97], i)]))"
    unfolding world_room_def example_named_def by (simp only: world.simps example_room)
qed

theorem create_duplicates_witness:
  "\<exists>i w' w''. yfs_create example_mount example_named 1 [97] 0 = (0, i, w') \<and> files example_named i = None
    \<and> files w' 1 = Some (T_DIR, dir_text ([([97], 1)] @ [([97], i)]))
    \<and> yfs_lookup example_mount zero_attr w' 1 [97] False 0 = Inr (0, True, 1, w'')"
proof -
  have made: "fst (op_create (mount example_clock 0 example_bare (\<lambda>_. zero_attr) (\<lambda>_ _. True))
      (op_acquire (mount example_clock 0 example_bare (\<lambda>_. zero_attr) (\<lambda>_ _. True)) example_named 1) T_FILE 0) = 0"
    by (rule example_creates') (simp_all add: example_named_def)
  show ?thesis
    using create_duplicates [OF _ _ example_named(1,2) made example_named(3), of 1 zero_attr False 0]
    unfolding example_mount_def by (auto simp del: dir_text_simps)
qed

text \<open>\<open>unlink\<close> of a name that occurs once returns \<open>OK\<close>, drops the entry, keeps the others in
  order, removes the file it names, and changes nothing else.\<close>

theorem unlink_correct:
  assumes "\<forall>(n, i) \<in> set es. n \<noteq> []" and "fs_inv w" and "files w p = Some (T_DIR, dir_text es)"
    and "es = es1 @ (name, i) # es2" and "name \<notin> fst ` set (es1 @ es2)"
    and "files w i \<noteq> None" and "i \<noteq> p" and "fs_room w p (dir_text (es1 @ es2))"
  shows "\<exists>w'. yfs_unlink (mount time_at lost bare junk revoked) w p name = Inr (0, w') \<and> fs_inv w'
    \<and> files w' = (files w)(i := None, p \<mapsto> (T_DIR, dir_text (es1 @ es2)))"
  using mounted.unlink_call [OF assms, of time_at lost bare junk revoked] by blast

lemma fs_room_less: "fs_room w i b \<Longrightarrow> length b' \<le> length b \<Longrightarrow> fs_room w i b'"
proof -
  assume r: "fs_room w i b" and le: "length b' \<le> length b"
  have "blocks_for (length b') \<le> blocks_for (length b)" using le by (simp add: blocks_for_def div_le_mono)
  then show ?thesis using r le unfolding world_room_def server_room_def by (meson order_trans)
qed

lemma example_named_file:
  obtains i w where "fs_inv w" "fs_room w 1 (dir_text ([] @ []))" "i \<noteq> 1"
    "files w 1 = Some (T_DIR, dir_text ([] @ [([97], i)]))" "files w i = Some (T_FILE, [])"
proof -
  obtain i w where a: "fs_inv w" "fs_room w 1 (dir_text ([] @ [([97], i)]))" "i \<noteq> 1"
    "files w 1 = Some (T_DIR, dir_text ([] @ [([97], i)]))" "files w i = Some (T_FILE, [])"
    by (rule addfile_kept [OF example_world(1,2) _ example_creates example_dir_room,
          of T_FILE example_clock 0 example_bare "\<lambda>_. zero_attr" "\<lambda>_ _. True" 0]) simp_all
  have "fs_room w 1 (dir_text ([] @ []))" by (rule fs_room_less [OF a(2)]) simp
  then show thesis using that a(1,3,4,5) by blast
qed

theorem unlink_correct_witness:
  "\<exists>w i w'. files w i = Some (T_FILE, []) \<and> yfs_unlink example_mount w 1 [97] = Inr (0, w')
    \<and> files w' = (files w)(i := None, 1 \<mapsto> (T_DIR, dir_text []))"
proof -
  obtain i w where a: "fs_inv w" "fs_room w 1 (dir_text ([] @ []))" "i \<noteq> 1"
    "files w 1 = Some (T_DIR, dir_text ([] @ [([97], i)]))" "files w i = Some (T_FILE, [])"
    by (rule example_named_file)
  have "\<exists>w'. yfs_unlink example_mount w 1 [97] = Inr (0, w') \<and> fs_inv w'
      \<and> files w' = (files w)(i := None, 1 \<mapsto> (T_DIR, dir_text ([] @ [])))"
    unfolding example_mount_def
    by (rule unlink_correct [OF _ a(1,4) _ _ _ a(3,2)]) (use a(5) in simp_all)
  then show ?thesis using a(5) by auto
qed

text \<open>C32: An unlinked file stays on the server. \<open>unlink\<close> removes the file in the client's cache only and
  gives back no lock but the parent's: afterwards the client itself no longer has the file,
  while the server still does, and a client that starts then gets its contents.\<close>

theorem unlink_stays_on_server:
  assumes "\<forall>(n, i) \<in> set es. n \<noteq> []" and "fs_inv w" and "files w p = Some (T_DIR, dir_text es)"
    and "es = es1 @ (name, i) # es2" and "name \<notin> fst ` set (es1 @ es2)"
    and "files w i \<noteq> None" and "i \<noteq> p" and "fs_room w p (dir_text (es1 @ es2))"
  shows "\<exists>w' ty d w''. yfs_unlink (mount time_at lost bare junk revoked) w p name = Inr (0, w') \<and> files w' i = None
    \<and> server_view (w_srv w') i = Some (ty, d)
    \<and> op_get (mount time_at' lost bare' junk' revoked') \<lparr>w_tbl = Map.empty, w_srv = w_srv w', w_ticks = 0\<rparr> i [] = (0, d, w'')"
proof -
  obtain w' where u: "yfs_unlink (mount time_at lost bare junk revoked) w p name = Inr (0, w')" "fs_inv w'" "files w' i = None"
    "world_warm w' i"
    using mounted.unlink_call [OF assms, of time_at lost bare junk revoked] assms(7) by fastforce
  obtain ty d where d: "server_view (w_srv w') i = Some (ty, d)"
    using u(2,4) unfolding world_defs cache_ok_def by fastforce
  let ?w = "\<lparr>w_tbl = Map.empty, w_srv = w_srv w', w_ticks = 0\<rparr>"
  have "fs_inv ?w" "files ?w i = Some (ty, d)"
    using u(2) d empty_cache_ok by (simp_all add: world_defs cview_def)
  from mounted.get_law [OF this, of time_at' lost bare' junk' revoked' "[]"] u(1,3) d show ?thesis by blast
qed

theorem unlink_stays_on_server_witness:
  "\<exists>w i w' ty d w''. files w i = Some (T_FILE, []) \<and> yfs_unlink example_mount w 1 [97] = Inr (0, w') \<and> files w' i = None
    \<and> server_view (w_srv w') i = Some (ty, d)
    \<and> op_get example_mount \<lparr>w_tbl = Map.empty, w_srv = w_srv w', w_ticks = 0\<rparr> i [] = (0, d, w'')"
proof -
  obtain i w where a: "fs_inv w" "fs_room w 1 (dir_text ([] @ []))" "i \<noteq> 1"
    "files w 1 = Some (T_DIR, dir_text ([] @ [([97], i)]))" "files w i = Some (T_FILE, [])"
    by (rule example_named_file)
  have "\<exists>w' ty d w''. yfs_unlink example_mount w 1 [97] = Inr (0, w') \<and> files w' i = None
    \<and> server_view (w_srv w') i = Some (ty, d)
    \<and> op_get example_mount \<lparr>w_tbl = Map.empty, w_srv = w_srv w', w_ticks = 0\<rparr> i [] = (0, d, w'')"
    unfolding example_mount_def
    by (rule unlink_stays_on_server [OF _ a(1,4) _ _ _ a(3,2)]) (use a(5) in simp_all)
  then show ?thesis using a(5) by blast
qed

text \<open>\<open>unlink\<close> of a name the directory does not have returns \<open>ENOENT\<close> and changes no file.\<close>

theorem unlink_missing_correct:
  assumes "\<forall>(n, i) \<in> set es. n \<noteq> []" and "fs_inv w" and "files w p = Some (T_DIR, dir_text es)"
    and "name \<notin> fst ` set es" and "fs_room w p (dir_text es)"
  shows "\<exists>w'. yfs_unlink (mount time_at lost bare junk revoked) w p name = Inr (ENOENT, w') \<and> fs_inv w' \<and> files w' = files w"
  using mounted.unlink_missing [OF assms, of time_at lost bare junk revoked] by blast

theorem unlink_missing_correct_witness:
  "\<exists>w'. yfs_unlink example_mount example_world 1 [97] = Inr (2, w') \<and> files w' = files example_world"
  using unlink_missing_correct [of "[]", OF _ example_world(1,2), of "[97]" example_clock 0 example_bare "\<lambda>_. zero_attr" "\<lambda>_ _. True"]
    example_world(3) [of "dir_text []"]
  unfolding example_mount_def ENOENT_def by auto

text \<open>Symbolic links. When the server gives an inode and takes the link's text, \<open>symlink\<close>
  makes a file of type \<open>T_SYMLK\<close> that holds the text and adds it to the directory, and
  \<open>readlink\<close> of the new inode returns the text.\<close>

theorem symlink_readlink:
  assumes "fs_inv w" and "files w p = Some (T_DIR, dir_text es)"
    and "fst (op_create (mount time_at lost bare junk revoked) (op_acquire (mount time_at lost bare junk revoked) w p) T_SYMLK i0) = 0"
    and "\<And>i. fs_room w p (dir_text (es @ [(name, i)]))"
    and "\<And>i w1. addfile (mount time_at lost bare junk revoked) w p name i0 T_SYMLK = (0, i, w1) \<Longrightarrow> fs_room w1 i link"
  shows "\<exists>i w' w''. yfs_symlink (mount time_at lost bare junk revoked) w p link name i0 = (0, i, w') \<and> files w i = None
    \<and> files w' = (files w)(i \<mapsto> (T_SYMLK, link), p \<mapsto> (T_DIR, dir_text (es @ [(name, i)])))
    \<and> yfs_readlink (mount time_at lost bare junk revoked) w' i r0 = (0, link, w'')"
proof -
  let ?ops = "mount time_at lost bare junk revoked"
  obtain i w' where s: "yfs_symlink ?ops w p link name i0 = (0, i, w')" "files w i = None" "fs_inv w'" "fs_room w' i link"
    "files w' = (files w)(i \<mapsto> (T_SYMLK, link), p \<mapsto> (T_DIR, dir_text (es @ [(name, i)])))"
    using mounted.symlink_call [OF assms(1,2) assms(3) assms(4)
        assms(5)] unfolding mount_unfold by blast
  have "i \<noteq> p" using s(2) assms(2) by auto
  then have v: "files w' i = Some (T_SYMLK, link)" by (simp add: s(5) del: dir_text_simps)
  obtain w'' where "yfs_readlink ?ops w' i r0 = (0, link, w'')"
    using mounted.readlink_call [OF s(3) v s(4), of time_at lost bare junk revoked r0] by blast
  then show ?thesis using s(1,2,5) by blast
qed

lemma example_link_room:
  assumes run: "addfile (mount example_clock 0 example_bare (\<lambda>_. zero_attr) (\<lambda>_ _. False)) example_world 1 name 0 T_SYMLK = (0, i, w1)"
    and len: "length link \<le> 512"
  shows "fs_room w1 i link"
proof -
  let ?rpc = example_rpc and ?clk = "\<lambda>k. example_clock (0 + k)"
  obtain ret tbl s1 where c: "cc_create ?rpc zero_attr ?clk Map.empty example_server T_SYMLK 0 = (ret, i, tbl, s1)"
    and rest: "\<exists>ret b tbl'. cc_get ?rpc zero_attr (\<lambda>k. example_clock (2 + k)) tbl s1 1 [] = (ret, b, tbl', w_srv w1)"
    using run by (auto simp: addfile_def mount_def cached_ops_simps example_world_def split: prod.splits)
  obtain r where r: "rpc_create ?rpc example_server T_SYMLK = (ret, r, s1)" "i = out_param r 0"
    using c by (auto simp: cc_create_def Let_def split: prod.splits)
  have "ret = 0"
    using example_creates [of T_SYMLK example_clock 0 example_bare "\<lambda>_. zero_attr" "\<lambda>_ _. False" 0] c
    by (auto simp: mount_def cached_ops_simps example_world_def split: prod.splits)
  with r(1) have "serve example_clock 0 (\<lambda>im clk. es_create im T_SYMLK clk) example_server = (0, r, s1)"
    by (simp add: direct_rpc_def)
  then obtain j im' where im': "r = Some j" "sv_store s1 = Inr im'"
    "es_create example_store T_SYMLK (\<lambda>k. example_clock (0 + k)) = Inr (OK, j, im')"
    by (rule serve_zero) (auto simp: example_server_def)
  have T: "T_SYMLK \<in> {T_DIR, T_FILE, T_SYMLK}" by simp
  note sp = es_create_spec [OF example_store(1) T im'(3)] and fr = es_create_free [OF example_store(1) im'(3)]
  have "blocks_for (length link) \<le> 1" using len by (simp add: blocks_for_def)
  then have "blocks_for (length link) \<le> card (free_blocks im')" using example_free fr by (simp add: free_blocks_def)
  then have room: "server_room s1 i link"
    using im'(1,2) sp(4) len r(2) by (auto simp: server_room_def)
  have inv: "server_inv s1" using im'(2) sp(2) by (simp add: server_inv_def)
  have v: "server_view s1 1 \<noteq> None" using im'(2) sp(4) example_view by simp
  show ?thesis
    using rest direct_roomy.cc_get_room [OF inv v _ room] unfolding world_room_def by blast
qed

theorem symlink_readlink_witness:
  "\<exists>i w' w''. yfs_symlink (mount example_clock 0 example_bare (\<lambda>_. zero_attr) (\<lambda>_ _. False)) example_world 1 [47, 120] [97] 0 = (0, i, w')
    \<and> yfs_readlink (mount example_clock 0 example_bare (\<lambda>_. zero_attr) (\<lambda>_ _. False)) w' i [] = (0, [47, 120], w'')"
proof -
  let ?ops = "mount example_clock 0 example_bare (\<lambda>_. zero_attr) (\<lambda>_ _. False)"
  have "\<exists>i w' w''. yfs_symlink ?ops example_world 1 [47, 120] [97] 0 = (0, i, w') \<and> files example_world i = None
    \<and> files w' = (files example_world)(i \<mapsto> (T_SYMLK, [47, 120]), 1 \<mapsto> (T_DIR, dir_text ([] @ [([97], i)])))
    \<and> yfs_readlink ?ops w' i [] = (0, [47, 120], w'')"
    by (rule symlink_readlink [OF example_world(1,2) example_creates example_dir_room example_link_room]) simp_all
  then show ?thesis by blast
qed

section \<open>Where the file system client breaks its promises\<close>

text \<open>An entry with an empty name spoils the directory: the loop that parses it takes the inode
  number for the name and the next name for the inode number.\<close>

theorem empty_name_misparsed:
  "fst (hd (dir_entries (dir_text (([], k) # es)))) = filename k
    \<and> fst (hd (dir_entries (dir_text (([], k) # es)))) \<noteq> encode []"
proof -
  let ?t = "dir_text (([], k) # es)"
  have t: "?t = SP # filename k @ SP # dir_text es" by (simp add: dir_record_def encode_def)
  have w: "read_word (?t, True) [] = (filename k, SP # dir_text es, True)"
    unfolding t by (rule read_word_text(2) [OF filename_not_Nil filename_no_space])
  have "0 < length ?t" unfolding t by simp
  then have n: "fst (hd (dir_entries ?t)) = filename k"
    unfolding dir_entries_def by (subst dir_loop.simps) (simp add: w split: prod.splits del: dir_text_simps)
  then show ?thesis using filename_not_Nil [of k] by (simp add: encode_def del: dir_text_simps)
qed

lemma mod_once: "N \<le> a + b \<Longrightarrow> a < N \<Longrightarrow> b < N \<Longrightarrow> (a + b) mod N = a + b - N" for a b N :: nat
  by (simp add: le_mod_geq)

lemma len64: "LENGTH(64) = 64"
  by simp

lemma overwrite_wraps:
  assumes "2 ^ 64 \<le> unat off + unat sz" and "length d < 2 ^ 64"
  shows "overwrite off sz new d = Inl Out_Of_Bounds \<longleftrightarrow> length d < unat off"
proof -
  have n: "unat (of_nat (length d) :: u64) = length d" using assms(2) by (simp add: unat_of_nat)
  have lt: "unat off < 2 ^ 64" "unat sz < 2 ^ 64" using unsigned_less [of off] unsigned_less [of sz] by simp_all
  from mod_once [OF assms(1) lt] have s: "unat (sz + off) = unat off + unat sz - 2 ^ 64"
    by (simp only: unat_word_ariths(1) len64 add.commute)
  then have short: "unat (off + sz) < unat off" using lt assms(1) by (simp add: add.commute)
  show ?thesis
  proof (cases "sz + off > of_nat (length d)")
    case True
    then have "length d < unat (off + sz)" by (simp add: word_less_nat_alt n add.commute)
    then show ?thesis using True short by (simp add: overwrite_def Let_def)
  qed (simp add: overwrite_def Let_def)
qed

text \<open>C37: A \<open>write\<close> whose offset and size add up past 64 bits, as with a small negative offset, ends the process exactly when the
  offset, as an unsigned number, is past the end of the file: the sum wraps to a number below the
  offset, the contents are extended to that at most, and replacing past their end throws.\<close>

theorem write_wraps:
  assumes "fs_inv w" and "files w i = Some (ty, d)" and "length d < 2 ^ 64"
    and "unat sz \<le> length data" and "2 ^ 64 \<le> unat off + unat sz"
  shows "yfs_write (mount time_at lost bare junk revoked) w i sz off data = Inl Out_Of_Bounds \<longleftrightarrow> length d < unat off"
proof -
  let ?ops = "mount time_at lost bare junk revoked"
  obtain w2 where "op_get ?ops (op_acquire ?ops w i) i [] = (0, d, w2)"
    by (rule mounted.locked_get [OF assms(1,2)])
  moreover have "overwrite off sz (take (unat sz) data) d = Inl Out_Of_Bounds \<longleftrightarrow> length d < unat off"
    by (rule overwrite_wraps [OF assms(5,3)])
  ultimately show ?thesis
    using assms(4) by (cases "overwrite off sz (take (unat sz) data) d") (auto simp: yfs_write_def Let_def split: prod.splits)
qed

theorem write_wraps_witness: "yfs_write example_mount example_world 1 2 18446744073709551615 [104, 105] = Inl Out_Of_Bounds"
proof -
  have u: "unat (18446744073709551615 :: u64) = 18446744073709551615" "unat (2 :: u64) = 2" by simp_all
  have "length (dir_text []) < unat (18446744073709551615 :: u64)" unfolding u by simp
  moreover have "length (dir_text []) < 2 ^ 64" "unat (2 :: u64) \<le> length [104, 105 :: byte]"
    "2 ^ 64 \<le> unat (18446744073709551615 :: u64) + unat (2 :: u64)" unfolding u by simp_all
  ultimately show ?thesis using write_wraps [OF example_world(1,2)] unfolding example_mount_def by blast
qed

section \<open>Attributes looked at without the lock\<close>

text \<open>A new file's attributes are cached by \<open>create\<close> itself, and taking and giving up the parent's lock keeps them.\<close>

lemma created_is_cached:
  assumes run: "addfile (mount time_at lost bare junk revoked) w p name i0 t = (r, i, w1)" and "i \<noteq> p"
  shows "\<exists>x. w_tbl w1 i = Some x \<and> x_state x = NONE \<and> a_size (x_attr x) = 0"
proof -
  let ?rpc = "direct_rpc time_at lost bare"
  obtain ret1 tbl1 s1 where c: "cc_create ?rpc (junk (w_ticks w)) (\<lambda>k. time_at (w_ticks w + k)) (w_tbl w) (w_srv w) t i0 = (ret1, i, tbl1, s1)"
    and rest: "\<exists>ret2 b tbl2 s2 ret3 tbl3. cc_get ?rpc (junk (w_ticks w + 2)) (\<lambda>k. time_at (w_ticks w + 2 + k)) tbl1 s1 p [] = (ret2, b, tbl2, s2)
      \<and> cc_put (junk (w_ticks w + 2 + 2)) (\<lambda>k. time_at (w_ticks w + 2 + 2 + k)) tbl2 p (b @ dir_record (encode name) (filename i)) = (ret3, tbl3)
      \<and> (w_tbl w1 = tbl3 \<or> (\<exists>s. w_tbl w1 = fst (snd (cc_flush ?rpc tbl3 s p))))"
    using run by (auto simp: addfile_def mount_def cached_ops_simps dorelease_def split: prod.splits if_splits) (metis fst_conv snd_conv)
  obtain x where x: "tbl1 i = Some x" "x_state x = NONE" "a_size (x_attr x) = 0"
    using c by (auto simp: cc_create_def Let_def split: prod.splits)
  obtain ret2 b tbl2 s2 ret3 tbl3 where g: "cc_get ?rpc (junk (w_ticks w + 2)) (\<lambda>k. time_at (w_ticks w + 2 + k)) tbl1 s1 p [] = (ret2, b, tbl2, s2)"
    "cc_put (junk (w_ticks w + 2 + 2)) (\<lambda>k. time_at (w_ticks w + 2 + 2 + k)) tbl2 p (b @ dir_record (encode name) (filename i)) = (ret3, tbl3)"
    "w_tbl w1 = tbl3 \<or> (\<exists>s. w_tbl w1 = fst (snd (cc_flush ?rpc tbl3 s p)))" using rest by blast
  have "tbl3 i = tbl1 i" using cc_far(1) [OF g(1)] cc_far(3) [OF g(2)] assms(2) by simp
  moreover have "w_tbl w1 i = tbl3 i"
    using g(3) assms(2) by (metis cc_flush_tbl fun_upd_other prod.collapse)
  ultimately show ?thesis using x by simp
qed

text \<open>C31: Attributes cached without the lock go stale. \<open>isfile\<close> and its siblings query attributes without
  taking the lock, and creating a file caches its attributes under the lock of the parent only.
  From then on \<open>getfile\<close>, which does take the lock, reports the size seen then, whatever
  other clients have made of the server in between: nothing tells this client to flush an
  extent whose lock it does not hold.\<close>

theorem unlocked_attributes_go_stale:
  assumes "fs_inv w" and "files w i = Some (ty, d)"
  shows "(\<exists>b w1. isfile (mount time_at lost bare junk revoked) a0 w i = (b, w1) \<and> files w1 = files w
      \<and> (\<forall>s. \<exists>fin w2. getfile (mount time_at lost bare junk revoked) a1 (w1\<lparr>w_srv := s\<rparr>) i fin0 = (0, fin, w2)
           \<and> fi_size fin = ucast (of_nat (length d) :: u32)))
    \<and> (\<forall>p name t i0 r j w1. addfile (mount time_at lost bare junk revoked) w p name i0 t = (r, j, w1) \<and> j \<noteq> p \<longrightarrow>
      (\<forall>s. \<exists>fin w2. getfile (mount time_at lost bare junk revoked) a1 (w1\<lparr>w_srv := s\<rparr>) j fin0 = (0, fin, w2) \<and> fi_size fin = 0))"
proof -
  let ?rpc = "direct_rpc time_at lost bare" and ?ops = "mount time_at lost bare junk revoked"
  have inv: "server_inv (w_srv w)" "cache_ok server_view (w_tbl w) (w_srv w)" using assms(1) by (simp_all add: world_defs)
  have v: "cview server_view (w_tbl w) (w_srv w) i = Some (ty, d)" using assms(2) by (simp add: world_view_def)
  obtain a tbl s1 where g: "cc_getattr ?rpc (w_tbl w) (w_srv w) i a0 = (0, a, tbl, s1)" "a_size a = of_nat (length d)"
    "cview server_view tbl s1 = cview server_view (w_tbl w) (w_srv w)" "tbl i \<noteq> None"
    using direct.cache_getattr [OF inv v] by blast
  have again: "cc_getattr ?rpc tbl s i a1 = (0, a, tbl, s)" for s
    by (rule cc_getattr_again [OF g(1)])
  let ?w1 = "\<lparr>w_tbl = tbl, w_srv = s1, w_ticks = w_ticks w + 2\<rparr>"
  have "isfile ?ops a0 w i = (a_type a = T_FILE, ?w1)"
    by (simp add: isfile_def has_type_def mount_def cached_ops_simps g(1))
  moreover have "files ?w1 = files w" by (simp add: world_view_def g(3))
  moreover have "\<exists>fin w2. getfile ?ops a1 (?w1\<lparr>w_srv := s\<rparr>) i fin0 = (0, fin, w2)
      \<and> fi_size fin = ucast (of_nat (length d) :: u32)" for s
    by (simp add: getfile_def mount_def cached_ops_simps again g(2))
  moreover have "\<exists>fin w2. getfile ?ops a1 (w1\<lparr>w_srv := s\<rparr>) j fin0 = (0, fin, w2) \<and> fi_size fin = 0"
    if run: "addfile ?ops w p name i0 t = (r, j, w1)" "j \<noteq> p" for p name t i0 r j w1 s
  proof -
    obtain x where "w_tbl w1 j = Some x" "x_state x = NONE" "a_size (x_attr x) = 0" using created_is_cached [OF run] by blast
    then show ?thesis by (simp add: getfile_def mount_def cached_ops_simps cc_getattr_def)
  qed
  ultimately show ?thesis by blast
qed

theorem unlocked_attributes_go_stale_witness:
  "\<exists>b w1 s fin w2. isfile example_mount zero_attr example_world 1 = (b, w1)
    \<and> (\<exists>t. server_view s 1 = Some (t, [104, 105]))
    \<and> getfile example_mount zero_attr (w1\<lparr>w_srv := s\<rparr>) 1 \<lparr>fi_size = 9, fi_atime = 0, fi_mtime = 0, fi_ctime = 0\<rparr> = (0, fin, w2)
    \<and> fi_size fin = 0"
proof -
  obtain s where s: "server_view s = (server_view example_server)(1 \<mapsto> (1, [104, 105]))"
    using direct_roomy.room_put [OF example_server(1,2) example_room [of "[104, 105]"], of example_clock 0] by auto
  let ?fin0 = "\<lparr>fi_size = 9, fi_atime = 0, fi_mtime = 0, fi_ctime = 0\<rparr>"
  obtain b w1 where b: "isfile example_mount zero_attr example_world 1 = (b, w1)"
    "\<forall>s. \<exists>fin w2. getfile example_mount zero_attr (w1\<lparr>w_srv := s\<rparr>) 1 ?fin0 = (0, fin, w2)
       \<and> fi_size fin = ucast (of_nat (length (dir_text [])) :: u32)"
    using unlocked_attributes_go_stale [OF example_world(1,2), of example_clock 0 example_bare "\<lambda>_. zero_attr" "\<lambda>_ _. True" zero_attr zero_attr ?fin0]
    unfolding example_mount_def by blast
  obtain fin w2 where "getfile example_mount zero_attr (w1\<lparr>w_srv := s\<rparr>) 1 ?fin0 = (0, fin, w2)" "fi_size fin = 0"
    using b(2) by force
  moreover have "server_view s 1 = Some (1, [104, 105])" by (simp add: s)
  ultimately show ?thesis using b(1) by blast
qed

end
