(* ===== verification/Fuse_Properties.thy ===== *)
theory Fuse_Properties
  imports Yfs_Properties
begin

text \<open>
  The properties of the FUSE handlers on the mounted file system of \<open>Yfs_Properties\<close>: what the
  kernel is told for every request, and what the request does to the files.
\<close>

section \<open>Example of the library\<close>

definition example_lib :: fuse_lib where
  "example_lib = \<lparr>set_attr_size = 8, set_attr_atime = 16, set_attr_mtime = 32, dirent_size = (\<lambda>n. of_nat (24 + n)),
     dirent_bytes = (\<lambda>name st off. le_encode 8 (st_ino st) @ le_encode 8 off @
       le_encode 4 (of_nat (length name) :: u32) @ le_encode 4 (drop_bit 12 (st_mode st)) @ name)\<rparr>"

lemma example_lib_ok: "lib_ok example_lib"
proof -
  have "unat (of_nat (24 + n) :: u64) = 24 + n" if "n < 2 ^ 32" for n
    using that by (subst unat_of_nat) simp
  then show ?thesis unfolding lib_ok_def example_lib_def by simp
qed

lemma dir_text_names: "(n, i) \<in> set es \<Longrightarrow> length n \<le> length (dir_text es)"
  by (induction es) (auto simp: dir_record_def)

section \<open>Attributes\<close>

text \<open>C19: \<open>getattr\<close> of a file, symbolic link or directory replies its attributes: the number asked for, the
  mode of its type, the number of links, and the size of its contents (zero for a directory).
  No file changes.\<close>

theorem fuse_getattr_correct:
  assumes "fs_inv w" and "files w i = Some (ty, d)" and "fs_room w i d" and "ty \<in> {T_DIR, T_FILE, T_SYMLK}"
  shows "\<exists>st w'. fuseserver_getattr (mount time_at lost bare junk revoked) a0 w i = (Reply_Attr st 0, w')
    \<and> stat_of i ty d st \<and> fs_inv w' \<and> files w' = files w"
  using mounted.getattr_handler [OF assms, of time_at lost bare junk revoked a0] by blast

theorem fuse_getattr_correct_witness:
  "\<exists>st w'. fuseserver_getattr example_mount zero_attr example_world 1 = (Reply_Attr st 0, w')
    \<and> st_mode st = 0x41FF \<and> st_nlink st = 2"
  using fuse_getattr_correct [OF example_world(1,2,3), of example_clock 0 example_bare "\<lambda>_. zero_attr" "\<lambda>_ _. True" zero_attr]
  unfolding example_mount_def by (auto simp: stat_of_def mode_of_def S_IFDIR_def)

text \<open>C38: \<open>setattr\<close> with the size bit cuts the file to the size asked for, or extends it with zero bytes, and
  replies the attributes of the resized file; no other file changes.\<close>

theorem fuse_setattr_correct:
  assumes "fs_inv w" and "files w i = Some (ty, d)" and "length d < 2 ^ 32" and "ty \<in> {T_DIR, T_FILE, T_SYMLK}"
    and "and to_set (set_attr_size lib) \<noteq> 0" and "fs_room w i (sized (unat (st_size att)) d)"
  shows "\<exists>st w'. fuseserver_setattr lib (mount time_at lost bare junk revoked) a0 w i att to_set = (Reply_Attr st 0, w')
    \<and> stat_of i ty (sized (unat (st_size att)) d) st \<and> fs_inv w'
    \<and> files w' = (files w)(i \<mapsto> (ty, sized (unat (st_size att)) d))"
  using mounted.setattr_handler [OF assms, of time_at lost bare junk revoked a0] by blast

theorem fuse_setattr_correct_witness:
  "\<exists>st w'. fuseserver_setattr example_lib example_mount zero_attr example_world 1 (zero_stat\<lparr>st_size := 3\<rparr>) 8
      = (Reply_Attr st 0, w') \<and> files w' 1 = Some (T_DIR, [0, 0, 0])"
proof -
  have "\<exists>st w'. fuseserver_setattr example_lib example_mount zero_attr example_world 1 (zero_stat\<lparr>st_size := 3\<rparr>) 8
      = (Reply_Attr st 0, w')
    \<and> stat_of 1 T_DIR (sized (unat (st_size (zero_stat\<lparr>st_size := 3\<rparr>))) (dir_text [])) st \<and> fs_inv w'
    \<and> files w' = (files example_world)(1 \<mapsto> (T_DIR, sized (unat (st_size (zero_stat\<lparr>st_size := 3\<rparr>))) (dir_text [])))"
    unfolding example_mount_def
    by (rule fuse_setattr_correct [OF example_world(1,2)])
      (simp_all add: example_lib_def example_world(3) example_written [simplified])
  then obtain st w' where "fuseserver_setattr example_lib example_mount zero_attr example_world 1 (zero_stat\<lparr>st_size := 3\<rparr>) 8
      = (Reply_Attr st 0, w')" "files w' = (files example_world)(1 \<mapsto> (T_DIR, [0, 0, 0]))"
    by (auto simp: example_written [simplified])
  then show ?thesis by auto
qed

section \<open>Files\<close>

text \<open>C2: What the kernel writes it reads back: \<open>write\<close> replies the number of bytes and stores the data at the
  offset, with zeros in a gap, and \<open>read\<close> of the same range replies the data.\<close>

theorem fuse_write_read:
  assumes "fs_inv w" and "files w i = Some (ty, d)" and "length d < 2 ^ 64" and "unat sz \<le> length data"
    and "unat off + unat sz < 2 ^ 64" and "fs_room w i (written_at (unat off) (take (unat sz) data) d)"
  shows "\<exists>w' w''. fuseserver_write (mount time_at lost bare junk revoked) w i data sz off = Inr (Reply_Write sz, w')
    \<and> files w' = (files w)(i \<mapsto> (ty, written_at (unat off) (take (unat sz) data) d))
    \<and> fuseserver_read (mount time_at lost bare junk revoked) w' i sz off = (Reply_Buf (take (unat sz) data), w'')
    \<and> files w'' = files w'"
proof -
  let ?new = "written_at (unat off) (take (unat sz) data) d"
  obtain w' where w: "fuseserver_write (mount time_at lost bare junk revoked) w i data sz off = Inr (Reply_Write sz, w')"
    "fs_inv w'" "fs_room w' i ?new" "files w' = (files w)(i \<mapsto> (ty, ?new))"
    using mounted.write_handler [OF assms, of time_at lost bare junk revoked] by blast
  have v: "files w' i = Some (ty, ?new)" by (simp add: w(4))
  have len: "length ?new < 2 ^ 64" using fs_room_length [OF w(3)] by simp
  have same: "take (unat sz) (drop (unat off) ?new) = take (unat sz) data"
    using written_at_read [of "take (unat sz) data" "unat off" d] assms(4) by (simp add: min_absorb2)
  show ?thesis
    using w(1,4) mounted.read_handler [OF w(2) v len w(3), of time_at lost bare junk revoked sz off]
    unfolding same by blast
qed

theorem fuse_write_read_witness:
  "\<exists>w' w''. fuseserver_write example_mount example_world 1 [104, 105] 2 3 = Inr (Reply_Write 2, w')
    \<and> files w' 1 = Some (T_DIR, [0, 0, 0, 104, 105])
    \<and> fuseserver_read example_mount w' 1 2 3 = (Reply_Buf [104, 105], w'')"
  using fuse_write_read [OF example_world(1,2), of 2 "[104, 105]" 3 example_clock 0 example_bare "\<lambda>_. zero_attr" "\<lambda>_ _. True"]
      example_world(3) [of "[0, 0, 0, 104, 105]"] unfolding example_written example_mount_def by (auto simp: example_written)

text \<open>\<open>read\<close> replies the bytes from the offset on, at most as many as asked for and none past the end of
  the file, for every offset and size, and changes no file.\<close>

theorem fuse_read_correct:
  assumes "fs_inv w" and "files w i = Some (ty, d)" and "fs_room w i d"
  shows "\<exists>w'. fuseserver_read (mount time_at lost bare junk revoked) w i sz off =
      (Reply_Buf (take (unat sz) (drop (unat off) d)), w') \<and> fs_inv w' \<and> files w' = files w"
proof -
  have d: "length d < 2 ^ 64" using fs_room_length [OF assms(3)] by simp
  show ?thesis
    using mounted.read_handler [OF assms(1,2) d assms(3), of time_at lost bare junk revoked sz off] by blast
qed

theorem fuse_read_correct_witness:
  "\<exists>w'. fuseserver_read example_mount example_named 1 2 18446744073709551615 = (Reply_Buf [], w')
    \<and> files w' = files example_named"
proof -
  have room: "fs_room example_named 1 (dir_text [([97], 1)])"
    by (rule fs_room_less [OF example_named(3) [of 1]]) simp
  have "drop (unat (18446744073709551615 :: u64)) (dir_text [([97], 1)]) = []"
    using fs_room_length [OF room] by (intro drop_all) (simp del: dir_text_simps)
  with fuse_read_correct [OF example_named(1,2) room, of example_clock 0 example_bare "\<lambda>_. zero_attr" "\<lambda>_ _. True" 2 18446744073709551615]
  show ?thesis unfolding example_mount_def by auto
qed

section \<open>Making files and directories\<close>

text \<open>C14: \<open>create\<close> and \<open>mkdir\<close>. When the server gives an inode, the reply carries its number, which was unused,
  and the attributes of an empty file or directory; the parent has one more entry, at its end, with
  the name up to its first zero byte, and no other file changes.\<close>

theorem fuse_create_correct:
  assumes "fs_inv w" and "files w p = Some (T_DIR, dir_text es)"
    and "fst (op_create (mount time_at lost bare junk revoked) (op_acquire (mount time_at lost bare junk revoked) w p) T_FILE i0) = 0"
    and "\<And>i. fs_room w p (dir_text (es @ [(c_string name, i)]))"
  shows "\<exists>i st w'. fuseserver_create (mount time_at lost bare junk revoked) a0 w p name fi i0 =
      Inr (Reply_Create (new_entry i st) fi, w') \<and> files w i = None \<and> stat_of i T_FILE [] st \<and> fs_inv w'
    \<and> files w' = (files w)(i \<mapsto> (T_FILE, []), p \<mapsto> (T_DIR, dir_text (es @ [(c_string name, i)])))"
proof -
  obtain i st w' where "fuseserver_createhelper (mount time_at lost bare junk revoked) a0 w p name i0 T_FILE =
      (0, Some (new_entry i st), w')" "files w i = None" "stat_of i T_FILE [] st" "fs_inv w'"
    "files w' = (files w)(i \<mapsto> (T_FILE, []), p \<mapsto> (T_DIR, dir_text (es @ [(c_string name, i)])))"
    using mounted.create_helper [OF assms(1,2) _ assms(3,4), of a0] by blast
  then show ?thesis by (auto simp: fuseserver_create_def create_reply_def simp del: dir_text_simps)
qed

theorem fuse_create_correct_witness:
  "\<exists>i st w'. fuseserver_create example_mount zero_attr example_world 1 [97, 0, 98] \<lparr>fi_flags = 0, fi_fh = 7\<rparr> 0 =
      Inr (Reply_Create (new_entry i st) \<lparr>fi_flags = 0, fi_fh = 7\<rparr>, w')
    \<and> files w' = (files example_world)(i \<mapsto> (T_FILE, []), 1 \<mapsto> (T_DIR, dir_text ([] @ [([97], i)])))"
proof -
  have c: "c_string [97, 0, 98] = [97]" by (simp add: c_string_def)
  have room: "fs_room example_world 1 (dir_text ([] @ [(c_string [97, 0, 98], i)]))" for i
    unfolding c by (rule example_dir_room)
  show ?thesis
    using fuse_create_correct [OF example_world(1,2) example_creates room, of example_clock 0 example_bare "\<lambda>_. zero_attr"
        "\<lambda>_ _. True" zero_attr "\<lparr>fi_flags = 0, fi_fh = 7\<rparr>" 0]
    unfolding example_mount_def c by (auto simp del: dir_text_simps)
qed

theorem fuse_mkdir_correct:
  assumes "fs_inv w" and "files w p = Some (T_DIR, dir_text es)"
    and "fst (op_create (mount time_at lost bare junk revoked) (op_acquire (mount time_at lost bare junk revoked) w p) T_DIR i0) = 0"
    and "\<And>i. fs_room w p (dir_text (es @ [(c_string name, i)]))"
  shows "\<exists>i st w'. fuseserver_mkdir (mount time_at lost bare junk revoked) a0 w p name i0 =
      Inr (Reply_Entry (new_entry i st), w') \<and> files w i = None \<and> stat_of i T_DIR [] st \<and> fs_inv w'
    \<and> files w' = (files w)(i \<mapsto> (T_DIR, []), p \<mapsto> (T_DIR, dir_text (es @ [(c_string name, i)])))"
proof -
  obtain i st w' where "fuseserver_createhelper (mount time_at lost bare junk revoked) a0 w p name i0 T_DIR =
      (0, Some (new_entry i st), w')" "files w i = None" "stat_of i T_DIR [] st" "fs_inv w'"
    "files w' = (files w)(i \<mapsto> (T_DIR, []), p \<mapsto> (T_DIR, dir_text (es @ [(c_string name, i)])))"
    using mounted.create_helper [OF assms(1,2) _ assms(3,4), of a0] by blast
  then show ?thesis by (auto simp: fuseserver_mkdir_def create_reply_def simp del: dir_text_simps)
qed

theorem fuse_mkdir_correct_witness:
  "\<exists>i st w'. fuseserver_mkdir example_mount zero_attr example_world 1 [97] 0 = Inr (Reply_Entry (new_entry i st), w')
    \<and> files w' = (files example_world)(i \<mapsto> (T_DIR, []), 1 \<mapsto> (T_DIR, dir_text ([] @ [([97], i)])))"
proof -
  have c: "c_string [97] = [97]" by (simp add: c_string_def)
  have room: "fs_room example_world 1 (dir_text ([] @ [(c_string [97], i)]))" for i
    unfolding c by (rule example_dir_room)
  show ?thesis
    using fuse_mkdir_correct [OF example_world(1,2) example_creates room, of example_clock 0 example_bare "\<lambda>_. zero_attr"
        "\<lambda>_ _. True" zero_attr 0]
    unfolding example_mount_def c by (auto simp del: dir_text_simps)
qed

text \<open>\<open>create\<close>, \<open>mknod\<close> and \<open>mkdir\<close> never reply \<open>EEXIST\<close>, on any client and for any name: the calls they make
  return \<open>OK\<close> or \<open>IOERR\<close> only. They never read an entry that was not filled in.\<close>

theorem fuse_create_never_exists:
  "(\<exists>r w'. fuseserver_create ops a0 w p name fi i0 = Inr (r, w') \<and> r \<noteq> Reply_Err EEXIST)
    \<and> (\<exists>r w'. fuseserver_mknod ops a0 w p name i0 = Inr (r, w') \<and> r \<noteq> Reply_Err EEXIST)
    \<and> (\<exists>r w'. fuseserver_mkdir ops a0 w p name i0 = Inr (r, w') \<and> r \<noteq> Reply_Err EEXIST)"
  unfolding fuseserver_create_def fuseserver_mknod_def fuseserver_mkdir_def
  by (intro conjI createhelper_reply) simp_all

section \<open>Names\<close>

text \<open>C15: \<open>lookup\<close> of a name the directory has replies the inode number of its first entry of that name with
  the attributes of that file, and changes no file.\<close>

theorem fuse_lookup_found:
  assumes "\<forall>(n, i) \<in> set es. n \<noteq> []" and "fs_inv w" and "files w p = Some (T_DIR, dir_text es)"
    and "fs_room w p (dir_text es)" and "map_of es (c_string name) = Some i" and "files w i = Some (ty, d)"
    and "ty \<in> {T_DIR, T_FILE, T_SYMLK}"
    and "\<And>w1. yfs_lookup (mount time_at lost bare junk revoked) a0 w p (c_string name) False i0 = Inr (0, True, i, w1) \<Longrightarrow>
      fs_room w1 i d"
  shows "\<exists>st w'. fuseserver_lookup (mount time_at lost bare junk revoked) a0 w p name i0 =
      Inr (Reply_Entry (new_entry i st), w') \<and> stat_of i ty d st \<and> fs_inv w' \<and> files w' = files w"
  by (rule mounted.lookup_handler [OF assms])

lemma example_named_room: "fs_room example_named 1 (dir_text [([97], 1)])"
  by (rule fs_room_less [OF example_named(3) [of 1]]) simp

theorem fuse_lookup_found_witness:
  "\<exists>st w'. fuseserver_lookup example_mount zero_attr example_named 1 [97] 0 = Inr (Reply_Entry (new_entry 1 st), w')
    \<and> st_ino st = 1"
proof -
  have c: "c_string [97] = [97]" by (simp add: c_string_def)
  have es: "\<forall>(n, i) \<in> set [([97], 1 :: u64)]. n \<noteq> ([] :: bytes)" by simp
  have room2: "fs_room w1 1 (dir_text [([97], 1)])"
    if "yfs_lookup (mount example_clock 0 example_bare (\<lambda>_. zero_attr) (\<lambda>_ _. True)) zero_attr example_named 1 (c_string [97]) False 0 =
      Inr (0, True, 1, w1)" for w1
    using mounted.find_after [OF es example_named(1,2) example_named_room, of example_clock 0 example_bare "\<lambda>_. zero_attr" "\<lambda>_ _. True"
        zero_attr "c_string [97]" False 0] that by (auto simp: c simp del: dir_text_simps)
  have "\<exists>st w'. fuseserver_lookup example_mount zero_attr example_named 1 [97] 0 = Inr (Reply_Entry (new_entry 1 st), w')
      \<and> stat_of 1 T_DIR (dir_text [([97], 1)]) st \<and> fs_inv w' \<and> files w' = files example_named"
    unfolding example_mount_def
    by (rule fuse_lookup_found [OF es example_named(1,2) example_named_room _ example_named(2) _ room2])
      (simp_all add: c)
  then show ?thesis by (auto simp: stat_of_def)
qed

text \<open>C18: \<open>readdir\<close> of a directory replies the window of the listing the kernel asked for: all entries in
  order, each with its name, inode number and the offset of the next one. A request past
  the end gets an empty reply. No file changes.\<close>

theorem fuse_readdir_correct:
  assumes "\<forall>(n, i) \<in> set es. n \<noteq> []" and "fs_inv w" and "files w p = Some (T_DIR, dir_text es)"
    and "fs_room w p (dir_text es)" and "lib_ok lib" and "listing_size lib es < 2 ^ 64"
  shows "\<exists>w'. fuseserver_readdir lib (mount time_at lost bare junk revoked) a0 w p sz off =
      Inr (Reply_Buf (take (unat sz) (drop (unat off) (listing lib 0 es))), w') \<and> fs_inv w' \<and> files w' = files w"
proof -
  have "\<forall>(n, i) \<in> set es. length n < 2 ^ 32"
    using dir_text_names fs_room_length [OF assms(4)] by fastforce
  then show ?thesis by (rule mounted.readdir_handler [OF assms(1-5) _ assms(6)])
qed

theorem fuse_readdir_correct_witness:
  "\<exists>w'. fuseserver_readdir example_lib example_mount zero_attr example_named 1 100 0 =
    Inr (Reply_Buf (take 100 (listing example_lib 0 [([97], 1)])), w')"
proof -
  have small: "listing_size example_lib [([97], 1)] < 2 ^ 64"
    by (rule less_trans [where y = "2 ^ 60"]) (simp_all add: example_lib_def c_string_def)
  show ?thesis
    using fuse_readdir_correct [OF _ example_named(1,2) example_named_room example_lib_ok small,
        of example_clock 0 example_bare "\<lambda>_. zero_attr" "\<lambda>_ _. True" zero_attr 100 0]
    unfolding example_mount_def by auto
qed

text \<open>\<open>readdir\<close> of what is not a directory replies \<open>ENOTDIR\<close>.\<close>

theorem fuse_readdir_not_a_directory:
  assumes "fs_inv w" and "files w i = Some (ty, d)" and "ty \<noteq> T_DIR"
  shows "\<exists>w'. fuseserver_readdir lib (mount time_at lost bare junk revoked) a0 w i sz off = Inr (Reply_Err ENOTDIR, w')
    \<and> fs_inv w' \<and> files w' = files w"
  by (rule mounted.readdir_handler_nodir [OF assms])

lemma example_child:
  assumes "t \<in> {T_DIR, T_FILE, T_SYMLK}"
  obtains i w where "fs_inv w" "files w 1 = Some (T_DIR, dir_text ([] @ ([97], i) # []))" "files w i = Some (t, [])" "i \<noteq> 1"
    "fs_room w 1 (dir_text ([] @ []))"
proof -
  obtain i w where a: "fs_inv w" "fs_room w 1 (dir_text ([] @ [([97], i)]))" "i \<noteq> 1"
    "files w 1 = Some (T_DIR, dir_text ([] @ [([97], i)]))" "files w i = Some (t, [])"
    by (rule addfile_kept [OF example_world(1,2) assms example_creates [OF assms] example_dir_room,
          of example_clock 0 example_bare "\<lambda>_. zero_attr" "\<lambda>_ _. True" 0])
  moreover have "fs_room w 1 (dir_text ([] @ []))" by (rule fs_room_less [OF a(2)]) simp
  ultimately show thesis using that by blast
qed

theorem fuse_readdir_not_a_directory_witness:
  "\<exists>w i w'. files w i = Some (T_FILE, [])
    \<and> fuseserver_readdir example_lib example_mount zero_attr w i 100 0 = Inr (Reply_Err 20, w') \<and> files w' = files w"
proof -
  obtain i w where a: "fs_inv w" "files w i = Some (T_FILE, [])" by (rule example_child [of T_FILE]) simp_all
  then show ?thesis
    using fuse_readdir_not_a_directory [OF a, of example_lib example_clock 0 example_bare "\<lambda>_. zero_attr" "\<lambda>_ _. True" zero_attr 100 0]
    unfolding example_mount_def by (auto simp: ENOTDIR_def)
qed

text \<open>C16: \<open>unlink\<close> of a name that occurs once replies success, drops the entry, keeps the others in order and
  removes the file it names, whatever its type: a directory is not refused, even one with entries.\<close>

theorem fuse_unlink_correct:
  assumes "\<forall>(n, i) \<in> set es. n \<noteq> []" and "fs_inv w" and "files w p = Some (T_DIR, dir_text es)"
    and "es = es1 @ (c_string name, i) # es2" and "c_string name \<notin> fst ` set (es1 @ es2)"
    and "files w i \<noteq> None" and "i \<noteq> p" and "fs_room w p (dir_text (es1 @ es2))"
  shows "\<exists>w'. fuseserver_unlink (mount time_at lost bare junk revoked) w p name = Inr (Reply_Err 0, w') \<and> fs_inv w'
    \<and> files w' = (files w)(i := None, p \<mapsto> (T_DIR, dir_text (es1 @ es2)))"
  by (rule mounted.unlink_handler [OF assms])

theorem fuse_unlink_correct_witness:
  "\<exists>w i w'. files w i = Some (T_DIR, []) \<and> fuseserver_unlink example_mount w 1 [97] = Inr (Reply_Err 0, w')
    \<and> files w' = (files w)(i := None, 1 \<mapsto> (T_DIR, dir_text []))"
proof -
  obtain i w where a: "fs_inv w" "files w 1 = Some (T_DIR, dir_text ([] @ ([97], i) # []))" "files w i = Some (T_DIR, [])"
    "i \<noteq> 1" "fs_room w 1 (dir_text ([] @ []))" by (rule example_child [of T_DIR]) simp_all
  have c: "c_string [97] = [97]" by (simp add: c_string_def)
  have "\<exists>w'. fuseserver_unlink example_mount w 1 [97] = Inr (Reply_Err 0, w') \<and> fs_inv w'
      \<and> files w' = (files w)(i := None, 1 \<mapsto> (T_DIR, dir_text ([] @ [])))"
    unfolding example_mount_def
    by (rule fuse_unlink_correct [OF _ a(1,2) _ _ _ a(4,5)]) (use a(3) in \<open>simp_all add: c\<close>)
  then show ?thesis using a(3) by auto
qed

section \<open>Symbolic links\<close>

text \<open>C17: A link that was made is read back: \<open>symlink\<close> replies the entry of a new symbolic link, and
  \<open>readlink\<close> of it replies the path up to its first zero byte.\<close>

theorem fuse_symlink_readlink:
  assumes "fs_inv w" and "files w p = Some (T_DIR, dir_text es)"
    and "fst (op_create (mount time_at lost bare junk revoked) (op_acquire (mount time_at lost bare junk revoked) w p) T_SYMLK i0) = 0"
    and "\<And>i. fs_room w p (dir_text (es @ [(c_string name, i)]))"
    and "\<And>i w1. addfile (mount time_at lost bare junk revoked) w p (c_string name) i0 T_SYMLK = (0, i, w1) \<Longrightarrow>
      fs_room w1 i (c_string link)"
  shows "\<exists>i st w' w''. fuseserver_symlink (mount time_at lost bare junk revoked) a0 w link p name i0 =
      (Reply_Entry (new_entry i st), w') \<and> files w i = None \<and> stat_of i T_SYMLK (c_string link) st
    \<and> files w' = (files w)(i \<mapsto> (T_SYMLK, c_string link), p \<mapsto> (T_DIR, dir_text (es @ [(c_string name, i)])))
    \<and> fuseserver_readlink (mount time_at lost bare junk revoked) w' i = (Reply_Readlink (c_string link), w'')"
proof -
  let ?ops = "mount time_at lost bare junk revoked"
  obtain i st w' where s: "fuseserver_symlink ?ops a0 w link p name i0 = (Reply_Entry (new_entry i st), w')"
    "files w i = None" "stat_of i T_SYMLK (c_string link) st" "fs_inv w'" "fs_room w' i (c_string link)"
    "files w' = (files w)(i \<mapsto> (T_SYMLK, c_string link), p \<mapsto> (T_DIR, dir_text (es @ [(c_string name, i)])))"
    using mounted.symlink_handler [OF assms, of a0] by blast
  have "i \<noteq> p" using s(2) assms(2) by auto
  then have v: "files w' i = Some (T_SYMLK, c_string link)" by (simp add: s(6) del: dir_text_simps)
  have "c_string (c_string link) = c_string link" by (simp add: c_string_def takeWhile_idem)
  then obtain w'' where "fuseserver_readlink ?ops w' i = (Reply_Readlink (c_string link), w'')"
    using mounted.readlink_handler [OF s(4) v s(5), of time_at lost bare junk revoked] by auto
  then show ?thesis using s(1,2,3,6) by blast
qed

theorem fuse_symlink_readlink_witness:
  "\<exists>i st w' w''. fuseserver_symlink (mount example_clock 0 example_bare (\<lambda>_. zero_attr) (\<lambda>_ _. False)) zero_attr example_world [47, 120] 1 [97] 0 =
      (Reply_Entry (new_entry i st), w')
    \<and> fuseserver_readlink (mount example_clock 0 example_bare (\<lambda>_. zero_attr) (\<lambda>_ _. False)) w' i = (Reply_Readlink [47, 120], w'')"
proof -
  let ?ops = "mount example_clock 0 example_bare (\<lambda>_. zero_attr) (\<lambda>_ _. False)"
  have c: "c_string [97] = [97]" "c_string [47, 120] = [47, 120]" by (simp_all add: c_string_def)
  have "\<exists>i st w' w''. fuseserver_symlink ?ops zero_attr example_world [47, 120] 1 [97] 0 =
      (Reply_Entry (new_entry i st), w') \<and> files example_world i = None \<and> stat_of i T_SYMLK (c_string [47, 120]) st
    \<and> files w' = (files example_world)(i \<mapsto> (T_SYMLK, c_string [47, 120]), 1 \<mapsto> (T_DIR, dir_text ([] @ [(c_string [97], i)])))
    \<and> fuseserver_readlink ?ops w' i = (Reply_Readlink (c_string [47, 120]), w'')"
    by (rule fuse_symlink_readlink [OF example_world(1,2) example_creates])
      (simp_all add: c example_dir_room [simplified] example_link_room)
  then show ?thesis unfolding c by blast
qed

section \<open>Sequences of requests\<close>

inductive_cases fs_spec_writeE: "fs_spec lib m (Req_Write i buf sz off) r m'"
inductive_cases fs_spec_readE: "fs_spec lib m (Req_Read i sz off) r m'"

text \<open>C1: Serving requests implements the file system: whatever requests the kernel sends, each one ready
  when its turn comes, all are answered, and the replies and the files they leave are those of a map from
  inode numbers to files on which every request is one step of \<open>fs_spec\<close>. The cache, the flushes on
  revoked locks, the stubs and the blocks on the disk do not show.\<close>

theorem requests_refine_spec:
  assumes "fs_inv w" and "ready_run files fs_room lib (mount time_at lost bare junk revoked) a0 i0 w qs"
  shows "\<exists>rs w'. serve_all lib (mount time_at lost bare junk revoked) a0 i0 w qs = Inr (rs, w')
    \<and> spec_run lib (files w) qs rs (files w') \<and> fs_inv w'"
  using mounted.run_implements [OF assms] .

lemma example_requests:
  "ready_run files fs_room lib (mount example_clock 0 example_bare (\<lambda>_. zero_attr) (\<lambda>_ _. True)) a0 i0 example_world
     [Req_Write 1 [104, 105] 2 3, Req_Read 1 2 3]"
proof -
  let ?ops = "mount example_clock 0 example_bare (\<lambda>_. zero_attr) (\<lambda>_ _. True)" and ?d = "[0, 0, 0, 104, 105] :: bytes"
  have room: "fs_room example_world 1 (written_at (unat (3 :: u64)) (take (unat (2 :: u64)) [104, 105]) (dir_text []))"
    unfolding example_written by (rule example_world(3)) (simp add: example_written)
  obtain w1 where w: "fuseserver_write ?ops example_world 1 [104, 105] 2 3 = Inr (Reply_Write 2, w1)" "fs_room w1 1 ?d"
    "files w1 = (files example_world)(1 \<mapsto> (T_DIR, ?d))"
    using mounted.write_handler [OF example_world(1,2) _ _ _ room, of example_clock 0 example_bare "\<lambda>_. zero_attr" "\<lambda>_ _. True"]
    by (auto simp: example_written)
  then show ?thesis
    using example_world(1,2) room by auto
qed

theorem requests_refine_spec_witness:
  "\<exists>w'. serve_all example_lib example_mount zero_attr 0 example_world [Req_Write 1 [104, 105] 2 3, Req_Read 1 2 3] =
      Inr ([Reply_Write 2, Reply_Buf [104, 105]], w')
    \<and> files w' = (files example_world)(1 \<mapsto> (T_DIR, [0, 0, 0, 104, 105]))"
proof -
  let ?qs = "[Req_Write 1 [104, 105] 2 3, Req_Read 1 2 3]" and ?new = "(files example_world)(1 \<mapsto> (T_DIR, [0, 0, 0, 104, 105]))"
  obtain rs w' where r: "serve_all example_lib example_mount zero_attr 0 example_world ?qs = Inr (rs, w')"
    "spec_run example_lib (files example_world) ?qs rs (files w')"
    using requests_refine_spec [OF example_world(1) example_requests, of example_lib zero_attr 0]
    unfolding example_mount_def by blast
  then obtain r1 r2 m1 where s: "rs = [r1, r2]" "fs_spec example_lib (files example_world) (Req_Write 1 [104, 105] 2 3) r1 m1"
    "fs_spec example_lib m1 (Req_Read 1 2 3) r2 (files w')" by auto
  have m1: "r1 = Reply_Write 2" "m1 = ?new"
    using s(2) example_world(2) example_written(1) by (auto elim!: fs_spec_writeE simp: example_written simp del: dir_text_simps)
  have "r2 = Reply_Buf [104, 105]" "files w' = m1"
    using s(3) unfolding m1(2) by (auto elim!: fs_spec_readE)
  then show ?thesis using r(1) s(1) m1 by simp
qed

end
