(* ===== verification/Cluster.thy ===== *)
theory Cluster
  imports Extent_Room Lock_System
begin

text \<open>
  Many clients on one extent server: each has its own cache table, and for every extent the
  lock of the same number, with the transition system of \<open>Lock_System\<close>, says which client may
  use it. The lock client flushes an extent (\<^verbatim>\<open>lock_user::dorelease\<close>) before it sends the call
  that gives the lock back. The lemmas show that the caches together implement one map.
\<close>

section \<open>Holding a lock\<close>

text \<open>The step in which a client sends the call that gives the lock back.\<close>

definition gives :: "string \<Rightarrow> lock_sys \<Rightarrow> lock_sys \<Rightarrow> bool" where
  "gives c \<sigma> \<sigma>' \<longleftrightarrow> (\<exists>t. Rel_Req c t \<in># net \<sigma>' - net \<sigma>)"

lemma owns_kept:
  assumes "lock_step lid \<sigma> \<sigma>'" and "sys_inv lid \<sigma>" and own: "owns lid c \<sigma>" and "\<not> gives c \<sigma> \<sigma>'"
  shows "owns lid c \<sigma>'"
proof -
  have "Rel_Req c t \<notin># net \<sigma>'" for t
    using assms(4) own by (auto simp: gives_def owns_def in_diff_count not_in_iff)
  then show ?thesis using holder_moves [OF assms(1,2) own] by (simp add: owns_def)
qed

lemma gives_unique:
  assumes "lock_step lid \<sigma> \<sigma>'" and "gives c \<sigma> \<sigma>'" and "gives d \<sigma> \<sigma>'"
  shows "c = d"
proof -
  from assms(1) show ?thesis
    by cases (use assms(2,3) in \<open>auto simp: gives_def client_move_def sent_if_def call_to_def in_diff_count
      split: if_splits option.splits\<close>)
qed

section \<open>Clients and server\<close>

record 's cluster =
  k_srv :: 's
  k_tbl :: "string \<Rightarrow> cache_table"
  k_lock :: "lockid \<Rightarrow> lock_sys"

definition cluster_init :: "int \<Rightarrow> 's \<Rightarrow> 's cluster" where
  "cluster_init junk s = \<lparr>k_srv = s, k_tbl = \<lambda>_. Map.empty, k_lock = \<lambda>_. lock_sys_init junk\<rparr>"

text \<open>
  A step of the locks that gives none back; the flush and the call that give one back, when the
  server has room for what is flushed; an operation of a client on an extent between
  \<open>acquire\<close> and \<open>release\<close> of its lock. The label is the client and the operation with its status and reply.
\<close>

inductive cluster_step ::
  "'s extent_rpc \<Rightarrow> ('s \<Rightarrow> extentid \<Rightarrow> bytes \<Rightarrow> bool) \<Rightarrow> 's cluster \<Rightarrow> ((string \<times> cache_op) \<times> int \<times> cache_reply) list \<Rightarrow> 's cluster \<Rightarrow> bool"
  for rpc room where
  locking: "lock_step e (k_lock w e) \<sigma> \<Longrightarrow> (\<forall>c. \<not> gives c (k_lock w e) \<sigma>) \<Longrightarrow>
    cluster_step rpc room w [] (w\<lparr>k_lock := (k_lock w)(e := \<sigma>)\<rparr>)"
| handing: "lock_step e (k_lock w e) \<sigma> \<Longrightarrow> gives c (k_lock w e) \<sigma> \<Longrightarrow>
    (\<forall>x. k_tbl w c e = Some x \<longrightarrow> x_state x = MODIFIED \<longrightarrow> room (k_srv w) e (x_data x)) \<Longrightarrow>
    cc_flush rpc (k_tbl w c) (k_srv w) e = (ret, tbl, s) \<Longrightarrow>
    cluster_step rpc room w [] \<lparr>k_srv = s, k_tbl = (k_tbl w)(c := tbl), k_lock = (k_lock w)(e := \<sigma>)\<rparr>"
| working: "pcs (k_lock w (extent_of a)) c t = Inside \<Longrightarrow> known (k_tbl w c) a \<Longrightarrow>
    cache_step rpc junk clk a (k_tbl w c) (k_srv w) = (ret, r, tbl, s) \<Longrightarrow>
    cluster_step rpc room w [((c, a), ret, r)] (w\<lparr>k_srv := s, k_tbl := (k_tbl w)(c := tbl)\<rparr>)"

inductive cluster_run ::
  "'s extent_rpc \<Rightarrow> ('s \<Rightarrow> extentid \<Rightarrow> bytes \<Rightarrow> bool) \<Rightarrow> 's cluster \<Rightarrow> ((string \<times> cache_op) \<times> int \<times> cache_reply) list \<Rightarrow> 's cluster \<Rightarrow> bool"
  for rpc room where
  run_start: "cluster_run rpc room w [] w"
| run_step: "cluster_run rpc room w ls w' \<Longrightarrow> cluster_step rpc room w' l w'' \<Longrightarrow> cluster_run rpc room w (ls @ l) w''"

text \<open>Only the owner of a lock has its extent in the cache, so no two clients have.\<close>

definition cluster_locked :: "'s cluster \<Rightarrow> bool" where
  "cluster_locked w \<longleftrightarrow> (\<forall>e. sys_inv e (k_lock w e)) \<and> (\<forall>c e. k_tbl w c e \<noteq> None \<longrightarrow> owns e c (k_lock w e))"

lemma cluster_lockedD:
  assumes "cluster_locked w"
  shows "sys_inv e (k_lock w e)" and "k_tbl w c e \<noteq> None \<Longrightarrow> owns e c (k_lock w e)"
  using assms by (auto simp: cluster_locked_def)

lemma cached_once: "cluster_locked w \<Longrightarrow> k_tbl w c e \<noteq> None \<Longrightarrow> k_tbl w d e \<noteq> None \<Longrightarrow> c = d"
  using cluster_lockedD(2) owns_unique by blast

lemma cluster_locked_init: "cluster_locked (cluster_init junk s)"
  by (simp add: cluster_locked_def cluster_init_def sys_inv_init)

lemma own_step_locked:
  assumes inv: "cluster_locked w" and own: "owns e c (k_lock w e)" and far: "\<And>x. x \<noteq> e \<Longrightarrow> tbl x = k_tbl w c x"
  shows "cluster_locked (w\<lparr>k_srv := s, k_tbl := (k_tbl w)(c := tbl)\<rparr>)"
proof -
  have "owns x c (k_lock w x)" if "tbl x \<noteq> None" for x
    using far [of x] that own cluster_lockedD(2) [OF inv, of c x] by (cases "x = e") auto
  then show ?thesis using inv by (auto simp: cluster_locked_def)
qed

lemma cluster_step_locked:
  assumes step: "cluster_step rpc room w l w'" and inv: "cluster_locked w"
  shows "cluster_locked w'"
  using step
proof cases
  case (locking e \<sigma>)
  have "sys_inv e \<sigma>" by (rule lock_step_inv [OF locking(3) cluster_lockedD(1) [OF inv]])
  moreover have "owns e c \<sigma>" if "k_tbl w c e \<noteq> None" for c
    using owns_kept [OF locking(3) cluster_lockedD(1) [OF inv] cluster_lockedD(2) [OF inv that]] locking(4) by blast
  ultimately show ?thesis using inv locking(2) by (simp add: cluster_locked_def)
next
  case (handing e \<sigma> c ret tbl s)
  have "sys_inv e \<sigma>" by (rule lock_step_inv [OF handing(3) cluster_lockedD(1) [OF inv]])
  moreover have "owns e d \<sigma>" if "k_tbl w d e \<noteq> None" "d \<noteq> c" for d
    using owns_kept [OF handing(3) cluster_lockedD(1) [OF inv] cluster_lockedD(2) [OF inv that(1)]]
      gives_unique [OF handing(3,4)] that(2) by blast
  moreover have "tbl e = None" "tbl x \<noteq> None \<Longrightarrow> k_tbl w c x \<noteq> None" for x
    using cc_flush_tbl [OF handing(6)] by (auto split: if_splits)
  ultimately show ?thesis using inv handing(2) by (auto simp: cluster_locked_def)
next
  case (working a c t junk clk ret r tbl s)
  have "owns (extent_of a) c (k_lock w (extent_of a))"
    by (rule inside_owns [OF cluster_lockedD(1) [OF inv] working(3)])
  then show ?thesis using own_step_locked [OF inv] cache_step_far [OF working(5)] working(2) by blast
qed

lemma cluster_run_locked: "cluster_run rpc room w ls w' \<Longrightarrow> cluster_locked w \<Longrightarrow> cluster_locked w'"
  by (induction rule: cluster_run.induct) (auto intro: cluster_step_locked)

section \<open>The map of the cluster\<close>

text \<open>An extent has the contents its lock's holder sees, or the server's when the lock is free.\<close>

definition shared :: "('s \<Rightarrow> extentid \<rightharpoonup> (u32 \<times> bytes)) \<Rightarrow> 's cluster \<Rightarrow> extentid \<rightharpoonup> (u32 \<times> bytes)" where
  "shared view w e = (case fst (abs_lock (srv (k_lock w e)) e) of
       None \<Rightarrow> view (k_srv w) e
     | Some c \<Rightarrow> cview view (k_tbl w c) (k_srv w) e)"

lemma shared_cached: "cluster_locked w \<Longrightarrow> k_tbl w c e \<noteq> None \<Longrightarrow> shared view w e = cview view (k_tbl w c) (k_srv w) e"
  using cluster_lockedD(2) [of w c e] by (simp add: shared_def owns_def)

lemma shared_uncached: "(\<And>c. k_tbl w c e = None) \<Longrightarrow> shared view w e = view (k_srv w) e"
  by (simp add: shared_def cview_def split: option.splits)

lemma shared_eq:
  assumes "cluster_locked w" and "cluster_locked w'" and tbl: "\<And>c. k_tbl w' c e = k_tbl w c e"
    and srv: "view (k_srv w') e = view (k_srv w) e"
  shows "shared view w' e = shared view w e"
proof (cases "\<exists>c. k_tbl w c e \<noteq> None")
  case True
  then obtain c where "k_tbl w c e \<noteq> None" by blast
  then show ?thesis
    using shared_cached [OF assms(1), of c e view] shared_cached [OF assms(2), of c e view]
    by (simp only: cview_def srv tbl not_False_eq_True simp_thms)
next
  case False
  then show ?thesis using shared_uncached [of w e view] shared_uncached [of w' e view] tbl srv by simp
qed

definition cluster_ok :: "('s \<Rightarrow> bool) \<Rightarrow> ('s \<Rightarrow> extentid \<rightharpoonup> (u32 \<times> bytes)) \<Rightarrow> 's cluster \<Rightarrow> bool" where
  "cluster_ok good view w \<longleftrightarrow> cluster_locked w \<and> good (k_srv w) \<and> (\<forall>c. cache_ok view (k_tbl w c) (k_srv w))"

lemma plain_step_local:
  assumes "plain_step a (m, UNIV) = Some (r, m1, U)" and "n (extent_of a) = m (extent_of a)"
  shows "plain_step a (n, UNIV) = Some (r, n(extent_of a := m1 (extent_of a)), UNIV)" and "U = UNIV"
    and "x \<noteq> extent_of a \<Longrightarrow> m1 x = m x"
  using assms by (cases a; auto split: option.splits)+

lemma plain_run_append:
  "plain_run (xs @ ys) p = Some (rs, q) \<Longrightarrow>
     \<exists>rs1 p1 rs2. plain_run xs p = Some (rs1, p1) \<and> plain_run ys p1 = Some (rs2, q) \<and> rs = rs1 @ rs2"
proof (induction xs arbitrary: p rs)
  case (Cons x xs)
  then obtain r p1 rs0 where x: "plain_step x p = Some (r, p1)" "plain_run (xs @ ys) p1 = Some (rs0, q)" "rs = r # rs0"
    by (auto split: option.splits)
  from Cons.IH [OF x(2)] x(1,3) show ?case by auto
qed simp

text \<open>Without removals no cache holds a removed extent.\<close>

definition unremoved :: "'s cluster \<Rightarrow> bool" where
  "unremoved w \<longleftrightarrow> (\<forall>c e x. k_tbl w c e = Some x \<longrightarrow> x_state x \<noteq> REMOVED)"

definition no_removal :: "((string \<times> cache_op) \<times> int \<times> cache_reply) list \<Rightarrow> bool" where
  "no_removal ls \<longleftrightarrow> (\<forall>l \<in> set ls. \<forall>e. snd (fst l) \<noteq> Remove e)"

lemma unremoved_upd:
  assumes "unremoved w" and "\<And>x y. tbl x = Some y \<Longrightarrow> x_state y = REMOVED \<Longrightarrow> \<exists>z. k_tbl w c x = Some z \<and> x_state z = REMOVED"
  shows "unremoved (w\<lparr>k_srv := s, k_tbl := (k_tbl w)(c := tbl)\<rparr>)"
proof -
  have "x_state y \<noteq> REMOVED" if "tbl x = Some y" for x y
    using assms(2) [OF that] assms(1) unfolding unremoved_def by blast
  then show ?thesis using assms(1) by (auto simp: unremoved_def)
qed

lemma cluster_step_unremoved:
  assumes step: "cluster_step rpc room w l w'" and w: "unremoved w" and l: "no_removal l"
  shows "unremoved w'"
  using step
proof cases
  case (handing e \<sigma> c ret tbl s)
  have "unremoved (w\<lparr>k_srv := s, k_tbl := (k_tbl w)(c := tbl)\<rparr>)"
    by (rule unremoved_upd [OF w]) (use cc_flush_tbl [OF handing(6)] in \<open>auto split: if_splits\<close>)
  then show ?thesis using handing(2) by (simp add: unremoved_def)
next
  case (working a c t junk clk ret r tbl s)
  have "\<forall>e. a \<noteq> Remove e" using l working(1) by (simp add: no_removal_def)
  then show ?thesis using unremoved_upd [OF w, of tbl c s] cache_step_removed [OF working(5)] working(2) by blast
qed (use w in \<open>simp add: unremoved_def\<close>)

context roomy_service
begin

abbreviation "global \<equiv> shared view"
abbreviation "coherent \<equiv> cluster_ok inv view"

lemma locking_keeps:
  assumes ok: "coherent w" and "cluster_locked w'" and "k_tbl w' = k_tbl w" and "k_srv w' = k_srv w"
  shows "coherent w'" and "global w' = global w"
  using assms shared_eq [of w w' _ view] by (auto simp: cluster_ok_def)

lemma handing_keeps:
  assumes ok: "coherent w" and "cluster_locked w'" and tbl: "k_tbl w' = (k_tbl w)(c := tbl)" and s: "k_srv w' = s"
    and room: "\<forall>x. k_tbl w c e = Some x \<longrightarrow> x_state x = MODIFIED \<longrightarrow> room (k_srv w) e (x_data x)"
    and bare: "\<forall>x. k_tbl w c e = Some x \<longrightarrow> x_state x = REMOVED \<longrightarrow> removes_bare"
    and run: "cc_flush rpc (k_tbl w c) (k_srv w) e = (ret, tbl, s)"
  shows "coherent w'" and "global w' = global w"
proof -
  have wok: "cluster_locked w" "inv (k_srv w)" "agrees (k_tbl w d) (k_srv w)" for d using ok by (simp_all add: cluster_ok_def)
  obtain f: "inv s" "tbl = (k_tbl w c)(e := None)" "view s = (view (k_srv w))(e := seen (k_tbl w c) (k_srv w) e)"
    using cache_flush_any [OF wok(2,3) _ _ run] room bare by blast
  have alone: "k_tbl w d e = None" if "k_tbl w c e \<noteq> None" "d \<noteq> c" for d
    using cached_once [OF wok(1) that(1)] that(2) by blast
  have same: "view s = view (k_srv w)" if "k_tbl w c e = None"
    using f(3) that by (simp add: cview_def fun_upd_idem)
  have "agrees (k_tbl w' d) s" for d
  proof (cases "k_tbl w c e = None")
    case True
    then show ?thesis using wok(3) [of d] wok(3) [of c] f(2) cache_ok_same [OF _ same [OF True]] by (simp add: tbl fun_upd_idem)
  next
    case False
    have "k_tbl w' d e = None" using alone [OF False] f(2) by (simp add: tbl)
    then show ?thesis using wok(3) [of d] f by (auto simp: tbl cache_ok_def)
  qed
  then show "coherent w'" using f(1) assms(2) by (simp add: cluster_ok_def s)
  show "global w' = global w"
  proof
    fix x
    show "global w' x = global w x"
    proof (cases "x = e \<and> k_tbl w c e \<noteq> None")
      case True
      then have "global w' e = view s e"
        using shared_uncached [of w' e view] alone f(2) by (simp add: tbl s)
      then show ?thesis using True shared_cached [OF wok(1), of c e view] f(3) by simp
    next
      case False
      have "view s x = view (k_srv w) x" using False f(3) same by (cases "x = e") auto
      then show ?thesis
        using False f(2) by (intro shared_eq [OF wok(1) assms(2)]) (auto simp: tbl s)
    qed
  qed
qed

text \<open>The owner of a lock changes the cached contents of its extent and nothing else.\<close>

lemma own_step:
  assumes ok: "coherent w" and safe: "cluster_locked w'" and own: "owns e c (k_lock w e)"
    and w': "w' = w\<lparr>k_srv := s, k_tbl := (k_tbl w)(c := tbl)\<rparr>"
    and s: "inv s" "view s = view (k_srv w)" "agrees tbl s" and far: "\<And>x. x \<noteq> e \<Longrightarrow> tbl x = k_tbl w c x"
  shows "coherent w'" and "global w' = (global w)(e := seen tbl s e)"
proof -
  have wok: "cluster_locked w" "agrees (k_tbl w d) (k_srv w)" for d using ok by (simp_all add: cluster_ok_def)
  show "coherent w'"
    using safe s(1,3) wok(2) cache_ok_same [OF _ s(2)] by (auto simp: cluster_ok_def w')
  have "global w' e = seen tbl s e"
    using own by (simp add: shared_def owns_def w')
  moreover have "global w' x = global w x" if x: "x \<noteq> e" for x
    using s(2) far [OF x] x by (intro shared_eq [OF wok(1) safe]) (auto simp: w')
  ultimately show "global w' = (global w)(e := seen tbl s e)" by auto
qed

lemma working_does:
  assumes ok: "coherent w" and "cluster_locked w'" and in_cs: "pcs (k_lock w (extent_of a)) c t = Inside"
    and run: "cache_step rpc junk clk a (k_tbl w c) (k_srv w) = (ret, r, tbl, s)" and known: "known (k_tbl w c) a"
    and w': "w' = w\<lparr>k_srv := s, k_tbl := (k_tbl w)(c := tbl)\<rparr>"
    and plain: "plain_step a (global w, UNIV) = Some (r', m', U)"
  shows "coherent w'" and "global w' = m'" and "ret = 0 \<and> r = r'"
proof -
  let ?e = "extent_of a"
  have wok: "cluster_locked w" "inv (k_srv w)" "agrees (k_tbl w d) (k_srv w)" for d using ok by (simp_all add: cluster_ok_def)
  have own: "owns ?e c (k_lock w ?e)" by (rule inside_owns [OF cluster_lockedD(1) [OF wok(1)] in_cs])
  then have at: "global w ?e = seen (k_tbl w c) (k_srv w) ?e" by (simp add: shared_def owns_def)
  note mine = plain_step_local [OF plain, of "seen (k_tbl w c) (k_srv w)", OF at [symmetric]]
  from cache_step_law [where junk = junk and clk = clk, OF wok(2,3) mine(1) known] run have
    d: "ret = 0" "r = r'" "inv s" "view s = view (k_srv w)" "agrees tbl s"
      "seen tbl s = (seen (k_tbl w c) (k_srv w))(?e := m' ?e)" "\<And>x. x \<noteq> ?e \<Longrightarrow> tbl x = k_tbl w c x" by auto
  note step = own_step [OF ok assms(2) own w' d(3-5,7)]
  show "ret = 0 \<and> r = r'" and "coherent w'" using d step(1) by simp_all
  show "global w' = m'" using step(2) d(6) mine(3) by auto
qed

lemma cluster_step_refines:
  assumes step: "cluster_step rpc room w l w'" and ok: "coherent w" and tidy: "removes_bare \<or> unremoved w"
    and plain: "plain_run (map (snd \<circ> fst) l) (global w, UNIV) = Some (rs, q)"
  shows "coherent w' \<and> map snd l = map (Pair 0) rs \<and> q = (global w', UNIV)"
proof -
  have safe: "cluster_locked w'"
    using cluster_step_locked [OF step] ok by (simp add: cluster_ok_def)
  from step show ?thesis
  proof cases
    case (locking e \<sigma>)
    then show ?thesis using locking_keeps [OF ok safe] plain by simp
  next
    case (handing e \<sigma> c ret tbl s)
    have w': "k_tbl w' = (k_tbl w)(c := tbl)" "k_srv w' = s" using handing(2) by simp_all
    have "\<forall>x. k_tbl w c e = Some x \<longrightarrow> x_state x = REMOVED \<longrightarrow> removes_bare" using tidy by (auto simp: unremoved_def)
    from handing_keeps [OF ok safe w' handing(5) this handing(6)] show ?thesis using handing(1) plain by simp
  next
    case (working a c t junk clk ret r tbl s)
    obtain r' m' U where one: "plain_step a (global w, UNIV) = Some (r', m', U)" "rs = [r']" "q = (m', U)"
      using plain working(1) by (auto split: option.splits)
    have "U = UNIV" by (rule plain_step_local(2) [where n = "global w", OF one(1) refl])
    then show ?thesis
      using working_does [OF ok safe working(3,5,4,2) one(1)] working(1) one(2,3) by simp
  qed
qed

lemma cluster_run_refines:
  assumes "cluster_run rpc room w ls w'" and "coherent w" and "plain_run (map (snd \<circ> fst) ls) (global w, UNIV) = Some (rs, q)"
    and "removes_bare \<or> unremoved w \<and> no_removal ls"
  shows "coherent w' \<and> map snd ls = map (Pair 0) rs \<and> q = (global w', UNIV) \<and> (removes_bare \<or> unremoved w')"
  using assms
proof (induction arbitrary: rs q rule: cluster_run.induct)
  case (run_step w ls w' l w'')
  obtain rs1 p1 rs2 where p: "plain_run (map (snd \<circ> fst) ls) (global w, UNIV) = Some (rs1, p1)"
    "plain_run (map (snd \<circ> fst) l) p1 = Some (rs2, q)" "rs = rs1 @ rs2"
    using plain_run_append [OF run_step.prems(2) [unfolded map_append]] by blast
  have tidy: "removes_bare \<or> unremoved w \<and> no_removal ls" "removes_bare \<or> no_removal l"
    using run_step.prems(3) by (auto simp: no_removal_def)
  from run_step.IH [OF run_step.prems(1) p(1) tidy(1)]
  have ih: "coherent w'" "map snd ls = map (Pair 0) rs1" "p1 = (global w', UNIV)" "removes_bare \<or> unremoved w'" by auto
  have "removes_bare \<or> unremoved w''" using cluster_step_unremoved [OF run_step.hyps(2)] ih(4) tidy(2) by blast
  with cluster_step_refines [OF run_step.hyps(2) ih(1,4) p(2) [unfolded ih(3)]] ih(2) p(3) show ?case by simp
qed auto

end

end
