(* ===== verification/Cluster_Properties.thy ===== *)
theory Cluster_Properties
  imports Cluster Cache_Properties Lock_Properties
begin

text \<open>
  The properties of many caching clients that share extents under the lock protocol, with a
  run of two clients in which a write of the first reaches the second.
\<close>

section \<open>A run of two clients\<close>

text \<open>
  The run of \<open>Lock_Properties\<close> goes on: client a is told to give lock 1 back and does so when it
  leaves its section; the server tells client b to ask again, and b enters.
\<close>

definition told :: client_table where
  "told = [1 \<mapsto> \<lparr>c_status = CAcquiring, c_revoke = False, c_retry = True\<rparr>]"

definition free_server :: lock_server_cache where
  "free_server = \<lparr>nacquire = 0, lock_table = [1 \<mapsto> \<lparr>clientId = [], clientQ = [cb], clientS = {cb}, e_status = SWaiting\<rparr>]\<rparr>"

definition passed_server :: lock_server_cache where
  "passed_server = \<lparr>nacquire = 0, lock_table = [1 \<mapsto> \<lparr>clientId = cb, clientQ = [], clientS = {}, e_status = SLocked\<rparr>]\<rparr>"

definition "run7 = client_move ca 0 leaving Releasing {#} {#Rel_Req ca 0#} run6"
definition "run8 = run7\<lparr>srv := free_server, net := {#Acq_Rep cb 1 LRETRY, Rel_Rep ca 0, Retry_Call cb#}\<rparr>"
definition "run9 = client_move cb 1 asking Awaiting {#Acq_Rep cb 1 LRETRY#} {#} run8"
definition "run10 = client_move cb 2 told Out {#Retry_Call cb#} {#} run9"
definition "run11 = client_move cb 1 asking Calling {#} {#Acq_Req cb 1#} run10"
definition "run12 = run11\<lparr>srv := passed_server, net := {#Rel_Rep ca 0, Acq_Rep cb 1 LOK#}\<rparr>"
definition "run13 = client_move cb 1 entered Inside {#Acq_Rep cb 1 LOK#} {#} run12"

lemmas more_runs = run_defs run6_def run7_def run8_def run9_def run10_def run11_def run12_def run13_def

lemma step7: "lock_step 1 run6 run7"
proof -
  have "lcc_release True (ctab run6 ca) 1 = Inr (Flush_Call, leaving)"
    by (simp add: more_runs lcc_defs leaving_def)
  from lock_step_of.release [OF _ this, of 0] show ?thesis by (simp add: more_runs sent_if_def)
qed

lemma step8: "lock_step 1 run7 run8"
proof -
  have "lsc_release (srv run7) 1 ca = (LOK, Some cb, free_server)"
    by (simp add: more_runs lsc_release_def release_entry_def wanted_server_def free_server_def)
  from lock_step_of.serve_release [OF _ this, of 0] show ?thesis by (simp add: more_runs call_to_def add_mset_commute)
qed

lemma step9: "lock_step 1 run8 run9"
proof -
  have "lcc_acquire_reply (ctab run8 cb) 1 LRETRY = (Wait_Retry, asking)"
    by (simp add: more_runs lcc_defs asking_def lock_at_def)
  from lock_step_of.acquire_reply [OF _ _ this, of 1] show ?thesis by (simp add: more_runs sent_if_def)
qed

lemma step10: "lock_step 1 run9 run10"
proof -
  have "lcc_retry (ctab run9 cb) 1 = told"
    by (simp add: more_runs lcc_defs asking_def told_def lock_at_def)
  with lock_step_of.retry [where c = cb and t = 2 and \<sigma> = run9 and lid = 1] show ?thesis by (simp add: more_runs)
qed

lemma step11: "lock_step 1 run10 run11"
proof -
  have "lcc_retried (ctab run10 cb) 1 = (Call_Server, asking)"
    by (simp add: more_runs lcc_defs asking_def told_def lock_at_def)
  from lock_step_of.retried [OF _ this, of 1] show ?thesis by (simp add: more_runs sent_if_def)
qed

lemma step12: "lock_step 1 run11 run12"
proof -
  have "lsc_acquire (srv run11) 1 cb = Inr (LOK, None, passed_server)"
    by (simp add: more_runs lsc_acquire_def acquire_entry_def free_server_def passed_server_def)
  from lock_step_of.serve_acquire [OF _ this, of 1] show ?thesis by (simp add: more_runs call_to_def add_mset_commute)
qed

lemma step13: "lock_step 1 run12 run13"
proof -
  have "lcc_acquire_reply (ctab run12 cb) 1 LOK = (Return LOK, entered)"
    by (simp add: more_runs lcc_defs asking_def entered_def lock_at_def)
  from lock_step_of.acquire_reply [OF _ _ this, of 1] show ?thesis by (simp add: more_runs sent_if_def)
qed

lemma run_gives:
  "gives c (lock_sys_init 0) run1 \<longleftrightarrow> False" "gives c run1 run2 \<longleftrightarrow> False" "gives c run2 run3 \<longleftrightarrow> False"
  "gives c run3 run4 \<longleftrightarrow> False" "gives c run4 run5 \<longleftrightarrow> False" "gives c run5 run6 \<longleftrightarrow> False"
  "gives c run6 run7 \<longleftrightarrow> c = ca" "gives c run7 run8 \<longleftrightarrow> False" "gives c run8 run9 \<longleftrightarrow> False"
  "gives c run9 run10 \<longleftrightarrow> False" "gives c run10 run11 \<longleftrightarrow> False" "gives c run11 run12 \<longleftrightarrow> False"
  "gives c run12 run13 \<longleftrightarrow> False"
  by (auto simp: gives_def more_runs in_diff_count)

text \<open>The cluster of the run: only the lock of extent 1 ever moves.\<close>

definition two_clients :: "lock_sys \<Rightarrow> (string \<Rightarrow> cache_table) \<Rightarrow> server \<Rightarrow> server cluster" where
  "two_clients \<sigma> tbl s = \<lparr>k_srv = s, k_tbl = tbl, k_lock = (\<lambda>_. lock_sys_init 0)(1 := \<sigma>)\<rparr>"

lemma lock_move_step:
  "lock_step 1 \<sigma> \<sigma>' \<Longrightarrow> (\<And>c. gives c \<sigma> \<sigma>' \<longleftrightarrow> False) \<Longrightarrow>
     cluster_step rpc room (two_clients \<sigma> tbl s) [] (two_clients \<sigma>' tbl s)"
  using locking [of 1 "two_clients \<sigma> tbl s" \<sigma>' rpc room] by (simp add: two_clients_def)

lemma lock_move:
  assumes "cluster_run rpc room w ls (two_clients \<sigma> tbl s)" and "lock_step 1 \<sigma> \<sigma>'" and "\<And>c. gives c \<sigma> \<sigma>' \<longleftrightarrow> False"
  shows "cluster_run rpc room w ls (two_clients \<sigma>' tbl s)"
  using run_step [OF assms(1) lock_move_step [OF assms(2,3)]] by simp

lemma work_move:
  assumes "cluster_run rpc room w ls (two_clients \<sigma> tbl s)" and "pcs \<sigma> c t = Inside" and "extent_of a = 1"
    and "known (tbl c) a" and "cache_step rpc junk clk a (tbl c) s = (ret, r, tbl', s')"
  shows "cluster_run rpc room w (ls @ [((c, a), ret, r)]) (two_clients \<sigma> (tbl(c := tbl')) s')"
proof -
  have "cluster_step rpc room (two_clients \<sigma> tbl s) [((c, a), ret, r)]
      ((two_clients \<sigma> tbl s)\<lparr>k_srv := s', k_tbl := (k_tbl (two_clients \<sigma> tbl s))(c := tbl')\<rparr>)"
    by (rule cluster_step.working [where t = t and junk = junk and clk = clk]) (use assms(2-5) in \<open>simp_all add: two_clients_def\<close>)
  from run_step [OF assms(1) this] show ?thesis by (simp add: two_clients_def)
qed

lemma hand_move_step:
  assumes "\<forall>x. tbl ca 1 = Some x \<longrightarrow> x_state x = MODIFIED \<longrightarrow> room s 1 (x_data x)"
    and "cc_flush rpc (tbl ca) s 1 = (ret, tbl', s')"
  shows "cluster_step rpc room (two_clients run6 tbl s) [] (two_clients run7 (tbl(ca := tbl')) s')"
  using handing [of 1 "two_clients run6 tbl s" run7 ca room rpc ret tbl' s'] step7 run_gives(7) assms
  by (simp add: two_clients_def)

lemma hand_move:
  assumes "cluster_run rpc room w ls (two_clients run6 tbl s)" and x: "tbl ca 1 = Some x" "room s 1 (x_data x)"
    and "cc_flush rpc (tbl ca) s 1 = (ret, tbl', s')"
  shows "cluster_run rpc room w ls (two_clients run7 (tbl(ca := tbl')) s')"
  by (rule run_step [OF assms(1) hand_move_step [where tbl = tbl], simplified]) (use x assms(4) in simp_all)

section \<open>Sharing through caches\<close>

text \<open>C4: Coherence. Any number of clients, each with its own cache, that use extents under their locks are
  together one map of files: in every interleaving the operations reply, with status \<open>OK\<close>, what a
  plain map replies to the same sequence of operations, and the map seen through the
  lock holders' caches is the plain map at the end. So every read sees the last write of any client.
  If extents are removed, this takes a flush whose call without reply argument does remove.\<close>

theorem cluster_refines_map:
  assumes "server_inv s" and "cluster_run (direct_rpc time_at lost bare) server_room (cluster_init junk s) ls w"
    and "plain_run (map (snd \<circ> fst) ls) (server_view s, UNIV) = Some (rs, m, U)"
    and "no_removal ls \<or> bare = rpc_remove (direct_rpc time_at lost bare')"
  shows "map snd ls = map (Pair 0) rs \<and> shared server_view w = m \<and> server_inv (k_srv w)"
proof -
  let ?w = "cluster_init junk s"
  have ok: "cluster_ok server_inv server_view ?w"
    using assms(1) by (simp add: cluster_ok_def cluster_locked_init) (simp add: cluster_init_def empty_cache_ok)
  have "shared server_view ?w = server_view s"
    by (rule ext, subst shared_uncached) (simp_all add: cluster_init_def)
  moreover have "direct_roomy.removes_bare time_at lost bare \<or> unremoved ?w \<and> no_removal ls"
    using assms(4) direct_removes_bare by (auto simp: unremoved_def cluster_init_def)
  ultimately show ?thesis
    using direct_roomy.cluster_run_refines [OF assms(2) ok] assms(3) by (simp add: cluster_ok_def)
qed

lemma example_start:
  "cluster_run example_rpc server_room (cluster_init 0 example_server) [] (two_clients run3 (\<lambda>_. Map.empty) example_server)"
proof -
  let ?w = "cluster_init 0 example_server :: server cluster"
  have "cluster_run example_rpc server_room ?w [] (two_clients (lock_sys_init 0) (\<lambda>_. Map.empty) example_server)"
    using run_start [of example_rpc server_room ?w] by (simp add: two_clients_def cluster_init_def fun_upd_idem)
  then show ?thesis
    using lock_move [OF lock_move [OF lock_move [OF _ step1 run_gives(1)] step2 run_gives(2)] step3 run_gives(3)] by blast
qed

lemma example_inside: "pcs run3 ca 0 = Inside" "pcs run13 cb 1 = Inside"
  by (simp_all add: more_runs)

lemma example_sharing:
  "\<exists>r1 r2 r3 tbl s. cluster_run example_rpc server_room (cluster_init 0 example_server)
     [((ca, Get 1), r1), ((ca, Put 1 [104, 105]), r2), ((cb, Get 1), r3)] (two_clients run13 tbl s)"
proof -
  let ?w = "cluster_init 0 example_server :: server cluster" and ?none = "\<lambda>_ :: string. Map.empty :: cache_table"
  obtain tbl s where c: "cc_get example_rpc zero_attr example_clock Map.empty example_server 1 [] = (0, [], tbl, s)"
    "server_inv s" "cache_ok server_view tbl s" "cview server_view tbl s 1 = Some (1, [])" "tbl 1 \<noteq> None"
    "server_room s 1 [104, 105]" using example_cached by blast
  obtain tbl1 x where p: "cc_put zero_attr example_clock tbl 1 [104, 105] = (0, tbl1)" "tbl1 1 = Some x" "x_data x = [104, 105]"
    using direct.cache_put [OF c(3,4), of zero_attr example_clock "[104, 105]"] c(5) by blast
  obtain ret tbl2 s2 where f: "cc_flush example_rpc tbl1 s 1 = (ret, tbl2, s2)" by (cases "cc_flush example_rpc tbl1 s 1")
  obtain ret3 b tbl3 s3 where g: "cc_get example_rpc zero_attr example_clock Map.empty s2 1 [] = (ret3, b, tbl3, s3)"
    by (cases "cc_get example_rpc zero_attr example_clock Map.empty s2 1 []")
  let ?t1 = "?none(ca := tbl)"
  let ?t2 = "?t1(ca := tbl1)"
  let ?t3 = "?t2(ca := tbl2)"
  have "cache_step example_rpc zero_attr example_clock (Get 1) (?none ca) example_server = (0, Data [], tbl, s)"
    "cache_step example_rpc zero_attr example_clock (Put 1 [104, 105]) (?t1 ca) s = (0, Done, tbl1, s)"
    "cache_step example_rpc zero_attr example_clock (Get 1) (?t3 cb) s2 = (ret3, Data b, tbl3, s3)"
    using c(1) p(1) g by simp_all
  note steps = this
  have k: "known (?t1 ca) (Put 1 [104, 105])" "?t2 ca 1 = Some x" "server_room s 1 (x_data x)"
    "cc_flush example_rpc (?t2 ca) s 1 = (ret, tbl2, s2)" using c(5,6) p(2,3) f by simp_all
  have "cluster_run example_rpc server_room ?w [((ca, Get 1), 0, Data [])] (two_clients run3 ?t1 s)"
    using work_move [OF example_start example_inside(1) _ _ steps(1)] by simp
  from work_move [OF this example_inside(1) extent_of.simps(3) k(1) steps(2)]
  have "cluster_run example_rpc server_room ?w [((ca, Get 1), 0, Data []), ((ca, Put 1 [104, 105]), 0, Done)]
      (two_clients run3 ?t2 s)" by (simp only: append.simps)
  note lock_move [OF lock_move [OF lock_move [OF this step4 run_gives(4)] step5 run_gives(5)] step6 run_gives(6)]
  from hand_move [OF this k(2) k(3,4)]
  have "cluster_run example_rpc server_room ?w [((ca, Get 1), 0, Data []), ((ca, Put 1 [104, 105]), 0, Done)]
      (two_clients run7 ?t3 s2)" .
  note lock_move [OF lock_move [OF lock_move [OF this step8 run_gives(8)] step9 run_gives(9)] step10 run_gives(10)]
  note lock_move [OF lock_move [OF lock_move [OF this step11 run_gives(11)] step12 run_gives(12)] step13 run_gives(13)]
  from work_move [OF this example_inside(2) extent_of.simps(1) known.simps(2) [THEN iffD2, OF TrueI] steps(3)]
  have "cluster_run example_rpc server_room ?w
      [((ca, Get 1), 0, Data []), ((ca, Put 1 [104, 105]), 0, Done), ((cb, Get 1), ret3, Data b)]
      (two_clients run13 (?t3(cb := tbl3)) s3)" by (simp only: append.simps)
  then show ?thesis by blast
qed

theorem cluster_refines_map_witness:
  "\<exists>w. cluster_run example_rpc server_room (cluster_init 0 example_server)
     [((ca, Get 1), 0, Data []), ((ca, Put 1 [104, 105]), 0, Done), ((cb, Get 1), 0, Data [104, 105])] w
     \<and> shared server_view w 1 = Some (T_DIR, [104, 105])"
proof -
  obtain r1 r2 r3 tbl s where w: "cluster_run example_rpc server_room (cluster_init 0 example_server)
     [((ca, Get 1), r1), ((ca, Put 1 [104, 105]), r2), ((cb, Get 1), r3)] (two_clients run13 tbl s)"
    using example_sharing by blast
  have n: "no_removal [((ca, Get 1), r1), ((ca, Put 1 [104, 105]), r2), ((cb, Get 1), r3)]" by (simp add: no_removal_def)
  have "plain_run [Get 1, Put 1 [104, 105], Get 1] (server_view example_server, UNIV) =
      Some ([Data [], Done, Data [104, 105]], (server_view example_server)(1 \<mapsto> (T_DIR, [104, 105])), UNIV)"
    using example_server(2) by simp
  with cluster_refines_map [OF example_server(1) w _ disjI1 [OF n]] have "r1 = (0, Data [])" "r2 = (0, Done)" "r3 = (0, Data [104, 105])"
    "shared server_view (two_clients run13 tbl s) 1 = Some (T_DIR, [104, 105])" by auto
  with w show ?thesis by blast
qed

end
