(* ===== verification/File_Calls.thy ===== *)
theory File_Calls
  imports Yfs_Store
begin

text \<open>
  The calls of \<^verbatim>\<open>yfs_client.cc\<close> that touch no extent but the one they lock, cut at every
  operation on the extent client: a body is a tree of operations, each of which tells how the call
  goes on. \<open>call_is_body\<close> says that a call takes the lock, runs its body and gives the lock
  up; \<open>File_Cluster\<close> lets the bodies of many clients interleave.
\<close>

section \<open>Bodies of calls\<close>

text \<open>What an operation hands on: the status, type and size of attributes, or the contents.\<close>

datatype 'r body =
    Reply 'r
  | Get_Attr "int \<times> u32 \<times> u32 \<Rightarrow> 'r body"
  | Get_Data "bytes \<Rightarrow> 'r body"
  | Put_Data bytes "'r body"
  | Flush_Data "'r body"

text \<open>\<open>a0\<close> is the indeterminate value of the local variable that receives the attributes.\<close>

fun body_step :: "'w client_ops \<Rightarrow> attr \<Rightarrow> inum \<Rightarrow> 'r body \<Rightarrow> 'w \<Rightarrow> 'r body \<times> 'w" where
  "body_step ops a0 i (Reply r) w = (Reply r, w)"
| "body_step ops a0 i (Get_Attr k) w = (let (ret, a, w') = op_getattr ops w i a0 in (k (ret, a_type a, a_size a), w'))"
| "body_step ops a0 i (Get_Data k) w = (let (_, d, w') = op_get ops w i [] in (k d, w'))"
| "body_step ops a0 i (Put_Data d b) w = (let (_, w') = op_put ops w i d in (b, w'))"
| "body_step ops a0 i (Flush_Data b) w = (let (_, w') = op_flush ops w i in (b, w'))"

primrec run_body :: "'w client_ops \<Rightarrow> attr \<Rightarrow> inum \<Rightarrow> 'r body \<Rightarrow> 'w \<Rightarrow> 'r \<times> 'w" where
  "run_body ops a0 i (Reply r) = (\<lambda>w. (r, w))"
| "run_body ops a0 i (Get_Attr k) =
     (\<lambda>w. let (ret, a, w') = op_getattr ops w i a0 in run_body ops a0 i (k (ret, a_type a, a_size a)) w')"
| "run_body ops a0 i (Get_Data k) = (\<lambda>w. let (_, d, w') = op_get ops w i [] in run_body ops a0 i (k d) w')"
| "run_body ops a0 i (Put_Data d b) = (\<lambda>w. let (_, w') = op_put ops w i d in run_body ops a0 i b w')"
| "run_body ops a0 i (Flush_Data b) = (\<lambda>w. let (_, w') = op_flush ops w i in run_body ops a0 i b w')"

lemma run_body_step: "run_body ops a0 i b w = (let (b', w') = body_step ops a0 i b w in run_body ops a0 i b' w')"
  by (cases b) (simp_all split: prod.split)

text \<open>A body ends after finitely many steps with what \<open>run_body\<close> says.\<close>

lemma body_steps_end: "\<exists>n. ((\<lambda>(b, w). body_step ops a0 i b w) ^^ n) (b, w) = map_prod Reply (\<lambda>w. w) (run_body ops a0 i b w)"
proof (induction b arbitrary: w)
  case (Reply r)
  show ?case by (rule exI [of _ 0]) simp
next
  case (Get_Attr k)
  obtain ret a w' where g: "op_getattr ops w i a0 = (ret, a, w')" by (cases "op_getattr ops w i a0")
  obtain n where "((\<lambda>(b, w). body_step ops a0 i b w) ^^ n) (k (ret, a_type a, a_size a), w') =
      map_prod Reply (\<lambda>w. w) (run_body ops a0 i (k (ret, a_type a, a_size a)) w')" using Get_Attr.IH [OF rangeI] by blast
  with g show ?case by (intro exI [of _ "Suc n"]) (simp add: funpow_swap1)
next
  case (Get_Data k)
  obtain ret d w' where g: "op_get ops w i [] = (ret, d, w')" by (cases "op_get ops w i []")
  obtain n where "((\<lambda>(b, w). body_step ops a0 i b w) ^^ n) (k d, w') = map_prod Reply (\<lambda>w. w) (run_body ops a0 i (k d) w')"
    using Get_Data.IH [OF rangeI] by blast
  with g show ?case by (intro exI [of _ "Suc n"]) (simp add: funpow_swap1)
next
  case (Put_Data d b)
  obtain ret w' where g: "op_put ops w i d = (ret, w')" by (cases "op_put ops w i d")
  obtain n where "((\<lambda>(b, w). body_step ops a0 i b w) ^^ n) (b, w') = map_prod Reply (\<lambda>w. w) (run_body ops a0 i b w')"
    using Put_Data.IH by blast
  with g show ?case by (intro exI [of _ "Suc n"]) (simp add: funpow_swap1)
next
  case (Flush_Data b)
  obtain ret w' where g: "op_flush ops w i = (ret, w')" by (cases "op_flush ops w i")
  obtain n where "((\<lambda>(b, w). body_step ops a0 i b w) ^^ n) (b, w') = map_prod Reply (\<lambda>w. w) (run_body ops a0 i b w')"
    using Flush_Data.IH by blast
  with g show ?case by (intro exI [of _ "Suc n"]) (simp add: funpow_swap1)
qed

section \<open>The calls\<close>

text \<open>Requests and what they give back; of file attributes only the size, as times depend on the clock.\<close>

datatype file_call =
    Stat_Call inum fileinfo
  | Setattr_Call inum u64
  | Lookup_Call inum bytes bool inum
  | Readdir_Call inum "dirent list"
  | Read_Call inum u64 u64
  | Write_Call inum u64 u64 bytes
  | Readlink_Call inum

datatype call_reply =
    Stat_Reply int u64
  | Status_Reply int
  | Lookup_Reply int bool inum
  | Readdir_Reply int "dirent list"
  | Data_Reply int bytes
  | Write_Reply int u64

fun target :: "file_call \<Rightarrow> inum" where
  "target (Stat_Call i fin) = i"
| "target (Setattr_Call i sz) = i"
| "target (Lookup_Call i name found i0) = i"
| "target (Readdir_Call i l) = i"
| "target (Read_Call i sz off) = i"
| "target (Write_Call i sz off data) = i"
| "target (Readlink_Call i) = i"

fun perform :: "'w client_ops \<Rightarrow> attr \<Rightarrow> file_call \<Rightarrow> 'w \<Rightarrow> (call_reply \<times> 'w) res" where
  "perform ops a0 (Stat_Call i fin) w = (let (r, f, w') = getfile ops a0 w i fin in Inr (Stat_Reply r (fi_size f), w'))"
| "perform ops a0 (Setattr_Call i sz) w = (let (r, w') = setattr ops a0 w i sz in Inr (Status_Reply r, w'))"
| "perform ops a0 (Lookup_Call i name found i0) w =
     bind_res (yfs_lookup ops a0 w i name found i0) (\<lambda>(r, f, j, w'). Inr (Lookup_Reply r f j, w'))"
| "perform ops a0 (Readdir_Call i l) w =
     bind_res (yfs_readdir ops a0 w i l) (\<lambda>(r, l', w'). Inr (Readdir_Reply r l', w'))"
| "perform ops a0 (Read_Call i sz off) w = (let (r, d, w') = yfs_read ops w i sz off [] in Inr (Data_Reply r d, w'))"
| "perform ops a0 (Write_Call i sz off data) w =
     bind_res (yfs_write ops w i sz off data) (\<lambda>(r, n, w'). Inr (Write_Reply r n, w'))"
| "perform ops a0 (Readlink_Call i) w = (let (r, d, w') = yfs_readlink ops w i [] in Inr (Data_Reply r d, w'))"

definition getfile_body :: "fileinfo \<Rightarrow> call_reply res body" where
  "getfile_body fin = Get_Attr (\<lambda>(ret, ty, sz). Reply (Inr (if ret \<noteq> 0 then Stat_Reply (yfs_code YIOERR) (fi_size fin)
     else Stat_Reply (yfs_code YOK) (ucast sz))))"

definition setattr_body :: "u64 \<Rightarrow> call_reply res body" where
  "setattr_body sz = Get_Attr (\<lambda>(ret, ty, have). if ret \<noteq> 0 then Reply (Inr (Status_Reply ret))
     else Get_Data (\<lambda>buf. Put_Data (resized_to have sz buf) (Reply (Inr (Status_Reply (yfs_code YOK))))))"

definition lookup_body :: "bytes \<Rightarrow> bool \<Rightarrow> inum \<Rightarrow> call_reply res body" where
  "lookup_body name found i0 = Get_Attr (\<lambda>(ret, ty, sz).
     if ty \<noteq> T_DIR then Reply (Inr (Lookup_Reply (yfs_code YEXIST) found i0))
     else Get_Data (\<lambda>buf. Reply (case first_named name (dir_entries buf) of
            Some n \<Rightarrow> bind_res (n2i n) (\<lambda>i. Inr (Lookup_Reply (yfs_code YOK) True i))
          | None \<Rightarrow> Inr (Lookup_Reply (yfs_code YIOERR) False i0))))"

definition readdir_body :: "dirent list \<Rightarrow> call_reply res body" where
  "readdir_body l = Get_Attr (\<lambda>(ret, ty, sz).
     if \<not> (ret = 0 \<and> ty = T_DIR) then Reply (Inr (Readdir_Reply (yfs_code YEXIST) l))
     else Get_Data (\<lambda>buf. Reply (bind_res
            (for_each (\<lambda>(f, n) l. bind_res (n2i n) (\<lambda>i. Inr (l @ [\<lparr>de_name = uncode f, de_inum = i\<rparr>]))) (dir_entries buf) l)
            (\<lambda>l. Inr (Readdir_Reply (yfs_code YOK) l)))))"

definition read_body :: "u64 \<Rightarrow> u64 \<Rightarrow> call_reply res body" where
  "read_body sz off = Get_Data (\<lambda>data. Reply (Inr (Data_Reply (yfs_code YOK) (clip off sz data))))"

text \<open>A write that asks for more bytes than it is given reads past its buffer.\<close>

definition write_body :: "u64 \<Rightarrow> u64 \<Rightarrow> bytes \<Rightarrow> call_reply res body" where
  "write_body sz off data = (if length data < unat sz then Reply (Inl Out_Of_Bounds)
     else Get_Data (\<lambda>buf. case overwrite off sz (take (unat sz) data) buf of
       Inl e \<Rightarrow> Reply (Inl e)
     | Inr buf' \<Rightarrow> Put_Data buf' (Flush_Data (Reply (Inr (Write_Reply (yfs_code YOK) sz))))))"

definition readlink_body :: "call_reply res body" where
  "readlink_body = Get_Data (\<lambda>result. Reply (Inr (Data_Reply (yfs_code YOK) result)))"

fun body_of :: "file_call \<Rightarrow> call_reply res body" where
  "body_of (Stat_Call i fin) = getfile_body fin"
| "body_of (Setattr_Call i sz) = setattr_body sz"
| "body_of (Lookup_Call i name found i0) = lookup_body name found i0"
| "body_of (Readdir_Call i l) = readdir_body l"
| "body_of (Read_Call i sz off) = read_body sz off"
| "body_of (Write_Call i sz off data) = write_body sz off data"
| "body_of (Readlink_Call i) = readlink_body"

lemmas body_defs = getfile_body_def setattr_body_def lookup_body_def readdir_body_def read_body_def write_body_def
  readlink_body_def

definition locked_body :: "'w client_ops \<Rightarrow> attr \<Rightarrow> inum \<Rightarrow> 'r res body \<Rightarrow> 'w \<Rightarrow> ('r \<times> 'w) res" where
  "locked_body ops a0 i b w =
     (let (r, w') = run_body ops a0 i b (op_acquire ops w i) in bind_res r (\<lambda>x. Inr (x, op_release ops w' i)))"

section \<open>What the calls promise\<close>

text \<open>The reply of a call on a file and the contents it leaves, and when that is promised.\<close>

fun file_spec :: "file_call \<Rightarrow> u32 \<Rightarrow> bytes \<Rightarrow> call_reply res \<times> bytes" where
  "file_spec (Stat_Call i fin) ty d = (Inr (Stat_Reply 0 (of_nat (length d))), d)"
| "file_spec (Setattr_Call i sz) ty d = (Inr (Status_Reply 0), sized (unat sz) d)"
| "file_spec (Lookup_Call i name found i0) ty d =
     (if ty \<noteq> T_DIR then Inr (Lookup_Reply 4 found i0)
      else case first_named name (dir_entries d) of
          Some n \<Rightarrow> bind_res (n2i n) (\<lambda>j. Inr (Lookup_Reply 0 True j))
        | None \<Rightarrow> Inr (Lookup_Reply 3 False i0), d)"
| "file_spec (Readdir_Call i l) ty d =
     (if ty \<noteq> T_DIR then Inr (Readdir_Reply 4 l)
      else bind_res (for_each (\<lambda>(f, n) l. bind_res (n2i n) (\<lambda>j. Inr (l @ [\<lparr>de_name = uncode f, de_inum = j\<rparr>]))) (dir_entries d) l)
        (\<lambda>l. Inr (Readdir_Reply 0 l)), d)"
| "file_spec (Read_Call i sz off) ty d = (Inr (Data_Reply 0 (take (unat sz) (drop (unat off) d))), d)"
| "file_spec (Write_Call i sz off data) ty d =
     (Inr (Write_Reply 0 sz), written_at (unat off) (take (unat sz) data) d)"
| "file_spec (Readlink_Call i) ty d = (Inr (Data_Reply 0 d), d)"

fun in_range :: "file_call \<Rightarrow> bool" where
  "in_range (Write_Call i sz off data) \<longleftrightarrow> unat sz \<le> length data \<and> unat off + unat sz < 2 ^ 64"
| "in_range _ \<longleftrightarrow> True"

definition call_spec :: "file_call \<Rightarrow> (inum \<rightharpoonup> (u32 \<times> bytes)) \<Rightarrow> (call_reply res \<times> (inum \<rightharpoonup> (u32 \<times> bytes))) option" where
  "call_spec a m = (case m (target a) of None \<Rightarrow> None
     | Some (ty, d) \<Rightarrow> if length d < 2 ^ 32 \<and> in_range a
         then Some (fst (file_spec a ty d), m(target a \<mapsto> (ty, snd (file_spec a ty d)))) else None)"

fun calls_spec ::
  "file_call list \<Rightarrow> (inum \<rightharpoonup> (u32 \<times> bytes)) \<Rightarrow> (call_reply res list \<times> (inum \<rightharpoonup> (u32 \<times> bytes))) option" where
  "calls_spec [] m = Some ([], m)"
| "calls_spec (a # as) m = (case call_spec a m of None \<Rightarrow> None
     | Some (r, m1) \<Rightarrow> map_option (\<lambda>(rs, m'). (r # rs, m')) (calls_spec as m1))"

lemma calls_spec_append:
  "calls_spec (as @ bs) m = Some (rs, m') \<Longrightarrow>
     \<exists>rs1 m1 rs2. calls_spec as m = Some (rs1, m1) \<and> calls_spec bs m1 = Some (rs2, m') \<and> rs = rs1 @ rs2"
proof (induction as arbitrary: m rs)
  case (Cons a as)
  then obtain r m1 rs0 where a: "call_spec a m = Some (r, m1)" "calls_spec (as @ bs) m1 = Some (rs0, m')" "rs = r # rs0"
    by (auto split: option.splits)
  from Cons.IH [OF a(2)] a(1,3) show ?case by auto
qed simp

lemma calls_spec_length: "calls_spec as m = Some (rs, m') \<Longrightarrow> length rs = length as"
  by (induction as arbitrary: m rs) (auto split: option.splits)

text \<open>What a body makes of the file, and that it puts contents only while the attributes are cached.\<close>

primrec on_file :: "'r body \<Rightarrow> u32 \<Rightarrow> bytes \<Rightarrow> 'r \<times> bytes" where
  "on_file (Reply r) = (\<lambda>ty d. (r, d))"
| "on_file (Get_Attr k) = (\<lambda>ty d. on_file (k (0, ty, of_nat (length d))) ty d)"
| "on_file (Get_Data k) = (\<lambda>ty d. on_file (k d) ty d)"
| "on_file (Put_Data x b) = (\<lambda>ty d. on_file b ty x)"
| "on_file (Flush_Data b) = (\<lambda>ty d. on_file b ty d)"

primrec warmed :: "'r body \<Rightarrow> bool \<Rightarrow> bool" where
  "warmed (Reply r) = (\<lambda>warm. True)"
| "warmed (Get_Attr k) = (\<lambda>warm. \<forall>x. warmed (k x) True)"
| "warmed (Get_Data k) = (\<lambda>warm. \<forall>x. warmed (k x) True)"
| "warmed (Put_Data x b) = (\<lambda>warm. warm \<and> warmed b True)"
| "warmed (Flush_Data b) = (\<lambda>warm. warmed b False)"

lemma body_of_warmed: "warmed (body_of a) warm"
  by (cases a) (auto simp: body_defs split: sum.split)

lemma body_of_spec:
  assumes "length d < 2 ^ 32" and "in_range a"
  shows "on_file (body_of a) ty d = file_spec a ty d"
proof (cases a)
  case (Write_Call i sz off data)
  then show ?thesis
    using assms overwrite_eq [of d "take (unat sz) data" sz off] by (simp add: body_defs)
next
  case (Read_Call i sz off)
  then show ?thesis using assms clip_eq [of d off sz] by (simp add: body_defs)
next
  case (Setattr_Call i sz)
  then show ?thesis using resized_to_eq [OF assms(1), of sz] by (simp add: body_defs)
next
  case (Stat_Call i fin)
  have "ucast (of_nat (length d) :: u32) = (of_nat (length d) :: u64)"
    using assms(1) by (intro word_unat_eq_iff [THEN iffD2])
      (simp add: unsigned_ucast_eq unsigned_take_bit_eq unat_of_nat take_bit_nat_eq_self)
  then show ?thesis by (simp add: Stat_Call body_defs)
qed (auto simp: body_defs split: option.split)

lemma call_specD:
  assumes "call_spec a m = Some (r, m')"
  shows "\<exists>ty d. m (target a) = Some (ty, d) \<and> r = fst (on_file (body_of a) ty d)
    \<and> m' = m(target a \<mapsto> (ty, snd (on_file (body_of a) ty d)))"
  using assms body_of_spec [of _ a] by (auto simp: call_spec_def split: option.splits if_splits)

end
