(* ===== verification/File_Cluster.thy ===== *)
theory File_Cluster
  imports Yfs_System Cluster File_Calls
begin

text \<open>
  Whole file system calls of many clients. On top of \<open>Cluster\<close>, a thread that has the lock of an
  extent runs the bodies of \<open>File_Calls\<close> one operation at a time; between two operations
  everything else may move: other threads, clients, messages and flushes. The lemmas show that each call
  takes effect at once when it begins, on one map of files that all clients share.
\<close>

section \<open>Calls in progress\<close>

text \<open>Every call gets a number when it begins, under which its reply is reported.\<close>

type_synonym running = "inum \<times> string \<times> nat \<Rightarrow> (nat \<times> call_reply res body) option"

record 's sharing =
  f_world :: "'s cluster"
  f_calls :: running
  f_begun :: nat

datatype event = Begun string file_call | Ended nat "call_reply res"

fun calls_begun :: "event list \<Rightarrow> file_call list" where
  "calls_begun [] = []"
| "calls_begun (Begun c a # h) = a # calls_begun h"
| "calls_begun (Ended n r # h) = calls_begun h"

definition sharing_init :: "'s cluster \<Rightarrow> 's sharing" where
  "sharing_init w = \<lparr>f_world = w, f_calls = Map.empty, f_begun = 0\<rparr>"

text \<open>
  A step of locks or flushes, after which every thread in a call still has its lock; a thread with a
  lock begins a call; a call does its next operation; a call ends. The server has room
  for what a call flushes. The caching client runs inside the section, so no lock is given back there.
\<close>

inductive file_step ::
  "'s extent_rpc \<Rightarrow> ('s \<Rightarrow> extentid \<Rightarrow> bytes \<Rightarrow> bool) \<Rightarrow> 's sharing \<Rightarrow> event list \<Rightarrow> 's sharing \<Rightarrow> bool"
  for rpc room where
  moving: "cluster_step rpc room w [] w' \<Longrightarrow> (\<forall>e c t. R (e, c, t) \<noteq> None \<longrightarrow> pcs (k_lock w' e) c t = Inside) \<Longrightarrow>
    file_step rpc room \<lparr>f_world = w, f_calls = R, f_begun = n\<rparr> [] \<lparr>f_world = w', f_calls = R, f_begun = n\<rparr>"
| beginning: "pcs (k_lock w (target a)) c t = Inside \<Longrightarrow> R (target a, c, t) = None \<Longrightarrow>
    file_step rpc room \<lparr>f_world = w, f_calls = R, f_begun = n\<rparr> [Begun c a]
      \<lparr>f_world = w, f_calls = R((target a, c, t) \<mapsto> (n, body_of a)), f_begun = Suc n\<rparr>"
| acting: "R (e, c, t) = Some (k, b) \<Longrightarrow>
    (\<forall>q x. b = Flush_Data q \<and> k_tbl w c e = Some x \<and> x_state x = MODIFIED \<longrightarrow> room (k_srv w) e (x_data x)) \<Longrightarrow>
    body_step (cached_ops rpc junk time_at (\<lambda>_ _. False)) a0 e b \<lparr>w_tbl = k_tbl w c, w_srv = k_srv w, w_ticks = ticks\<rparr> = (b', v) \<Longrightarrow>
    file_step rpc room \<lparr>f_world = w, f_calls = R, f_begun = n\<rparr> []
      \<lparr>f_world = w\<lparr>k_srv := w_srv v, k_tbl := (k_tbl w)(c := w_tbl v)\<rparr>, f_calls = R((e, c, t) \<mapsto> (k, b')), f_begun = n\<rparr>"
| ending: "R (e, c, t) = Some (k, Reply r) \<Longrightarrow>
    file_step rpc room \<lparr>f_world = w, f_calls = R, f_begun = n\<rparr> [Ended k r]
      \<lparr>f_world = w, f_calls = R((e, c, t) := None), f_begun = n\<rparr>"

inductive file_run ::
  "'s extent_rpc \<Rightarrow> ('s \<Rightarrow> extentid \<Rightarrow> bytes \<Rightarrow> bool) \<Rightarrow> 's sharing \<Rightarrow> event list \<Rightarrow> 's sharing \<Rightarrow> bool"
  for rpc room where
  file_start: "file_run rpc room f [] f"
| file_next: "file_run rpc room f h g \<Longrightarrow> file_step rpc room g l g' \<Longrightarrow> file_run rpc room f (h @ l) g'"

lemma calls_begun_append [simp]: "calls_begun (h @ l) = calls_begun h @ calls_begun l"
  by (induction h rule: calls_begun.induct) simp_all

text \<open>A call in progress has its lock, and its body brings the file to what the map already says.\<close>

definition call_at ::
  "('s cluster \<Rightarrow> inum \<rightharpoonup> (u32 \<times> bytes)) \<Rightarrow> 's cluster \<Rightarrow> (inum \<rightharpoonup> (u32 \<times> bytes)) \<Rightarrow> call_reply res list \<Rightarrow>
   inum \<Rightarrow> string \<Rightarrow> nat \<Rightarrow> nat \<times> call_reply res body \<Rightarrow> bool" where
  "call_at global w m rs e c t kb \<longleftrightarrow> pcs (k_lock w e) c t = Inside \<and> fst kb < length rs
     \<and> warmed (snd kb) (k_tbl w c e \<noteq> None)
     \<and> (\<exists>ty d. global w e = Some (ty, d) \<and> rs ! fst kb = fst (on_file (snd kb) ty d)
         \<and> m e = Some (ty, snd (on_file (snd kb) ty d)))"

definition linearized ::
  "('s cluster \<Rightarrow> inum \<rightharpoonup> (u32 \<times> bytes)) \<Rightarrow> 's sharing \<Rightarrow> (inum \<rightharpoonup> (u32 \<times> bytes)) \<Rightarrow> call_reply res list \<Rightarrow> bool" where
  "linearized global f m rs \<longleftrightarrow> length rs = f_begun f
     \<and> (\<forall>e. (\<forall>c t. f_calls f (e, c, t) = None) \<longrightarrow> m e = global (f_world f) e)
     \<and> (\<forall>e c t kb. f_calls f (e, c, t) = Some kb \<longrightarrow> call_at global (f_world f) m rs e c t kb)"

lemma linearizedD:
  assumes "linearized global f m rs"
  shows "length rs = f_begun f" and "(\<And>c t. f_calls f (e, c, t) = None) \<Longrightarrow> m e = global (f_world f) e"
    and "f_calls f (e, c, t) = Some kb \<Longrightarrow> call_at global (f_world f) m rs e c t kb"
  using assms unfolding linearized_def by blast+

text \<open>A thread in its section does not give the lock back.\<close>

lemma inside_gives_not: "sys_inv lid \<sigma>' \<Longrightarrow> pcs \<sigma>' c t = Inside \<Longrightarrow> \<not> gives c \<sigma> \<sigma>'"
  using inside_owns [of lid \<sigma>' c t] by (auto simp: gives_def owns_def dest: in_diffD)

section \<open>The steps keep the map\<close>

lemma moving_keeps_table:
  assumes step: "cluster_step rpc room w [] w'" and inv: "cluster_locked w'" and at: "pcs (k_lock w' e) c t = Inside"
  shows "k_tbl w' c e = k_tbl w c e"
  using step
proof cases
  case (handing e' \<sigma> c' ret tbl s)
  have "\<not> (c' = c \<and> e' = e)"
    using inside_gives_not [of e \<sigma> c t] cluster_lockedD(1) [OF inv, of e] at handing(1,3) by auto
  then show ?thesis using handing(1) cc_flush_tbl [OF handing(5)] by auto
qed simp_all

lemma body_step_unremoved:
  assumes "body_step (cached_ops rpc junk time_at (\<lambda>_ _. False)) a0 e b \<lparr>w_tbl = tbl, w_srv = s, w_ticks = ticks\<rparr> = (b', v)"
    and "w_tbl v x = Some y" and "x_state y = REMOVED"
  shows "\<exists>z. tbl x = Some z \<and> x_state z = REMOVED"
proof (cases b)
  case (Flush_Data q)
  obtain ret tbl' s' where f: "cc_flush rpc tbl s e = (ret, tbl', s')" by (cases "cc_flush rpc tbl s e")
  show ?thesis
    using assms cc_flush_tbl [OF f] by (auto simp: Flush_Data cached_ops_simps dorelease_def f split: if_splits)
qed (use assms in \<open>auto simp: cached_ops_simps dest: cc_removed split: prod.splits\<close>)

lemma file_step_unremoved:
  assumes step: "file_step rpc room f l g" and f: "unremoved (f_world f)"
  shows "unremoved (f_world g)"
  using step
proof cases
  case (moving w w' R n)
  then show ?thesis using cluster_step_unremoved [of rpc room w "[]" w'] f by (simp add: no_removal_def)
next
  case (acting R e c t k b w junk time_at a0 ticks b' v n)
  have "unremoved (w\<lparr>k_srv := w_srv v, k_tbl := (k_tbl w)(c := w_tbl v)\<rparr>)"
    by (rule unremoved_upd) (use f acting(1) body_step_unremoved [OF acting(6)] in auto)
  then show ?thesis by (simp add: acting(3))
qed (use f in auto)

text \<open>Only the holder of a lock caches its extent or is in a call on it.\<close>

lemma body_step_far:
  assumes "body_step (cached_ops rpc junk time_at (\<lambda>_ _. False)) a0 e b \<lparr>w_tbl = tbl, w_srv = s, w_ticks = ticks\<rparr> = (b', v)"
    and "x \<noteq> e"
  shows "w_tbl v x = tbl x"
proof (cases b)
  case (Flush_Data q)
  obtain ret tbl' s' where f: "cc_flush rpc tbl s e = (ret, tbl', s')" by (cases "cc_flush rpc tbl s e")
  show ?thesis
    using assms cc_flush_tbl [OF f] by (auto simp: Flush_Data cached_ops_simps dorelease_def f)
qed (use assms in \<open>auto simp: cached_ops_simps dest: cc_far split: prod.splits\<close>)

definition calls_locked :: "'s sharing \<Rightarrow> bool" where
  "calls_locked f \<longleftrightarrow> cluster_locked (f_world f)
     \<and> (\<forall>e c t. f_calls f (e, c, t) \<noteq> None \<longrightarrow> pcs (k_lock (f_world f) e) c t = Inside)"

lemma file_step_locked:
  assumes step: "file_step rpc room f l g" and inv: "calls_locked f"
  shows "calls_locked g"
  using step
proof cases
  case (moving w w' R n)
  then show ?thesis using cluster_step_locked [OF moving(4)] inv by (simp add: calls_locked_def)
next
  case (acting R e c t k b w junk time_at a0 ticks b' v n)
  have in_cs: "pcs (k_lock w e) c t = Inside" "cluster_locked w" using inv acting(1,4) by (auto simp: calls_locked_def)
  have "cluster_locked (w\<lparr>k_srv := w_srv v, k_tbl := (k_tbl w)(c := w_tbl v)\<rparr>)"
    by (rule own_step_locked [OF in_cs(2) inside_owns [OF cluster_lockedD(1) [OF in_cs(2)] in_cs(1)] body_step_far [OF acting(6)]])
  then show ?thesis using inv in_cs(1) acting(1,3) by (auto simp: calls_locked_def)
qed (use inv in \<open>auto simp: calls_locked_def\<close>)

lemma file_run_locked: "file_run rpc room f h g \<Longrightarrow> calls_locked f \<Longrightarrow> calls_locked g"
  by (induction rule: file_run.induct) (auto intro: file_step_locked)

lemma sharing_init_locked: "calls_locked (sharing_init (cluster_init junk s))"
  by (simp add: calls_locked_def sharing_init_def cluster_locked_init)

context roomy_service
begin

lemma moving_linear:
  assumes step: "cluster_step rpc room w [] w'" and ok: "coherent w" and tidy: "unremoved w"
    and at: "\<forall>e c t. R (e, c, t) \<noteq> None \<longrightarrow> pcs (k_lock w' e) c t = Inside"
    and lin: "linearized global \<lparr>f_world = w, f_calls = R, f_begun = n\<rparr> m rs"
  shows "coherent w'" and "linearized global \<lparr>f_world = w', f_calls = R, f_begun = n\<rparr> m rs"
proof -
  have k: "coherent w'" "global w' = global w" using cluster_step_refines [OF step ok] tidy by auto
  then show "coherent w'" by simp
  have "k_tbl w' c e = k_tbl w c e" if "R (e, c, t) = Some kb" for e c t kb
    using moving_keeps_table [OF step _, of e c t] k(1) at that by (auto simp: cluster_ok_def)
  then show "linearized global \<lparr>f_world = w', f_calls = R, f_begun = n\<rparr> m rs"
    using lin at k(2) by (auto simp: linearized_def call_at_def)
qed

text \<open>One operation of a body.\<close>

lemma acting_keeps:
  assumes ok: "coherent w" and in_cs: "pcs (k_lock w e) c t = Inside" and v: "global w e = Some (ty, d)"
    and warm: "warmed b (k_tbl w c e \<noteq> None)"
    and room: "\<forall>q x. b = Flush_Data q \<and> k_tbl w c e = Some x \<and> x_state x = MODIFIED \<longrightarrow> room (k_srv w) e (x_data x)"
    and run: "body_step (cached_ops rpc junk time_at (\<lambda>_ _. False)) a0 e b
      \<lparr>w_tbl = k_tbl w c, w_srv = k_srv w, w_ticks = ticks\<rparr> = (b', \<lparr>w_tbl = tbl, w_srv = s, w_ticks = ticks'\<rparr>)"
    and w': "w' = w\<lparr>k_srv := s, k_tbl := (k_tbl w)(c := tbl)\<rparr>"
  shows "\<exists>d'. coherent w' \<and> global w' = (global w)(e \<mapsto> (ty, d')) \<and> on_file b' ty d' = on_file b ty d
    \<and> warmed b' (tbl e \<noteq> None) \<and> (\<forall>x. x \<noteq> e \<longrightarrow> tbl x = k_tbl w c x)"
proof -
  let ?tbl = "k_tbl w c" and ?s = "k_srv w"
  have wok: "cluster_locked w" "inv ?s" "agrees ?tbl ?s" using ok by (simp_all add: cluster_ok_def)
  have own: "owns e c (k_lock w e)" by (rule inside_owns [OF cluster_lockedD(1) [OF wok(1)] in_cs])
  have sv: "seen ?tbl ?s e = Some (ty, d)" using v own by (simp add: shared_def owns_def)
  have other: ?thesis
    if "inv s" "view s = view ?s" "agrees tbl s" and sx: "seen tbl s e = Some (ty, d')" and far: "\<forall>x. x \<noteq> e \<longrightarrow> tbl x = ?tbl x"
      and b: "on_file b' ty d' = on_file b ty d" "warmed b' (tbl e \<noteq> None)" for d'
  proof -
    have "cluster_locked w'" unfolding w' using own_step_locked [OF wok(1) own, of tbl s] far by blast
    from own_step [OF ok this own w' that(1-3)] far sx b show ?thesis by auto
  qed
  show ?thesis
  proof (cases b)
    case (Reply r)
    then show ?thesis using run warm wok sv by (intro other [of d]) auto
  next
    case (Get_Attr k)
    obtain a tbl1 s1 where g: "cc_getattr rpc ?tbl ?s e a0 = (0, a, tbl1, s1)" "a_type a = ty" "a_size a = of_nat (length d)"
      "inv s1" "view s1 = view ?s" "agrees tbl1 s1" "seen tbl1 s1 = seen ?tbl ?s" "tbl1 e \<noteq> None"
      using cache_getattr [OF wok(2,3) sv, of a0] by blast
    then show ?thesis
      using run warm sv cc_far(2) [OF g(1)] by (intro other [of d]) (auto simp: Get_Attr cached_ops_simps)
  next
    case (Get_Data k)
    let ?clk = "\<lambda>k. time_at (ticks + k)"
    obtain tbl1 s1 where g: "cc_get rpc (junk ticks) ?clk ?tbl ?s e [] = (0, d, tbl1, s1)"
      "inv s1" "view s1 = view ?s" "agrees tbl1 s1" "seen tbl1 s1 = seen ?tbl ?s" "tbl1 e \<noteq> None"
      using cache_get [OF wok(2,3) sv, of "junk ticks" ?clk "[]"] by blast
    then show ?thesis
      using run warm sv cc_far(1) [OF g(1)] by (intro other [of d]) (auto simp: Get_Data cached_ops_simps)
  next
    case (Put_Data x k)
    let ?clk = "\<lambda>k. time_at (ticks + k)"
    obtain tbl1 where g: "cc_put (junk ticks) ?clk ?tbl e x = (0, tbl1)" "agrees tbl1 ?s"
      "seen tbl1 ?s = (seen ?tbl ?s)(e \<mapsto> (ty, x))" "tbl1 e \<noteq> None"
      using cache_put [OF wok(3) sv, of "junk ticks" ?clk x] warm by (auto simp: Put_Data)
    then show ?thesis
      using run warm wok(2) cc_far(3) [OF g(1)] by (intro other [of x]) (auto simp: Put_Data cached_ops_simps)
  next
    case (Flush_Data k)
    obtain ret where f: "cc_flush rpc ?tbl ?s e = (ret, tbl, s)" and b': "b' = k"
      using run by (auto simp: Flush_Data cached_ops_simps dorelease_def split: prod.splits)
    have t: "tbl = ?tbl(e := None)" by (rule cc_flush_tbl [OF f])
    have "cluster_locked w'" unfolding w' using own_step_locked [OF wok(1) own, of tbl s] t by simp
    moreover have "\<forall>x. ?tbl e = Some x \<longrightarrow> x_state x = REMOVED \<longrightarrow> removes_bare" using sv by (auto simp: cview_def split: option.splits)
    moreover have "\<forall>x. ?tbl e = Some x \<longrightarrow> x_state x = MODIFIED \<longrightarrow> room ?s e (x_data x)" using room Flush_Data by blast
    ultimately show ?thesis using handing_keeps [OF ok _ _ _ _ _ f, of w'] t v warm
      by (intro exI [of _ d]) (simp add: w' b' Flush_Data fun_upd_idem)
  qed
qed

lemma acting_linear:
  assumes ok: "coherent w" and lin: "linearized global \<lparr>f_world = w, f_calls = R, f_begun = n\<rparr> m rs"
    and call: "R (e, c, t) = Some (k, b)"
    and room: "\<forall>q x. b = Flush_Data q \<and> k_tbl w c e = Some x \<and> x_state x = MODIFIED \<longrightarrow> room (k_srv w) e (x_data x)"
    and run: "body_step (cached_ops rpc junk time_at (\<lambda>_ _. False)) a0 e b \<lparr>w_tbl = k_tbl w c, w_srv = k_srv w, w_ticks = ticks\<rparr> = (b', v)"
    and w': "w' = w\<lparr>k_srv := w_srv v, k_tbl := (k_tbl w)(c := w_tbl v)\<rparr>"
  shows "coherent w'" and "linearized global \<lparr>f_world = w', f_calls = R((e, c, t) \<mapsto> (k, b')), f_begun = n\<rparr> m rs"
proof -
  have at: "call_at global w m rs e' c' t' kb" if "R (e', c', t') = Some kb" for e' c' t' kb
    using linearizedD(3) [OF lin, of e' c' t' kb] that by simp
  obtain ty d where c: "pcs (k_lock w e) c t = Inside" "k < length rs" "global w e = Some (ty, d)"
    "rs ! k = fst (on_file b ty d)" "m e = Some (ty, snd (on_file b ty d))" "warmed b (k_tbl w c e \<noteq> None)"
    using at [OF call] by (auto simp: call_at_def)
  obtain tbl s ticks' where v: "v = \<lparr>w_tbl = tbl, w_srv = s, w_ticks = ticks'\<rparr>" by (cases v)
  obtain d' where d': "coherent w'" "global w' = (global w)(e \<mapsto> (ty, d'))" "on_file b' ty d' = on_file b ty d"
    "warmed b' (tbl e \<noteq> None)" "\<forall>x. x \<noteq> e \<longrightarrow> tbl x = k_tbl w c x"
    using acting_keeps [OF ok c(1,3,6) room run [unfolded v] w' [unfolded v, simplified]] by blast
  show "coherent w'" by (rule d'(1))
  have "call_at global w' m rs e' c' t' kb"
    if r: "(R((e, c, t) \<mapsto> (k, b'))) (e', c', t') = Some kb" for e' c' t' kb
  proof (cases "e' = e")
    case True
    have in2: "pcs (k_lock w e) c' t' = Inside"
      using r c(1) at [of e c' t' kb] True by (auto simp: call_at_def split: if_splits)
    then have "c' = c" "t' = t"
      using inside_unique [OF _ in2 c(1)] cluster_lockedD(1) [of w e] ok by (auto simp: cluster_ok_def)
    then show ?thesis using r True c d' by (auto simp: call_at_def w' v)
  next
    case False
    then show ?thesis using r at [of e' c' t' kb] d' by (auto simp: call_at_def w' v)
  qed
  moreover have "m e' = global w' e'" if "\<And>c' t'. (R((e, c, t) \<mapsto> (k, b'))) (e', c', t') = None" for e'
  proof -
    have "e' \<noteq> e" using that [of c t] by auto
    then show ?thesis using that linearizedD(2) [OF lin, of e'] d'(2) by (auto split: if_splits)
  qed
  ultimately show "linearized global \<lparr>f_world = w', f_calls = R((e, c, t) \<mapsto> (k, b')), f_begun = n\<rparr> m rs"
    using linearizedD(1) [OF lin] by (simp add: linearized_def)
qed

lemma beginning_linear:
  assumes ok: "coherent w" and lin: "linearized global \<lparr>f_world = w, f_calls = R, f_begun = n\<rparr> m rs"
    and in_cs: "pcs (k_lock w (target a)) c t = Inside" and free: "R (target a, c, t) = None"
    and spec: "call_spec a m = Some (r, m')"
  shows "linearized global \<lparr>f_world = w, f_calls = R((target a, c, t) \<mapsto> (n, body_of a)), f_begun = Suc n\<rparr> m' (rs @ [r])"
proof -
  let ?e = "target a"
  have at: "call_at global w m rs e' c' t' kb" if "R (e', c', t') = Some kb" for e' c' t' kb
    using linearizedD(3) [OF lin, of e' c' t' kb] that by simp
  have n: "length rs = n" using linearizedD(1) [OF lin] by simp
  have none: "R (?e, c', t') = None" for c' t'
  proof (cases "R (?e, c', t')")
    case (Some kb)
    then have "pcs (k_lock w ?e) c' t' = Inside" using at by (auto simp: call_at_def)
    from inside_unique [OF _ this in_cs] ok have "c' = c \<and> t' = t"
      by (auto simp: cluster_ok_def intro: cluster_lockedD(1))
    then show ?thesis using free by simp
  qed
  then have glob: "m ?e = global w ?e" using linearizedD(2) [OF lin, of ?e] by simp
  obtain ty d where d: "m ?e = Some (ty, d)" "r = fst (on_file (body_of a) ty d)"
    "m' = m(?e \<mapsto> (ty, snd (on_file (body_of a) ty d)))" using call_specD [OF spec] by blast
  have "call_at global w m' (rs @ [r]) e' c' t' kb"
    if q: "(R((?e, c, t) \<mapsto> (n, body_of a))) (e', c', t') = Some kb" for e' c' t' kb
  proof (cases "e' = ?e")
    case True
    then have "c' = c" "t' = t" "kb = (n, body_of a)" using q none by (auto split: if_splits)
    then show ?thesis using True in_cs d glob n body_of_warmed by (auto simp: call_at_def nth_append)
  next
    case False
    then show ?thesis using q at [of e' c' t' kb] d(3) by (auto simp: call_at_def nth_append)
  qed
  moreover have "m' e' = global w e'" if "\<And>c' t'. (R((?e, c, t) \<mapsto> (n, body_of a))) (e', c', t') = None" for e'
  proof -
    have "e' \<noteq> ?e" using that [of c t] by auto
    then show ?thesis using that linearizedD(2) [OF lin, of e'] d(3) by (auto split: if_splits)
  qed
  ultimately show ?thesis using n by (simp add: linearized_def)
qed

lemma ending_linear:
  assumes lin: "linearized global \<lparr>f_world = w, f_calls = R, f_begun = n\<rparr> m rs" and call: "R (e, c, t) = Some (k, Reply r)"
  shows "linearized global \<lparr>f_world = w, f_calls = R((e, c, t) := None), f_begun = n\<rparr> m rs" and "k < length rs" and "rs ! k = r"
proof -
  have at: "call_at global w m rs e' c' t' kb" if "R (e', c', t') = Some kb" for e' c' t' kb
    using linearizedD(3) [OF lin, of e' c' t' kb] that by simp
  note mine = at [OF call]
  show "k < length rs" "rs ! k = r" using mine by (auto simp: call_at_def)
  have "m e' = global w e'" if none: "\<And>c' t'. (R((e, c, t) := None)) (e', c', t') = None" for e'
  proof (cases "e' = e")
    case True
    then show ?thesis using mine by (auto simp: call_at_def)
  next
    case False
    then show ?thesis using none linearizedD(2) [OF lin, of e'] by (auto split: if_splits)
  qed
  then show "linearized global \<lparr>f_world = w, f_calls = R((e, c, t) := None), f_begun = n\<rparr> m rs"
    using linearizedD(1) [OF lin] at by (auto simp: linearized_def)
qed

lemma file_step_linear:
  assumes step: "file_step rpc room f l g" and ok: "coherent (f_world f)" and tidy: "unremoved (f_world f)" and lin: "linearized global f m rs"
    and spec: "calls_spec (calls_begun l) m = Some (rs2, m')"
  shows "coherent (f_world g) \<and> linearized global g m' (rs @ rs2)
    \<and> (\<forall>k r. Ended k r \<in> set l \<longrightarrow> k < length rs \<and> rs ! k = r)"
  using step
proof cases
  case (moving w w' R n)
  have "coherent w" "linearized global \<lparr>f_world = w, f_calls = R, f_begun = n\<rparr> m rs" "unremoved w" using ok lin tidy moving(1) by simp_all
  from moving_linear [OF moving(4) this(1,3) moving(5) this(2)] show ?thesis using spec moving(2,3) by simp
next
  case (beginning w a c t R n)
  obtain r where "call_spec a m = Some (r, m')" "rs2 = [r]"
    using spec beginning(2) by (auto split: option.splits)
  moreover have "coherent w" "linearized global \<lparr>f_world = w, f_calls = R, f_begun = n\<rparr> m rs" using ok lin beginning(1) by simp_all
  ultimately show ?thesis using beginning_linear [of w R n m rs a c t r m'] beginning(2-5) by simp
next
  case (acting R e c t k b w junk time_at a0 ticks b' v n)
  have "coherent w" "linearized global \<lparr>f_world = w, f_calls = R, f_begun = n\<rparr> m rs" using ok lin acting(1) by simp_all
  from acting_linear [OF this acting(4,5,6) refl] show ?thesis using spec acting(2,3) by simp
next
  case (ending R e c t k r w n)
  have "linearized global \<lparr>f_world = w, f_calls = R, f_begun = n\<rparr> m rs" using lin ending(1) by simp
  from ending_linear [OF this ending(4)] show ?thesis using ok spec ending(1-3) by simp
qed

lemma file_run_linear:
  assumes "file_run rpc room f h g" and "coherent (f_world f)" and "unremoved (f_world f)" and "linearized global f m rs0"
    and "calls_spec (calls_begun h) m = Some (rs, m')"
  shows "coherent (f_world g) \<and> unremoved (f_world g) \<and> linearized global g m' (rs0 @ rs)
    \<and> (\<forall>k r. Ended k r \<in> set h \<longrightarrow> k < length (rs0 @ rs) \<and> (rs0 @ rs) ! k = r)"
  using assms
proof (induction arbitrary: rs m' rule: file_run.induct)
  case (file_next f h g l g')
  obtain rs1 m1 rs2 where p: "calls_spec (calls_begun h) m = Some (rs1, m1)" "calls_spec (calls_begun l) m1 = Some (rs2, m')"
    "rs = rs1 @ rs2" using calls_spec_append [OF file_next.prems(4) [unfolded calls_begun_append]] by blast
  have ih: "coherent (f_world g)" "unremoved (f_world g)" "linearized global g m1 (rs0 @ rs1)"
    "\<forall>k r. Ended k r \<in> set h \<longrightarrow> k < length (rs0 @ rs1) \<and> (rs0 @ rs1) ! k = r"
    using file_next.IH [OF file_next.prems(1,2,3) p(1)] by auto
  have now: "coherent (f_world g')" "linearized global g' m' (rs0 @ rs)"
    "\<forall>k r. Ended k r \<in> set l \<longrightarrow> k < length (rs0 @ rs1) \<and> (rs0 @ rs1) ! k = r"
    using file_step_linear [OF file_next.hyps(2) ih(1,2,3) p(2)] p(3) by auto
  have "k < length (rs0 @ rs) \<and> (rs0 @ rs) ! k = r" if "Ended k r \<in> set (h @ l)" for k r
  proof -
    have "k < length (rs0 @ rs1) \<and> (rs0 @ rs1) ! k = r" using that ih(4) now(3) by auto
    then have "k < length ((rs0 @ rs1) @ rs2) \<and> ((rs0 @ rs1) @ rs2) ! k = r" by (simp only: nth_append) simp
    then show ?thesis using p(3) by simp
  qed
  then show ?case using now file_step_unremoved [OF file_next.hyps(2) ih(2)] by blast
qed simp

end

end
