(* ===== verification/Sharing_Properties.thy ===== *)
theory Sharing_Properties
  imports File_Cluster Cluster_Properties
begin

text \<open>
  The properties of file system calls of many clients, with a run in which one client asks for a
  lock while another writes a file, and then reads what was written.
\<close>

section \<open>A run of two clients\<close>

text \<open>The run of \<open>Cluster_Properties\<close> with whole calls: client b asks for the lock in the middle of a write of client a.\<close>

definition example_run ::
  "event list \<Rightarrow> lock_sys \<Rightarrow> (string \<Rightarrow> cache_table) \<Rightarrow> server \<Rightarrow> running \<Rightarrow> nat \<Rightarrow> bool" where
  "example_run h \<sigma> tbl s R n \<longleftrightarrow> file_run example_rpc server_room (sharing_init (cluster_init 0 example_server)) h
     \<lparr>f_world = two_clients \<sigma> tbl s, f_calls = R, f_begun = n\<rparr>"

lemma run_locks:
  assumes "example_run h \<sigma> tbl s R n" and "lock_step 1 \<sigma> \<sigma>'" and "\<And>c. gives c \<sigma> \<sigma>' \<longleftrightarrow> False"
    and "\<forall>e c t. R (e, c, t) \<noteq> None \<longrightarrow> e = 1 \<and> pcs \<sigma>' c t = Inside"
  shows "example_run h \<sigma>' tbl s R n"
  using file_next [OF assms(1) [unfolded example_run_def] moving [OF lock_move_step [OF assms(2,3)]]] assms(4)
  by (auto simp: example_run_def two_clients_def)

lemma run_begins:
  assumes "example_run h \<sigma> tbl s R n" and "pcs \<sigma> c t = Inside" and "target a = 1" and "R (1, c, t) = None"
  shows "example_run (h @ [Begun c a]) \<sigma> tbl s (R((1, c, t) \<mapsto> (n, body_of a))) (Suc n)"
  using file_next [OF assms(1) [unfolded example_run_def] beginning [where a = a and c = c and t = t]] assms(2-4)
  by (simp add: example_run_def two_clients_def)

lemma run_ends:
  assumes "example_run h \<sigma> tbl s (R((1, c, t) \<mapsto> (k, Reply r))) n"
  shows "example_run (h @ [Ended k r]) \<sigma> tbl s (R((1, c, t) := None)) n"
  using file_next [OF assms [unfolded example_run_def] ending [where e = 1 and c = c and t = t]]
  by (simp add: example_run_def)

abbreviation "example_ops \<equiv> cached_ops example_rpc (\<lambda>_. zero_attr) example_clock (\<lambda>_ _. False)"

lemma run_acts:
  assumes "example_run h \<sigma> tbl s (R((1, c, t) \<mapsto> (k, b))) n"
    and "\<forall>q x. b = Flush_Data q \<and> tbl c 1 = Some x \<and> x_state x = MODIFIED \<longrightarrow> server_room s 1 (x_data x)"
    and "body_step example_ops zero_attr 1 b \<lparr>w_tbl = tbl c, w_srv = s, w_ticks = 0\<rparr> = (b', \<lparr>w_tbl = tbl', w_srv = s', w_ticks = ticks\<rparr>)"
  shows "example_run h \<sigma> (tbl(c := tbl')) s' (R((1, c, t) \<mapsto> (k, b'))) n"
  using file_next [OF assms(1) [unfolded example_run_def] acting [where e = 1 and c = c and t = t and junk = "\<lambda>_. zero_attr"
        and time_at = example_clock and ?a0.0 = zero_attr and ticks = 0]] assms(2,3)
  by (simp add: example_run_def two_clients_def)

lemma run_hands:
  assumes "example_run h run6 tbl s Map.empty n"
    and "tbl ca 1 = None"
  shows "example_run h run7 tbl s Map.empty n"
proof -
  have "cc_flush example_rpc (tbl ca) s 1 = (ext_status_code NOENT, tbl ca, s)" using assms(2) by (simp add: cc_flush_def)
  from hand_move_step [of tbl server_room s, OF _ this] assms(2)
  have "cluster_step example_rpc server_room (two_clients run6 tbl s) [] (two_clients run7 tbl s)" by simp
  from file_next [OF assms(1) [unfolded example_run_def] moving [OF this]] show ?thesis by (simp add: example_run_def)
qed

lemma inside_runs: "pcs run3 ca 0 = Inside" "pcs run4 ca 0 = Inside" "pcs run5 ca 0 = Inside" "pcs run13 cb 1 = Inside"
  by (simp_all add: more_runs)

abbreviation "example_write \<equiv> Write_Call 1 2 0 [104, 105]"
abbreviation "example_read \<equiv> Read_Call 1 2 0"

lemma example_starts: "example_run [] run3 (\<lambda>_. Map.empty) example_server Map.empty 0"
proof -
  have "example_run [] (lock_sys_init 0) (\<lambda>_. Map.empty) example_server Map.empty 0"
    using file_start [of example_rpc server_room "sharing_init (cluster_init 0 example_server)"]
    by (simp add: example_run_def sharing_init_def two_clients_def cluster_init_def fun_upd_idem)
  note run_locks [OF run_locks [OF run_locks [OF this step1 run_gives(1)] step2 run_gives(2)] step3 run_gives(3)]
  then show ?thesis by simp
qed

text \<open>The write: between its operations client b asks for the lock and the server revokes it.\<close>

lemma example_writes:
  "\<exists>tbl s r. example_run [Begun ca example_write, Ended 0 r] run5 tbl s Map.empty 1 \<and> tbl ca 1 = None"
proof -
  let ?none = "\<lambda>_ :: string. Map.empty :: cache_table"
  obtain tbl s where c: "cc_get example_rpc zero_attr example_clock Map.empty example_server 1 [] = (0, [], tbl, s)"
    "cache_ok server_view tbl s" "cview server_view tbl s 1 = Some (1, [])" "tbl 1 \<noteq> None" "server_room s 1 [104, 105]"
    using example_cached by blast
  obtain tbl1 x where p: "cc_put zero_attr example_clock tbl 1 [104, 105] = (0, tbl1)" "tbl1 1 = Some x" "x_data x = [104, 105]"
    using direct.cache_put [OF c(2,3), of zero_attr example_clock "[104, 105]"] c(4) by blast
  obtain ret tbl2 s2 where f: "cc_flush example_rpc tbl1 s 1 = (ret, tbl2, s2)" by (cases "cc_flush example_rpc tbl1 s 1")
  let ?rest = "Flush_Data (Reply (Inr (Write_Reply 0 2)))"
  let ?one = "\<lambda>b. Map.empty((1, ca, 0) \<mapsto> (0, b)) :: running"
  have w: "overwrite 0 2 [104, 105] [] = Inr [104, 105]" by (simp add: overwrite_def)
  have "example_run [Begun ca example_write] run3 ?none example_server (?one (body_of example_write)) 1"
    using run_begins [OF example_starts inside_runs(1), of example_write] by simp
  then have "example_run [Begun ca example_write] run3 (?none(ca := tbl)) s (?one (Put_Data [104, 105] ?rest)) 1"
    by (rule run_acts) (use c(1) w in \<open>simp_all add: cached_ops_simps write_body_def\<close>)
  from run_locks [OF this step4 run_gives(4)]
  have "example_run [Begun ca example_write] run4 (?none(ca := tbl)) s (?one (Put_Data [104, 105] ?rest)) 1"
    using inside_runs(2) by simp
  then have "example_run [Begun ca example_write] run4 (?none(ca := tbl, ca := tbl1)) s (?one ?rest) 1"
    by (rule run_acts) (use c p in \<open>simp_all add: cached_ops_simps\<close>)
  from run_locks [OF this step5 run_gives(5)]
  have "example_run [Begun ca example_write] run5 (?none(ca := tbl, ca := tbl1)) s (?one ?rest) 1"
    using inside_runs(3) by simp
  then have "example_run [Begun ca example_write] run5 (?none(ca := tbl, ca := tbl1, ca := tbl2)) s2
      (?one (Reply (Inr (Write_Reply 0 2)))) 1"
    by (rule run_acts) (use c(5) p f in \<open>simp_all add: cached_ops_simps dorelease_def\<close>)
  from run_ends [OF this] have "example_run [Begun ca example_write, Ended 0 (Inr (Write_Reply 0 2))] run5 (?none(ca := tbl2)) s2 Map.empty 1"
    by (simp add: fun_upd_idem)
  moreover have "tbl2 1 = None" using cc_flush_tbl [OF f] by simp
  ultimately show ?thesis by (intro exI [of _ "?none(ca := tbl2)"] exI [of _ s2] exI [of _ "Inr (Write_Reply 0 2)"]) simp
qed

text \<open>Then client a gives the lock back, client b gets it and reads.\<close>

lemma example_reads:
  "\<exists>tbl s r r'. example_run [Begun ca example_write, Ended 0 r, Begun cb example_read, Ended 1 r'] run13 tbl s Map.empty 2"
proof -
  let ?h = "\<lambda>r. [Begun ca example_write, Ended 0 r]"
  obtain tbl s r where w: "example_run (?h r) run5 tbl s Map.empty 1" "tbl ca 1 = None" using example_writes by blast
  have "example_run (?h r) run6 tbl s Map.empty 1" using run_locks [OF w(1) step6 run_gives(6)] by simp
  note run_hands [OF this w(2)]
  note run_locks [OF run_locks [OF run_locks [OF this step8 run_gives(8)] step9 run_gives(9)] step10 run_gives(10)]
  note run_locks [OF run_locks [OF run_locks [OF this step11 run_gives(11)] step12 run_gives(12)] step13 run_gives(13)]
  then have "example_run (?h r) run13 tbl s Map.empty 1" by simp
  from run_begins [OF this inside_runs(4), of example_read]
  have b: "example_run (?h r @ [Begun cb example_read]) run13 tbl s (Map.empty((1, cb, 1) \<mapsto> (1, body_of example_read))) 2"
    by (simp add: numeral_2_eq_2)
  obtain ret d tbl' s' where "cc_get example_rpc zero_attr example_clock (tbl cb) s 1 [] = (ret, d, tbl', s')"
    by (cases "cc_get example_rpc zero_attr example_clock (tbl cb) s 1 []")
  then have "example_run (?h r @ [Begun cb example_read]) run13 (tbl(cb := tbl')) s'
      (Map.empty((1, cb, 1) \<mapsto> (1, Reply (Inr (Data_Reply 0 (clip 0 2 d)))))) 2"
    by (intro run_acts [OF b]) (simp_all add: cached_ops_simps read_body_def)
  from run_ends [OF this] show ?thesis by auto
qed

section \<open>Calls and their bodies\<close>

text \<open>A call takes the lock of its extent, does the operations of its body one by one,
  and gives the lock up, unless it faults.\<close>

lemma call_is_body:
  "perform ops a0 a w = locked_body ops a0 (target a) (body_of a) w"
proof (cases a)
  case (Write_Call i sz off data)
  then show ?thesis
    by (auto simp: locked_body_def body_defs yfs_write_def Let_def bind_res_assoc split: prod.splits sum.splits)
next
  case (Lookup_Call i name found i0)
  then show ?thesis
    by (auto simp: locked_body_def body_defs yfs_lookup_def yfs_find_def Let_def bind_res_assoc
        split: prod.splits sum.splits option.splits)
next
  case (Readdir_Call i l)
  then show ?thesis
    by (auto simp: locked_body_def body_defs yfs_readdir_def isdir_def has_type_def Let_def bind_res_assoc
        split: prod.splits sum.splits)
qed (auto simp: locked_body_def body_defs getfile_def setattr_def yfs_read_def yfs_readlink_def Let_def split: prod.splits)

section \<open>Calls of many clients\<close>

text \<open>C5: Atomic calls. However the operations inside the calls of any number of clients interleave
  with each other, with lock messages and with flushes, every call replies as if it had been
  done at once when it began, on one map of files that all clients share; when no call is in
  progress the clients see that map. So a read returns what was written last, whoever wrote it.\<close>

theorem calls_are_atomic:
  assumes "server_inv s" and "file_run (direct_rpc time_at lost bare) server_room (sharing_init (cluster_init junk s)) h f"
    and "calls_spec (calls_begun h) (server_view s) = Some (rs, m)"
  shows "(\<forall>k r. Ended k r \<in> set h \<longrightarrow> k < length rs \<and> rs ! k = r)
    \<and> ((\<forall>x. f_calls f x = None) \<longrightarrow> shared server_view (f_world f) = m) \<and> server_inv (k_srv (f_world f))"
proof -
  let ?w = "cluster_init junk s"
  have ok: "cluster_ok server_inv server_view ?w"
    using assms(1) by (simp add: cluster_ok_def cluster_locked_init) (simp add: cluster_init_def empty_cache_ok)
  have "shared server_view ?w = server_view s"
    by (rule ext, subst shared_uncached) (simp_all add: cluster_init_def)
  then have lin: "linearized (shared server_view) (sharing_init ?w) (server_view s) []"
    by (simp add: linearized_def sharing_init_def)
  have "cluster_ok server_inv server_view (f_world f)" and f: "linearized (shared server_view) f m rs"
    and ended: "\<forall>k r. Ended k r \<in> set h \<longrightarrow> k < length rs \<and> rs ! k = r"
    using direct_roomy.file_run_linear [OF assms(2) _ _ lin assms(3)] ok
    by (auto simp: sharing_init_def unremoved_def cluster_init_def)
  then show ?thesis using linearizedD(2) [OF f] by (auto simp: cluster_ok_def fun_eq_iff)
qed

theorem calls_are_atomic_witness:
  "\<exists>f. file_run example_rpc server_room (sharing_init (cluster_init 0 example_server))
     [Begun ca (Write_Call 1 2 0 [104, 105]), Ended 0 (Inr (Write_Reply 0 2)),
      Begun cb (Read_Call 1 2 0), Ended 1 (Inr (Data_Reply 0 [104, 105]))] f
     \<and> shared server_view (f_world f) 1 = Some (T_DIR, [104, 105])"
proof -
  obtain tbl s r r' where run: "example_run [Begun ca example_write, Ended 0 r, Begun cb example_read, Ended 1 r'] run13 tbl s Map.empty 2"
    using example_reads by blast
  have "calls_spec [example_write, example_read] (server_view example_server) =
      Some ([Inr (Write_Reply 0 2), Inr (Data_Reply 0 [104, 105])], (server_view example_server)(1 \<mapsto> (T_DIR, [104, 105])))"
    using example_server(2) by (simp add: call_spec_def written_at_def)
  then have "calls_spec (calls_begun [Begun ca example_write, Ended 0 r, Begun cb example_read, Ended 1 r']) (server_view example_server) =
      Some ([Inr (Write_Reply 0 2), Inr (Data_Reply 0 [104, 105])], (server_view example_server)(1 \<mapsto> (T_DIR, [104, 105])))"
    by simp
  from calls_are_atomic [OF example_server(1) run [unfolded example_run_def] this]
  have "r = Inr (Write_Reply 0 2)" "r' = Inr (Data_Reply 0 [104, 105])"
    "shared server_view (two_clients run13 tbl s) = (server_view example_server)(1 \<mapsto> (T_DIR, [104, 105]))" by auto
  with run show ?thesis unfolding example_run_def by (intro exI [of _ "\<lparr>f_world = two_clients run13 tbl s, f_calls = Map.empty, f_begun = 2\<rparr>"]) simp
qed

text \<open>C9: Exclusive caching. While any number of clients make the calls that take the lock of the one extent they
  touch, with any interleaving of their operations, lock messages and flushes, an extent is in the
  cache of at most one client; that client holds its lock at the server, and no other
  client is in a call on the extent. The calls that read attributes without the lock are not among these.\<close>

theorem cached_by_one:
  assumes "file_run rpc room (sharing_init (cluster_init junk s)) h f"
    and "k_tbl (f_world f) c e \<noteq> None" and "k_tbl (f_world f) d e \<noteq> None \<or> f_calls f (e, d, t) \<noteq> None"
  shows "c = d \<and> fst (abs_lock (srv (k_lock (f_world f) e)) e) = Some c"
proof -
  have l: "calls_locked f" by (rule file_run_locked [OF assms(1) sharing_init_locked])
  then have w: "cluster_locked (f_world f)" by (simp add: calls_locked_def)
  have c: "owns e c (k_lock (f_world f) e)" by (rule cluster_lockedD(2) [OF w assms(2)])
  have "owns e d (k_lock (f_world f) e)" if "f_calls f (e, d, t) \<noteq> None"
    using l that by (intro inside_owns [OF cluster_lockedD(1) [OF w], of e d t]) (simp add: calls_locked_def)
  then have "owns e d (k_lock (f_world f) e)" using assms(3) cluster_lockedD(2) [OF w] by blast
  then show ?thesis using c by (auto simp: owns_def)
qed

lemma example_reads_first:
  "\<exists>tbl s. example_run [Begun ca example_read] run3 tbl s (Map.empty((1, ca, 0) \<mapsto> (0, Reply (Inr (Data_Reply 0 []))))) 1
     \<and> tbl ca 1 \<noteq> None"
proof -
  obtain tbl s where c: "cc_get example_rpc zero_attr example_clock Map.empty example_server 1 [] = (0, [], tbl, s)" "tbl 1 \<noteq> None"
    using example_cached by blast
  have "example_run [Begun ca example_read] run3 (\<lambda>_. Map.empty) example_server (Map.empty((1, ca, 0) \<mapsto> (0, body_of example_read))) 1"
    using run_begins [OF example_starts inside_runs(1), of example_read] by simp
  then have "example_run [Begun ca example_read] run3 ((\<lambda>_. Map.empty)(ca := tbl)) s
      (Map.empty((1, ca, 0) \<mapsto> (0, Reply (Inr (Data_Reply 0 []))))) 1"
    by (rule run_acts) (use c(1) in \<open>simp_all add: cached_ops_simps read_body_def clip_eq\<close>)
  then show ?thesis using c(2) by (intro exI [of _ "(\<lambda>_. Map.empty)(ca := tbl)"] exI [of _ s]) simp
qed

theorem cached_by_one_witness:
  "\<exists>h f. file_run example_rpc server_room (sharing_init (cluster_init 0 example_server)) h f
     \<and> {d. k_tbl (f_world f) d 1 \<noteq> None} = {ca}"
proof -
  obtain tbl s where r: "example_run [Begun ca example_read] run3 tbl s (Map.empty((1, ca, 0) \<mapsto> (0, Reply (Inr (Data_Reply 0 []))))) 1"
    and t: "tbl ca 1 \<noteq> None" using example_reads_first by blast
  let ?f = "\<lparr>f_world = two_clients run3 tbl s, f_calls = Map.empty((1, ca, 0) \<mapsto> (0, Reply (Inr (Data_Reply 0 [])))), f_begun = 1\<rparr>"
  have t': "k_tbl (f_world ?f) ca 1 \<noteq> None" using t by (simp add: two_clients_def)
  show ?thesis using cached_by_one [OF r [unfolded example_run_def] t'] r [unfolded example_run_def] t' by blast
qed

end
