(* ===== verification/Posix.thy ===== *)
theory Posix
  imports Yfs_Store
begin

text \<open>
  The system calls that the C test programs make. They are those of the operating system,
  outside the repository: a record of functions on some state. \<open>posix_ok\<close> states what the
  programs rely on: the documented behaviour of the calls on regular files, seen as a map from
  directories to entries and from descriptors to positions.
\<close>

section \<open>System calls\<close>

datatype oflag = O_WRONLY | O_APPEND | O_CREAT

text \<open>A descriptor belongs to a process: the test programs run as at most two.\<close>

datatype process = Parent | Child

text \<open>\<open>creat\<close> and \<open>open\<close> return the descriptor and \<^verbatim>\<open>errno\<close>, \<open>read\<close> the count and the bytes;
  \<open>sys_listdir\<close> is \<^verbatim>\<open>opendir\<close> with the names that \<^verbatim>\<open>readdir\<close> gives until the end.\<close>

record 'w posix =
  sys_creat :: "'w \<Rightarrow> bytes \<Rightarrow> int \<times> int \<times> 'w"
  sys_open :: "'w \<Rightarrow> bytes \<Rightarrow> oflag set \<Rightarrow> int \<times> int \<times> 'w"
  sys_read :: "'w \<Rightarrow> int \<Rightarrow> nat \<Rightarrow> int \<times> bytes \<times> 'w"
  sys_write :: "'w \<Rightarrow> int \<Rightarrow> bytes \<Rightarrow> int \<times> 'w"
  sys_lseek :: "'w \<Rightarrow> int \<Rightarrow> int \<Rightarrow> int \<times> 'w"
  sys_fsync :: "'w \<Rightarrow> int \<Rightarrow> int \<times> 'w"
  sys_close :: "'w \<Rightarrow> int \<Rightarrow> int \<times> 'w"
  sys_unlink :: "'w \<Rightarrow> bytes \<Rightarrow> int \<times> 'w"
  sys_mkdir :: "'w \<Rightarrow> bytes \<Rightarrow> int \<times> 'w"
  sys_access :: "'w \<Rightarrow> bytes \<Rightarrow> int \<times> 'w"
  sys_listdir :: "'w \<Rightarrow> bytes \<Rightarrow> bytes list option \<times> 'w"

definition EEXIST_errno :: int where "EEXIST_errno = 17"

definition path :: "bytes \<Rightarrow> bytes \<Rightarrow> bytes" where
  "path d f = d @ 47 # f"

text \<open>C strings end at the first zero byte; \<open>buf512\<close> is \<^verbatim>\<open>sprintf\<close> into an array of 512 bytes.\<close>

definition strlen :: "bytes \<Rightarrow> nat" where
  "strlen s = length (takeWhile (\<lambda>c. c \<noteq> 0) s)"

definition strncmp_same :: "bytes \<Rightarrow> bytes \<Rightarrow> nat \<Rightarrow> bool" where
  "strncmp_same a b n \<longleftrightarrow> take n (takeWhile (\<lambda>c. c \<noteq> 0) a) = take n (takeWhile (\<lambda>c. c \<noteq> 0) b)"

definition buf512 :: "bytes \<Rightarrow> bytes res" where
  "buf512 s = (if length s < 512 then Inr s else Inl Out_Of_Bounds)"

definition numbered :: "bytes \<Rightarrow> nat \<Rightarrow> bytes" where
  "numbered prefix i = prefix @ 45 # dec i"

text \<open>A check that ends the program when it fails.\<close>

definition demand :: "bool \<Rightarrow> 'w res \<Rightarrow> 'w res" where
  "demand ok k = (if ok then k else Inl Exit)"

section \<open>The documented behaviour of the system calls\<close>

text \<open>
  \<open>dk\<close> tells which directory a path names, so two mount points of one file system can name the
  same one; \<open>tree\<close> gives the entries of the directories with their contents; \<open>fdt\<close> the file,
  position and mode of the descriptors of each process, as long as the file has
  its name and for those opened since the last fork. Paths and names are within the limits of
  \<^verbatim>\<open>PATH_MAX\<close> and \<^verbatim>\<open>NAME_MAX\<close>. Reads of descriptors open for reading and writes of descriptors open for
  writing are complete on regular files of at most \<open>file_limit\<close> bytes; a write past
  the end fills the gap with zeros; a call of one process leaves the other's descriptors alone. The laws
  describe a system that does not run out of space and descriptors.
\<close>

text \<open>What a descriptor is open for: without \<^verbatim>\<open>O_WRONLY\<close> only for reading.\<close>

datatype mode = Reading | Writing | Appending

definition mode_of :: "oflag set \<Rightarrow> mode" where
  "mode_of fl = (if O_WRONLY \<notin> fl then Reading else if O_APPEND \<in> fl then Appending else Writing)"

lemma mode_of_simps [simp]: "mode_of {} = Reading" "mode_of {O_WRONLY, O_APPEND} = Appending"
  "mode_of {O_WRONLY, O_CREAT} = Writing" "mode_of {O_WRONLY} = Writing"
  by (simp_all add: mode_of_def)

definition file_limit :: nat where
  "file_limit = 65536"

type_synonym entries = "bytes \<rightharpoonup> bytes"
type_synonym 'k dirs = "'k \<rightharpoonup> entries"
type_synonym 'k descriptors = "process \<times> int \<rightharpoonup> 'k \<times> bytes \<times> nat \<times> mode"

definition plain_name :: "bytes \<Rightarrow> bool" where
  "plain_name f \<longleftrightarrow> f \<noteq> [] \<and> hd f \<noteq> 46 \<and> 47 \<notin> set f \<and> 0 \<notin> set f \<and> length f \<le> 255"

definition dir_path :: "bytes \<Rightarrow> bool" where
  "dir_path d \<longleftrightarrow> d \<noteq> [] \<and> 0 \<notin> set d \<and> length d < 4096"

definition file_path :: "bytes \<Rightarrow> bytes \<Rightarrow> bool" where
  "file_path d f \<longleftrightarrow> plain_name f \<and> dir_path d \<and> length (path d f) < 4096"

definition creat_law :: "'w posix \<Rightarrow> process \<Rightarrow> (bytes \<Rightarrow> 'k) \<Rightarrow> ('w \<Rightarrow> 'k dirs) \<Rightarrow> ('w \<Rightarrow> 'k descriptors) \<Rightarrow> bool" where
  "creat_law sys p dk tree fdt \<longleftrightarrow> (\<forall>w d f es. file_path d f \<longrightarrow> tree w (dk d) = Some es \<longrightarrow>
     (\<exists>fd e w'. sys_creat sys w (path d f) = (fd, e, w') \<and> 0 \<le> fd \<and> tree w' = (tree w)(dk d \<mapsto> es(f \<mapsto> []))
        \<and> fdt w (p, fd) = None \<and> fdt w' = (fdt w)((p, fd) \<mapsto> (dk d, f, 0, Writing))))"

definition open_law :: "'w posix \<Rightarrow> process \<Rightarrow> (bytes \<Rightarrow> 'k) \<Rightarrow> ('w \<Rightarrow> 'k dirs) \<Rightarrow> ('w \<Rightarrow> 'k descriptors) \<Rightarrow> bool" where
  "open_law sys p dk tree fdt \<longleftrightarrow> (\<forall>w d f es fl. file_path d f \<longrightarrow> tree w (dk d) = Some es \<longrightarrow>
     (\<exists>fd e w'. sys_open sys w (path d f) fl = (fd, e, w')
        \<and> (es f \<noteq> None \<longrightarrow> 0 \<le> fd \<and> tree w' = tree w \<and> fdt w (p, fd) = None
             \<and> fdt w' = (fdt w)((p, fd) \<mapsto> (dk d, f, 0, mode_of fl)))
        \<and> (es f = None \<longrightarrow> O_CREAT \<notin> fl \<longrightarrow> fd < 0 \<and> tree w' = tree w \<and> fdt w' = fdt w)))"

definition read_law :: "'w posix \<Rightarrow> process \<Rightarrow> ('w \<Rightarrow> 'k dirs) \<Rightarrow> ('w \<Rightarrow> 'k descriptors) \<Rightarrow> bool" where
  "read_law sys p tree fdt \<longleftrightarrow> (\<forall>w fd k f pos es b n. fdt w (p, fd) = Some (k, f, pos, Reading) \<longrightarrow> tree w k = Some es \<longrightarrow>
     es f = Some b \<longrightarrow> (\<exists>w'. sys_read sys w fd n = (int (length (take n (drop pos b))), take n (drop pos b), w')
        \<and> tree w' = tree w \<and> fdt w' = (fdt w)((p, fd) \<mapsto> (k, f, pos + length (take n (drop pos b)), Reading))))"

definition write_pos :: "mode \<Rightarrow> nat \<Rightarrow> bytes \<Rightarrow> nat" where
  "write_pos m pos b = (if m = Appending then length b else pos)"

lemma write_pos_simps [simp]: "write_pos Writing pos b = pos" "write_pos Appending pos b = length b"
  by (simp_all add: write_pos_def)

definition write_law :: "'w posix \<Rightarrow> process \<Rightarrow> ('w \<Rightarrow> 'k dirs) \<Rightarrow> ('w \<Rightarrow> 'k descriptors) \<Rightarrow> bool" where
  "write_law sys p tree fdt \<longleftrightarrow> (\<forall>w fd k f pos m es b new. fdt w (p, fd) = Some (k, f, pos, m) \<longrightarrow> m \<noteq> Reading \<longrightarrow> tree w k = Some es \<longrightarrow>
     es f = Some b \<longrightarrow> write_pos m pos b + length new \<le> file_limit \<longrightarrow> (\<exists>w'. sys_write sys w fd new = (int (length new), w')
        \<and> tree w' = (tree w)(k \<mapsto> es(f \<mapsto> written_at (write_pos m pos b) new b))
        \<and> fdt w' = (fdt w)((p, fd) \<mapsto> (k, f, write_pos m pos b + length new, m))))"

definition lseek_law :: "'w posix \<Rightarrow> process \<Rightarrow> ('w \<Rightarrow> 'k dirs) \<Rightarrow> ('w \<Rightarrow> 'k descriptors) \<Rightarrow> bool" where
  "lseek_law sys p tree fdt \<longleftrightarrow> (\<forall>w fd k f pos m n. fdt w (p, fd) = Some (k, f, pos, m) \<longrightarrow> n \<le> file_limit \<longrightarrow>
     (\<exists>w'. sys_lseek sys w fd (int n) = (int n, w') \<and> tree w' = tree w \<and> fdt w' = (fdt w)((p, fd) \<mapsto> (k, f, n, m))))"

definition fsync_law :: "'w posix \<Rightarrow> process \<Rightarrow> ('w \<Rightarrow> 'k dirs) \<Rightarrow> ('w \<Rightarrow> 'k descriptors) \<Rightarrow> bool" where
  "fsync_law sys p tree fdt \<longleftrightarrow> (\<forall>w fd. fdt w (p, fd) \<noteq> None \<longrightarrow>
     (\<exists>w'. sys_fsync sys w fd = (0, w') \<and> tree w' = tree w \<and> fdt w' = fdt w))"

definition close_law :: "'w posix \<Rightarrow> process \<Rightarrow> ('w \<Rightarrow> 'k dirs) \<Rightarrow> ('w \<Rightarrow> 'k descriptors) \<Rightarrow> bool" where
  "close_law sys p tree fdt \<longleftrightarrow> (\<forall>w fd. fdt w (p, fd) \<noteq> None \<longrightarrow>
     (\<exists>w'. sys_close sys w fd = (0, w') \<and> tree w' = tree w \<and> fdt w' = (fdt w)((p, fd) := None)))"

text \<open>Descriptors of an unlinked file may stay, or lose their name.\<close>

definition unlink_law :: "'w posix \<Rightarrow> (bytes \<Rightarrow> 'k) \<Rightarrow> ('w \<Rightarrow> 'k dirs) \<Rightarrow> ('w \<Rightarrow> 'k descriptors) \<Rightarrow> bool" where
  "unlink_law sys dk tree fdt \<longleftrightarrow> (\<forall>w d f es. file_path d f \<longrightarrow> tree w (dk d) = Some es \<longrightarrow> es f \<noteq> None \<longrightarrow>
     (\<exists>w'. sys_unlink sys w (path d f) = (0, w') \<and> tree w' = (tree w)(dk d \<mapsto> es(f := None))
        \<and> (\<forall>p fd. fdt w' (p, fd) = fdt w (p, fd)
             \<or> fdt w' (p, fd) = None \<and> (\<exists>pos m. fdt w (p, fd) = Some (dk d, f, pos, m)))))"

text \<open>A listing has every name once; \<^verbatim>\<open>readdir\<close> promises as much while no name comes or goes.\<close>

definition list_law :: "'w posix \<Rightarrow> (bytes \<Rightarrow> 'k) \<Rightarrow> ('w \<Rightarrow> 'k dirs) \<Rightarrow> ('w \<Rightarrow> 'k descriptors) \<Rightarrow> bool" where
  "list_law sys dk tree fdt \<longleftrightarrow> (\<forall>w d es. dir_path d \<longrightarrow> tree w (dk d) = Some es \<longrightarrow>
     (\<exists>ns w'. sys_listdir sys w d = (Some ns, w') \<and> distinct ns \<and> dom es \<subseteq> set ns
        \<and> set ns \<subseteq> dom es \<union> {[46], [46, 46]} \<and> tree w' = tree w \<and> fdt w' = fdt w))"

definition posix_ok :: "'w posix \<Rightarrow> process \<Rightarrow> (bytes \<Rightarrow> 'k) \<Rightarrow> ('w \<Rightarrow> 'k dirs) \<Rightarrow> ('w \<Rightarrow> 'k descriptors) \<Rightarrow> bool" where
  "posix_ok sys p dk tree fdt \<longleftrightarrow> creat_law sys p dk tree fdt \<and> open_law sys p dk tree fdt \<and> read_law sys p tree fdt
     \<and> write_law sys p tree fdt \<and> lseek_law sys p tree fdt \<and> fsync_law sys p tree fdt \<and> close_law sys p tree fdt
     \<and> unlink_law sys dk tree fdt \<and> list_law sys dk tree fdt"

text \<open>No call on files changes the part \<open>v\<close> of the state, whether it succeeds or fails.\<close>

definition leaves :: "'w posix \<Rightarrow> ('w \<Rightarrow> 'a) \<Rightarrow> bool" where
  "leaves sys v \<longleftrightarrow> (\<forall>w n. v (snd (snd (sys_creat sys w n))) = v w) \<and> (\<forall>w n fl. v (snd (snd (sys_open sys w n fl))) = v w)
     \<and> (\<forall>w fd n. v (snd (snd (sys_read sys w fd n))) = v w) \<and> (\<forall>w fd b. v (snd (sys_write sys w fd b)) = v w)
     \<and> (\<forall>w fd n. v (snd (sys_lseek sys w fd n)) = v w) \<and> (\<forall>w fd. v (snd (sys_fsync sys w fd)) = v w)
     \<and> (\<forall>w fd. v (snd (sys_close sys w fd)) = v w) \<and> (\<forall>w n. v (snd (sys_unlink sys w n)) = v w)
     \<and> (\<forall>w n. v (snd (sys_listdir sys w n)) = v w)"

section \<open>The calls, one by one\<close>

lemma creat_ok:
  assumes "posix_ok sys p dk tree fdt" and "file_path d f" and "tree w (dk d) = Some es"
  obtains fd e w' where "sys_creat sys w (path d f) = (fd, e, w')" and "0 \<le> fd" and "fdt w (p, fd) = None"
    and "tree w' = (tree w)(dk d \<mapsto> es(f \<mapsto> []))" and "fdt w' = (fdt w)((p, fd) \<mapsto> (dk d, f, 0, Writing))"
  using assms unfolding posix_ok_def creat_law_def by blast

lemma open_ok:
  assumes "posix_ok sys p dk tree fdt" and "file_path d f" and "tree w (dk d) = Some es" and "es f \<noteq> None"
  obtains fd e w' where "sys_open sys w (path d f) fl = (fd, e, w')" and "0 \<le> fd" and "fdt w (p, fd) = None"
    and "tree w' = tree w" and "fdt w' = (fdt w)((p, fd) \<mapsto> (dk d, f, 0, mode_of fl))"
proof -
  have "open_law sys p dk tree fdt" using assms(1) by (simp add: posix_ok_def)
  from this [unfolded open_law_def, rule_format, OF assms(2,3), of fl] assms(4) that show thesis by auto
qed

lemma open_missing:
  assumes "posix_ok sys p dk tree fdt" and "file_path d f" and "tree w (dk d) = Some es" and "es f = None" and "O_CREAT \<notin> fl"
  obtains fd e w' where "sys_open sys w (path d f) fl = (fd, e, w')" and "fd < 0" and "tree w' = tree w" and "fdt w' = fdt w"
proof -
  have "open_law sys p dk tree fdt" using assms(1) by (simp add: posix_ok_def)
  from this [unfolded open_law_def, rule_format, OF assms(2,3), of fl] assms(4,5) that show thesis by auto
qed

lemma read_ok:
  assumes "posix_ok sys p dk tree fdt" and "fdt w (p, fd) = Some (k, f, pos, Reading)" and "tree w k = Some es" and "es f = Some b"
  obtains w' where "sys_read sys w fd n = (int (length (take n (drop pos b))), take n (drop pos b), w')"
    and "tree w' = tree w" and "fdt w' = (fdt w)((p, fd) \<mapsto> (k, f, pos + length (take n (drop pos b)), Reading))"
  using assms unfolding posix_ok_def read_law_def by blast

lemma write_ok:
  assumes "posix_ok sys p dk tree fdt" and "fdt w (p, fd) = Some (k, f, pos, m)" and "tree w k = Some es" and "es f = Some b"
    and "m \<noteq> Reading" and "write_pos m pos b + length new \<le> file_limit"
  obtains w' where "sys_write sys w fd new = (int (length new), w')"
    and "tree w' = (tree w)(k \<mapsto> es(f \<mapsto> written_at (write_pos m pos b) new b))"
    and "fdt w' = (fdt w)((p, fd) \<mapsto> (k, f, write_pos m pos b + length new, m))"
  using assms unfolding posix_ok_def write_law_def by blast

lemma lseek_ok:
  assumes "posix_ok sys p dk tree fdt" and "fdt w (p, fd) = Some (k, f, pos, m)" and "n \<le> file_limit"
  obtains w' where "sys_lseek sys w fd (int n) = (int n, w')" and "tree w' = tree w" and "fdt w' = (fdt w)((p, fd) \<mapsto> (k, f, n, m))"
  using assms unfolding posix_ok_def lseek_law_def by blast

lemma fsync_ok:
  assumes "posix_ok sys p dk tree fdt" and "fdt w (p, fd) \<noteq> None"
  obtains w' where "sys_fsync sys w fd = (0, w')" and "tree w' = tree w" and "fdt w' = fdt w"
  using assms unfolding posix_ok_def fsync_law_def by blast

lemma close_ok:
  assumes "posix_ok sys p dk tree fdt" and "fdt w (p, fd) \<noteq> None"
  obtains w' where "sys_close sys w fd = (0, w')" and "tree w' = tree w" and "fdt w' = (fdt w)((p, fd) := None)"
  using assms unfolding posix_ok_def close_law_def by blast

lemma unlink_ok:
  assumes "posix_ok sys p dk tree fdt" and "file_path d f" and "tree w (dk d) = Some es" and "es f \<noteq> None"
  obtains w' where "sys_unlink sys w (path d f) = (0, w')" and "tree w' = (tree w)(dk d \<mapsto> es(f := None))"
    and "\<forall>q fd. fdt w' (q, fd) = fdt w (q, fd)
           \<or> fdt w' (q, fd) = None \<and> (\<exists>pos m. fdt w (q, fd) = Some (dk d, f, pos, m))"
  using assms unfolding posix_ok_def unlink_law_def by blast

lemma list_ok:
  assumes "posix_ok sys p dk tree fdt" and "dir_path d" and "tree w (dk d) = Some es"
  obtains ns w' where "sys_listdir sys w d = (Some ns, w')" and "distinct ns" and "dom es \<subseteq> set ns"
    and "set ns \<subseteq> dom es \<union> {[46], [46, 46]}" and "tree w' = tree w" and "fdt w' = fdt w"
  using assms unfolding posix_ok_def list_law_def by blast

end
