(* ===== verification/Test_Files.thy ===== *)
theory Test_Files
  imports Posix "HOL-Library.List_Lexorder"
begin

text \<open>
  The test program \<^verbatim>\<open>test-lab2-part1-g.c\<close>, which uses one directory of the file system through
  two mount points, over the system calls of \<open>Posix\<close>. A call of \<^verbatim>\<open>exit(1)\<close> is the fault \<open>Exit\<close>;
  \<^verbatim>\<open>sleep\<close> and the messages are left out.
\<close>

section \<open>The functions of the program\<close>

definition create1 :: "'w posix \<Rightarrow> bytes \<Rightarrow> bytes \<Rightarrow> bytes \<Rightarrow> 'w \<Rightarrow> 'w res" where
  "create1 sys d f inp w =
     bind_res (buf512 (path d f)) (\<lambda>n.
       let (fd, _, w1) = sys_creat sys w n
       in demand (0 \<le> fd)
         (let (cc, w2) = sys_write sys w1 fd (take (strlen inp) inp)
          in demand (cc = int (strlen inp))
            (let (r, w3) = sys_close sys w2 fd in demand (r = 0) (Inr w3))))"

definition check1 :: "'w posix \<Rightarrow> bytes \<Rightarrow> bytes \<Rightarrow> bytes \<Rightarrow> 'w \<Rightarrow> 'w res" where
  "check1 sys d f inp w =
     bind_res (buf512 (path d f)) (\<lambda>n.
       let (fd, _, w1) = sys_open sys w n {}
       in demand (0 \<le> fd)
         (let (cc, buf, w2) = sys_read sys w1 fd 20999
          in demand (cc = int (strlen inp))
            (let (_, w3) = sys_close sys w2 fd
             in demand (strncmp_same (take (strlen inp) buf @ [0]) inp (strlen n)) (Inr w3))))"

definition unlink1 :: "'w posix \<Rightarrow> bytes \<Rightarrow> bytes \<Rightarrow> 'w \<Rightarrow> 'w res" where
  "unlink1 sys d f w =
     bind_res (buf512 (path d f)) (\<lambda>n. let (r, w1) = sys_unlink sys w n in demand (r = 0) (Inr w1))"

definition checknot :: "'w posix \<Rightarrow> bytes \<Rightarrow> bytes \<Rightarrow> 'w \<Rightarrow> 'w res" where
  "checknot sys d f w =
     bind_res (buf512 (path d f)) (\<lambda>n. let (fd, _, w1) = sys_open sys w n {} in demand (fd < 0) (Inr w1))"

definition append1 :: "'w posix \<Rightarrow> bytes \<Rightarrow> bytes \<Rightarrow> bytes \<Rightarrow> 'w \<Rightarrow> 'w res" where
  "append1 sys d f inp w =
     bind_res (buf512 (path d f)) (\<lambda>n.
       let (fd, _, w1) = sys_open sys w n {O_WRONLY, O_APPEND}
       in demand (0 \<le> fd)
         (let (cc, w2) = sys_write sys w1 fd (take (strlen inp) inp)
          in demand (cc = int (strlen inp))
            (let (r, w3) = sys_close sys w2 fd in demand (r = 0) (Inr w3))))"

definition write1_open :: "'w posix \<Rightarrow> bytes \<Rightarrow> 'w \<Rightarrow> int \<times> 'w" where
  "write1_open sys n w =
     (let (fd, errno, w1) = sys_open sys w n {O_WRONLY, O_CREAT}
      in if fd < 0 \<and> errno = EEXIST_errno then (let (fd2, _, w2) = sys_open sys w1 n {O_WRONLY} in (fd2, w2))
         else (fd, w1))"

definition write1 :: "'w posix \<Rightarrow> bytes \<Rightarrow> bytes \<Rightarrow> int \<Rightarrow> nat \<Rightarrow> byte \<Rightarrow> 'w \<Rightarrow> 'w res" where
  "write1 sys d f start n c w =
     bind_res (buf512 (path d f)) (\<lambda>name.
       let (fd, w1) = write1_open sys name w
       in demand (0 \<le> fd)
         (let (r, w2) = sys_lseek sys w1 fd start
          in demand (r = start)
            (bind_res (for_each (\<lambda>i w. let (cc, w') = sys_write sys w fd [c] in demand (cc = 1)
                (let (r, w'') = sys_fsync sys w' fd in demand (r = 0) (Inr w''))) [0..<n] w2)
             (\<lambda>w3. let (r, w4) = sys_close sys w3 fd in demand (r = 0) (Inr w4)))))"

definition checkread :: "'w posix \<Rightarrow> bytes \<Rightarrow> bytes \<Rightarrow> int \<Rightarrow> nat \<Rightarrow> byte \<Rightarrow> 'w \<Rightarrow> 'w res" where
  "checkread sys d f start n c w =
     bind_res (buf512 (path d f)) (\<lambda>name.
       let (fd, _, w1) = sys_open sys w name {}
       in demand (0 \<le> fd)
         (let (r, w2) = sys_lseek sys w1 fd start
          in demand (r = start)
            (bind_res (for_each (\<lambda>i w. let (cc, xc, w') = sys_read sys w fd 1
                in demand (cc = 1) (demand (xc = [c]) (Inr w'))) [0..<n] w2)
             (\<lambda>w3. let (_, w4) = sys_close sys w3 fd in Inr w4))))"

definition createn :: "'w posix \<Rightarrow> bytes \<Rightarrow> bytes \<Rightarrow> nat \<Rightarrow> bool \<Rightarrow> 'w \<Rightarrow> 'w res" where
  "createn sys d prefix nf possible_dup w =
     for_each (\<lambda>i w. bind_res (buf512 (path d (numbered prefix i))) (\<lambda>n.
       let (fd, errno, w1) = sys_creat sys w n
       in if fd < 0 \<and> possible_dup \<and> errno = EEXIST_errno then Inr w1
          else demand (0 \<le> fd)
            (let (cc, w2) = sys_write sys w1 fd (le_encode 4 (of_nat i :: u32))
             in demand (cc = 4) (let (r, w3) = sys_close sys w2 fd in demand (r = 0) (Inr w3))))) [0..<nf] w"

definition checkn :: "'w posix \<Rightarrow> bytes \<Rightarrow> bytes \<Rightarrow> nat \<Rightarrow> 'w \<Rightarrow> 'w res" where
  "checkn sys d prefix nf w =
     for_each (\<lambda>i w. bind_res (buf512 (path d (numbered prefix i))) (\<lambda>n.
       let (fd, _, w1) = sys_open sys w n {}
       in demand (0 \<le> fd)
         (let (cc, j, w2) = sys_read sys w1 fd 4
          in demand (cc = 4) (demand ((le_decode j :: u32) = of_nat i)
            (let (_, w3) = sys_close sys w2 fd in Inr w3))))) [0..<nf] w"

definition unlinkn :: "'w posix \<Rightarrow> bytes \<Rightarrow> bytes \<Rightarrow> nat \<Rightarrow> 'w \<Rightarrow> 'w res" where
  "unlinkn sys d prefix nf w =
     for_each (\<lambda>i w. bind_res (buf512 (path d (numbered prefix i)))
       (\<lambda>n. let (r, w1) = sys_unlink sys w n in demand (r = 0) (Inr w1))) [0..<nf] w"

text \<open>Past 1000 names the array overflows: the program warns and writes all the same.\<close>

definition dircheck :: "'w posix \<Rightarrow> bytes \<Rightarrow> nat \<Rightarrow> 'w \<Rightarrow> 'w res" where
  "dircheck sys d nf w =
     (let (listing, w1) = sys_listdir sys w d
      in case listing of
           None \<Rightarrow> Inl Exit
         | Some all \<Rightarrow>
             (let names = filter (\<lambda>e. \<not> (e \<noteq> [] \<and> hd e = 46)) all
              in if 1000 < length names then Inl Out_Of_Bounds
                 else demand (nf = length names)
                   (let sorted_names = sort names
                    in demand (\<forall>i < length names - 1. sorted_names ! i \<noteq> sorted_names ! Suc i) (Inr w1))))"

section \<open>What the functions do\<close>

text \<open>\<open>steps\<close>: from every state in which the directory \<open>k\<close> has the entries \<open>es\<close> the function succeeds
  and leaves the entries \<open>es'\<close>.\<close>

definition steps :: "('w \<Rightarrow> 'k dirs) \<Rightarrow> 'k \<Rightarrow> entries \<Rightarrow> ('w \<Rightarrow> 'w res) \<Rightarrow> entries \<Rightarrow> bool" where
  "steps tree k es run es' \<longleftrightarrow> (\<forall>w. tree w k = Some es \<longrightarrow> (\<exists>w'. run w = Inr w' \<and> tree w' k = Some es'))"

definition short :: "bytes \<Rightarrow> bytes \<Rightarrow> bool" where
  "short d f \<longleftrightarrow> plain_name f \<and> d \<noteq> [] \<and> 0 \<notin> set d \<and> length (path d f) < 512"

lemma short_path: "short d f \<Longrightarrow> file_path d f"
  by (auto simp: short_def file_path_def dir_path_def path_def)

lemma strlen_all [simp]: "0 \<notin> set s \<Longrightarrow> strlen s = length s"
proof -
  assume "0 \<notin> set s"
  then have "takeWhile (\<lambda>c. c \<noteq> 0) s = s" by (auto simp: takeWhile_eq_all_conv)
  then show "strlen s = length s" by (simp only: strlen_def)
qed

lemma written_at_empty: "written_at 0 b [] = b"
  by (simp add: written_at_def)

lemma written_at_end: "written_at (length b) new b = b @ new"
  by (simp add: written_at_def)

lemma make_file:
  assumes ok: "posix_ok sys q dk tree fdt" and s: "short d f" and w: "tree w (dk d) = Some es" and new: "length new \<le> file_limit"
  obtains fd e w1 w2 w3 where "sys_creat sys w (path d f) = (fd, e, w1)" "0 \<le> fd"
    "sys_write sys w1 fd new = (int (length new), w2)" "sys_close sys w2 fd = (0, w3)"
    "tree w3 = (tree w)(dk d \<mapsto> es(f \<mapsto> new))"
proof -
  have f: "file_path d f" by (rule short_path [OF s])
  obtain fd e w1 where c: "sys_creat sys w (path d f) = (fd, e, w1)" "0 \<le> fd"
    "tree w1 = (tree w)(dk d \<mapsto> es(f \<mapsto> []))" "fdt w1 = (fdt w)((q, fd) \<mapsto> (dk d, f, 0, Writing))"
    by (rule creat_ok [OF ok f w])
  have at: "fdt w1 (q, fd) = Some (dk d, f, 0, Writing)" "tree w1 (dk d) = Some (es(f \<mapsto> []))" by (simp_all add: c(3,4))
  obtain w2 where r: "sys_write sys w1 fd new = (int (length new), w2)"
    "tree w2 = (tree w1)(dk d \<mapsto> es(f \<mapsto> new))" "fdt w2 (q, fd) \<noteq> None"
    by (rule write_ok [OF ok at, of "[]" new]) (simp_all only: fun_upd_same fun_upd_upd write_pos_simps written_at_empty option.distinct
      not_False_eq_True mode.distinct new add_0_left)
  obtain w3 where "sys_close sys w2 fd = (0, w3)" "tree w3 = tree w2" by (rule close_ok [OF ok r(3)])
  then show thesis using that c r by simp
qed

lemma create1_steps:
  assumes ok: "posix_ok sys q dk tree fdt" and s: "short d f" and inp: "0 \<notin> set inp" "length inp \<le> file_limit"
  shows "steps tree (dk d) es (create1 sys d f inp) (es(f \<mapsto> inp))"
  unfolding steps_def
proof (intro allI impI)
  fix w
  assume w: "tree w (dk d) = Some es"
  obtain fd e w1 w2 w3 where "sys_creat sys w (path d f) = (fd, e, w1)" "0 \<le> fd"
    "sys_write sys w1 fd inp = (int (length inp), w2)" "sys_close sys w2 fd = (0, w3)"
    "tree w3 = (tree w)(dk d \<mapsto> es(f \<mapsto> inp))" by (rule make_file [OF ok s w inp(2)])
  then show "\<exists>w'. create1 sys d f inp w = Inr w' \<and> tree w' (dk d) = Some (es(f \<mapsto> inp))"
    using s inp by (simp add: create1_def buf512_def short_def demand_def)
qed

text \<open>\<open>check1\<close> compares as many bytes as the path has, not as many as the contents have.\<close>

lemma check1_result:
  assumes ok: "posix_ok sys q dk tree fdt" and s: "short d f" and w: "tree w (dk d) = Some es" and b: "es f = Some b"
    and size: "length b \<le> 20999"
  shows "\<exists>w'. tree w' = tree w \<and> check1 sys d f inp w =
    (if length b = strlen inp \<and> strncmp_same (b @ [0]) inp (strlen (path d f)) then Inr w' else Inl Exit)"
proof -
  have f: "file_path d f" and es: "es f \<noteq> None" using short_path [OF s] b by simp_all
  obtain fd e w1 where o: "sys_open sys w (path d f) {} = (fd, e, w1)" "0 \<le> fd" "tree w1 = tree w"
    "fdt w1 = (fdt w)((q, fd) \<mapsto> (dk d, f, 0, mode_of {}))" by (rule open_ok [OF ok f w es])
  have at: "fdt w1 (q, fd) = Some (dk d, f, 0, Reading)" "tree w1 (dk d) = Some es" using w by (simp_all add: o(3,4))
  obtain w2 where r: "sys_read sys w1 fd 20999 = (int (length b), b, w2)" "tree w2 = tree w1" "fdt w2 (q, fd) \<noteq> None"
    by (rule read_ok [OF ok at b, of 20999]) (use size in auto)
  obtain w3 where "sys_close sys w2 fd = (0, w3)" "tree w3 = tree w2" by (rule close_ok [OF ok r(3)])
  then show ?thesis
    using o r s by (intro exI [of _ w3]) (simp add: check1_def buf512_def short_def demand_def)
qed

lemma check1_steps:
  assumes "posix_ok sys q dk tree fdt" and "short d f" and "es f = Some inp" and "0 \<notin> set inp" and "length inp \<le> 20999"
  shows "steps tree (dk d) es (check1 sys d f inp) es"
proof -
  have "strncmp_same (inp @ [0]) inp n" for n
  proof -
    have "takeWhile (\<lambda>c. c \<noteq> 0) (inp @ [0]) = inp" "takeWhile (\<lambda>c. c \<noteq> 0) inp = inp"
      using assms(4) by (auto simp: takeWhile_append takeWhile_eq_all_conv)
    then show ?thesis by (simp only: strncmp_same_def)
  qed
  note same = this [of "strlen (path d f)"]
  have "\<exists>w'. check1 sys d f inp w = Inr w' \<and> tree w' (dk d) = Some es" if w: "tree w (dk d) = Some es" for w
    using check1_result [OF assms(1,2) w assms(3,5), of inp] same assms(4) w by auto
  then show ?thesis by (simp add: steps_def)
qed

lemma unlink1_steps:
  assumes "posix_ok sys q dk tree fdt" and "short d f" and "es f \<noteq> None"
  shows "steps tree (dk d) es (unlink1 sys d f) (es(f := None))"
  unfolding steps_def
proof (intro allI impI)
  fix w
  assume w: "tree w (dk d) = Some es"
  have f: "file_path d f" by (rule short_path [OF assms(2)])
  obtain w' where "sys_unlink sys w (path d f) = (0, w')" "tree w' = (tree w)(dk d \<mapsto> es(f := None))"
    by (rule unlink_ok [OF assms(1) f w assms(3)])
  then show "\<exists>w'. unlink1 sys d f w = Inr w' \<and> tree w' (dk d) = Some (es(f := None))"
    using assms(2) by (simp add: unlink1_def buf512_def short_def demand_def)
qed

lemma checknot_steps:
  assumes "posix_ok sys q dk tree fdt" and "short d f" and "es f = None"
  shows "steps tree (dk d) es (checknot sys d f) es"
proof -
  have "\<exists>w'. checknot sys d f w = Inr w' \<and> tree w' (dk d) = Some es" if w: "tree w (dk d) = Some es" for w
  proof -
    obtain fd e w1 where "sys_open sys w (path d f) {} = (fd, e, w1)" "fd < 0" "tree w1 = tree w"
      by (rule open_missing [OF assms(1) _ w assms(3), of "{}"]) (use short_path [OF assms(2)] in auto)
    then show ?thesis using assms(2) w by (simp add: checknot_def buf512_def short_def demand_def)
  qed
  then show ?thesis by (simp add: steps_def)
qed

lemma append1_steps:
  assumes ok: "posix_ok sys q dk tree fdt" and s: "short d f" and b: "es f = Some b" and inp: "0 \<notin> set inp"
    and len: "length b + length inp \<le> file_limit"
  shows "steps tree (dk d) es (append1 sys d f inp) (es(f \<mapsto> b @ inp))"
  unfolding steps_def
proof (intro allI impI)
  fix w
  assume w: "tree w (dk d) = Some es"
  have f: "file_path d f" and es: "es f \<noteq> None" using short_path [OF s] b by simp_all
  obtain fd e w1 where o: "sys_open sys w (path d f) {O_WRONLY, O_APPEND} = (fd, e, w1)" "0 \<le> fd" "tree w1 = tree w"
    "fdt w1 = (fdt w)((q, fd) \<mapsto> (dk d, f, 0, mode_of {O_WRONLY, O_APPEND}))" by (rule open_ok [OF ok f w es])
  have at: "fdt w1 (q, fd) = Some (dk d, f, 0, Appending)" "tree w1 (dk d) = Some es" using w by (simp_all add: o(3,4))
  obtain w2 where r: "sys_write sys w1 fd inp = (int (length inp), w2)"
    "tree w2 = (tree w1)(dk d \<mapsto> es(f \<mapsto> b @ inp))" "fdt w2 (q, fd) \<noteq> None"
    by (rule write_ok [OF ok at b, of inp]) (use len in \<open>auto simp: written_at_end\<close>)
  obtain w3 where "sys_close sys w2 fd = (0, w3)" "tree w3 = tree w2" by (rule close_ok [OF ok r(3)])
  then show "\<exists>w'. append1 sys d f inp w = Inr w' \<and> tree w' (dk d) = Some (es(f \<mapsto> b @ inp))"
    using o r s inp by (simp add: append1_def buf512_def short_def demand_def)
qed

text \<open>A loop whose rounds are steps.\<close>

lemma loop_steps:
  assumes "\<And>i. i < n \<Longrightarrow> steps tree k (es i) (body i) (es (Suc i))"
  shows "steps tree k (es 0) (for_each body [0..<n]) (es n)"
  using assms
proof (induction n)
  case 0
  then show ?case by (simp add: steps_def)
next
  case (Suc n)
  have "steps tree k (es 0) (for_each body [0..<n]) (es n)" by (rule Suc.IH) (rule Suc.prems, simp)
  moreover have "steps tree k (es n) (body n) (es (Suc n))" by (rule Suc.prems) simp
  ultimately show ?case
    unfolding steps_def by (fastforce simp: for_each_snoc simp del: upt_Suc simp add: upt_Suc_append)
qed

lemma seq_steps:
  assumes "steps tree k es run es1" and "steps tree k es1 (for_each (\<lambda>s. s) runs) es2"
  shows "steps tree k es (for_each (\<lambda>s. s) (run # runs)) es2"
  using assms unfolding steps_def by fastforce

lemma no_steps: "steps tree k es (for_each (\<lambda>s. s) []) es"
  by (simp add: steps_def)

section \<open>Numbered files and directories\<close>

fun filled :: "entries \<Rightarrow> bytes \<Rightarrow> nat \<Rightarrow> entries" where
  "filled es p 0 = es"
| "filled es p (Suc n) = (filled es p n)(numbered p n \<mapsto> le_encode 4 (of_nat n :: u32))"

fun cleared :: "entries \<Rightarrow> bytes \<Rightarrow> nat \<Rightarrow> entries" where
  "cleared es p 0 = es"
| "cleared es p (Suc n) = (cleared es p n)(numbered p n := None)"

lemma numbered_inject [simp]: "numbered p i = numbered p j \<longleftrightarrow> i = j"
  using dec_value_dec by (metis append_Cons same_append_eq list.inject numbered_def)

lemma filled_at: "i < n \<Longrightarrow> filled es p n (numbered p i) = Some (le_encode 4 (of_nat i :: u32))"
  by (induction n) (auto simp: less_Suc_eq)

lemma filled_other: "x \<notin> numbered p ` {..<n} \<Longrightarrow> filled es p n x = es x"
  by (induction n) (auto simp: lessThan_Suc)

lemma dom_filled: "dom (filled es p n) = dom es \<union> numbered p ` {..<n}"
proof (induction n)
  case (Suc n)
  have "dom (filled es p (Suc n)) = insert (numbered p n) (dom (filled es p n))"
    by (simp only: filled.simps dom_fun_upd option.distinct if_False)
  then show ?case using Suc.IH by (simp only: lessThan_Suc image_insert Un_insert_right)
qed simp

lemma cleared_eq: "cleared es p n x = (if x \<in> numbered p ` {..<n} then None else es x)"
  by (induction n) (auto simp: lessThan_Suc)

lemma card_numbered: "card (numbered p ` {..<n}) = n"
  by (subst card_image) (simp_all add: inj_on_def)

lemma short_numbered:
  assumes "plain_name p" and "length p < 20" and "length d < 480" and "d \<noteq> []" "0 \<notin> set d" and "i < 100"
  shows "short d (numbered p i)"
proof -
  have "x \<noteq> 47 \<and> x \<noteq> 0" if "x \<in> set (dec i)" for x
    using dec_digits [OF that] by (auto simp: is_digit_def word_le_nat_alt)
  moreover have "length (dec i) \<le> 2" using length_dec [of i 2] assms(6) by simp
  ultimately show ?thesis
    using assms by (auto simp: short_def plain_name_def numbered_def path_def)
qed

lemma createn_steps:
  assumes ok: "posix_ok sys q dk tree fdt" and s: "\<And>i. i < n \<Longrightarrow> short d (numbered p i)"
  shows "steps tree (dk d) es (createn sys d p n dup) (filled es p n)"
  unfolding createn_def
proof (rule loop_steps [where es = "filled es p", simplified])
  fix i
  assume i: "i < n"
  note f = s [OF i]
  show "steps tree (dk d) (filled es p i) (\<lambda>w. bind_res (buf512 (path d (numbered p i))) (\<lambda>n.
       let (fd, errno, w1) = sys_creat sys w n
       in if fd < 0 \<and> dup \<and> errno = EEXIST_errno then Inr w1
          else demand (0 \<le> fd)
            (let (cc, w2) = sys_write sys w1 fd (le_encode 4 (of_nat i :: u32))
             in demand (cc = 4) (let (r, w3) = sys_close sys w2 fd in demand (r = 0) (Inr w3)))))
      ((filled es p i)(numbered p i \<mapsto> le_encode 4 (of_nat i :: u32)))"
    unfolding steps_def
  proof (intro allI impI)
    fix w
    assume w: "tree w (dk d) = Some (filled es p i)"
    obtain fd e w1 w2 w3 where "sys_creat sys w (path d (numbered p i)) = (fd, e, w1)" "0 \<le> fd"
      "sys_write sys w1 fd (le_encode 4 (of_nat i :: u32)) = (int (length (le_encode 4 (of_nat i :: u32))), w2)"
      "sys_close sys w2 fd = (0, w3)"
      "tree w3 = (tree w)(dk d \<mapsto> (filled es p i)(numbered p i \<mapsto> le_encode 4 (of_nat i :: u32)))"
      by (rule make_file [OF ok f w, of "le_encode 4 (of_nat i :: u32)"]) (simp_all add: file_limit_def)
    then show "\<exists>w'. bind_res (buf512 (path d (numbered p i))) (\<lambda>n.
       let (fd, errno, w1) = sys_creat sys w n
       in if fd < 0 \<and> dup \<and> errno = EEXIST_errno then Inr w1
          else demand (0 \<le> fd)
            (let (cc, w2) = sys_write sys w1 fd (le_encode 4 (of_nat i :: u32))
             in demand (cc = 4) (let (r, w3) = sys_close sys w2 fd in demand (r = 0) (Inr w3)))) = Inr w'
      \<and> tree w' (dk d) = Some ((filled es p i)(numbered p i \<mapsto> le_encode 4 (of_nat i :: u32)))"
      using f by (auto simp: buf512_def short_def demand_def)
  qed
qed

lemma checkn_steps:
  assumes ok: "posix_ok sys q dk tree fdt" and s: "\<And>i. i < n \<Longrightarrow> short d (numbered p i)"
    and c: "\<And>i. i < n \<Longrightarrow> es (numbered p i) = Some (le_encode 4 (of_nat i :: u32))"
  shows "steps tree (dk d) es (checkn sys d p n) es"
  unfolding checkn_def
proof (rule loop_steps [where es = "\<lambda>_. es"])
  fix i
  assume i: "i < n"
  let ?f = "numbered p i" and ?b = "le_encode 4 (of_nat i :: u32)"
  have j: "(le_decode ?b :: u32) = of_nat i" by (simp add: le_decode_encode)
  show "steps tree (dk d) es (\<lambda>w. bind_res (buf512 (path d ?f)) (\<lambda>n. let (fd, _, w1) = sys_open sys w n {}
       in demand (0 \<le> fd) (let (cc, j, w2) = sys_read sys w1 fd 4
          in demand (cc = 4) (demand ((le_decode j :: u32) = of_nat i) (let (_, w3) = sys_close sys w2 fd in Inr w3))))) es"
    unfolding steps_def
  proof (intro allI impI)
    fix w
    assume w: "tree w (dk d) = Some es"
    have f: "file_path d ?f" and e: "es ?f \<noteq> None" using short_path [OF s [OF i]] c [OF i] by simp_all
    obtain fd e w1 where o: "sys_open sys w (path d ?f) {} = (fd, e, w1)" "0 \<le> fd" "tree w1 = tree w"
      "fdt w1 = (fdt w)((q, fd) \<mapsto> (dk d, ?f, 0, mode_of {}))" by (rule open_ok [OF ok f w e])
    have at: "fdt w1 (q, fd) = Some (dk d, ?f, 0, Reading)" "tree w1 (dk d) = Some es" using w by (simp_all add: o(3,4))
    obtain w2 where r: "sys_read sys w1 fd 4 = (4, ?b, w2)" "tree w2 = tree w1" "fdt w2 (q, fd) \<noteq> None"
      by (rule read_ok [OF ok at c [OF i], of 4]) auto
    obtain w3 where "sys_close sys w2 fd = (0, w3)" "tree w3 = tree w2" by (rule close_ok [OF ok r(3)])
    then show "\<exists>w'. bind_res (buf512 (path d ?f)) (\<lambda>n. let (fd, _, w1) = sys_open sys w n {}
       in demand (0 \<le> fd) (let (cc, j, w2) = sys_read sys w1 fd 4
          in demand (cc = 4) (demand ((le_decode j :: u32) = of_nat i) (let (_, w3) = sys_close sys w2 fd in Inr w3)))) = Inr w'
        \<and> tree w' (dk d) = Some es"
      using o r j s [OF i] w by (simp add: buf512_def short_def demand_def)
  qed
qed

lemma unlinkn_steps:
  assumes ok: "posix_ok sys q dk tree fdt" and s: "\<And>i. i < n \<Longrightarrow> short d (numbered p i)"
    and c: "\<And>i. i < n \<Longrightarrow> cleared es p i (numbered p i) \<noteq> None"
  shows "steps tree (dk d) es (unlinkn sys d p n) (cleared es p n)"
  unfolding unlinkn_def
proof (rule loop_steps [where es = "cleared es p", simplified])
  fix i
  assume i: "i < n"
  show "steps tree (dk d) (cleared es p i) (\<lambda>w. bind_res (buf512 (path d (numbered p i)))
       (\<lambda>n. let (r, w1) = sys_unlink sys w n in demand (r = 0) (Inr w1))) ((cleared es p i)(numbered p i := None))"
    using unlink1_steps [where es = "cleared es p i", OF ok s [OF i] c [OF i]] by (simp add: unlink1_def [abs_def])
qed

text \<open>The names that do not begin with a dot are the entries, without duplicates.\<close>

lemma listed_names:
  fixes ns :: "bytes list"
  defines "names \<equiv> filter (\<lambda>e. \<not> (e \<noteq> [] \<and> hd e = 46)) ns"
  assumes "distinct ns" and "dom es \<subseteq> set ns" and "set ns \<subseteq> dom es \<union> {[46], [46, 46]}"
    and plain: "\<And>f. f \<in> dom es \<Longrightarrow> plain_name f"
  shows "length names = card (dom es)" and "\<forall>i < length names - 1. sort names ! i \<noteq> sort names ! Suc i"
proof -
  have "set names = dom es" using assms(3,4) plain by (auto simp: names_def plain_name_def)
  then show "length names = card (dom es)" using distinct_card [of names] assms(2) by (simp add: names_def)
  have "distinct (sort names)" using assms(2) by (simp add: names_def)
  then show "\<forall>i < length names - 1. sort names ! i \<noteq> sort names ! Suc i" by (auto simp: nth_eq_iff_index_eq)
qed

lemma dircheck_same:
  assumes ok: "posix_ok sys q dk tree fdt" and d: "dir_path d" and w: "tree w (dk d) = Some es" and plain: "\<And>f. f \<in> dom es \<Longrightarrow> plain_name f"
    and n: "card (dom es) = n" and le: "n \<le> 1000"
  shows "\<exists>w'. dircheck sys d n w = Inr w' \<and> tree w' = tree w"
proof -
  obtain ns w1 where l: "sys_listdir sys w d = (Some ns, w1)" "distinct ns" "dom es \<subseteq> set ns"
    "set ns \<subseteq> dom es \<union> {[46], [46, 46]}" "tree w1 = tree w" by (rule list_ok [OF ok d w])
  note names = listed_names [OF l(2-4) plain]
  show ?thesis using l(1,5) le names(2) names(1) n by (simp add: dircheck_def demand_def Let_def)
qed

lemma dircheck_steps:
  assumes "posix_ok sys q dk tree fdt" and "dir_path d" and "\<And>f. f \<in> dom es \<Longrightarrow> plain_name f" and "card (dom es) = n" and "n \<le> 1000"
  shows "steps tree (dk d) es (dircheck sys d n) es"
  unfolding steps_def
proof (intro allI impI)
  fix w
  assume w: "tree w (dk d) = Some es"
  show "\<exists>w'. dircheck sys d n w = Inr w' \<and> tree w' (dk d) = Some es"
    using dircheck_same [OF assms(1,2) w assms(3-5)] w by auto
qed

section \<open>The program\<close>

definition lit :: "string \<Rightarrow> bytes" where
  "lit s = map of_char s"

definition big :: bytes where
  "big = replicate 20000 120"

text \<open>The tests of \<open>main\<close>, in order; \<open>d1\<close> and \<open>d2\<close> are the directory through the two mount points.\<close>

definition create_unlink_tests :: "'w posix \<Rightarrow> bytes \<Rightarrow> bytes \<Rightarrow> ('w \<Rightarrow> 'w res) list" where
  "create_unlink_tests sys d1 d2 =
    [create1 sys d1 (lit ''f1'') (lit ''aaa''), check1 sys d2 (lit ''f1'') (lit ''aaa''), check1 sys d1 (lit ''f1'') (lit ''aaa''),
     unlink1 sys d2 (lit ''f1''), create1 sys d1 (lit ''fx1'') (lit ''fxx''), unlink1 sys d1 (lit ''fx1''),
     checknot sys d1 (lit ''f1''), checknot sys d2 (lit ''f1''),
     create1 sys d1 (lit ''f2'') (lit ''222''), unlink1 sys d2 (lit ''f2''), checknot sys d1 (lit ''f2''), checknot sys d2 (lit ''f2''),
     create1 sys d1 (lit ''f3'') (lit ''333''), check1 sys d2 (lit ''f3'') (lit ''333''), check1 sys d1 (lit ''f3'') (lit ''333''),
     unlink1 sys d1 (lit ''f3''), create1 sys d2 (lit ''fx2'') (lit ''22''), unlink1 sys d2 (lit ''fx2''),
     checknot sys d2 (lit ''f3''), checknot sys d1 (lit ''f3'')]"

definition append_tests :: "'w posix \<Rightarrow> bytes \<Rightarrow> bytes \<Rightarrow> ('w \<Rightarrow> 'w res) list" where
  "append_tests sys d1 d2 =
    [create1 sys d2 (lit ''f1'') (lit ''aaa''), append1 sys d1 (lit ''f1'') (lit ''bbb''), append1 sys d2 (lit ''f1'') (lit ''ccc''),
     check1 sys d1 (lit ''f1'') (lit ''aaabbbccc''), check1 sys d2 (lit ''f1'') (lit ''aaabbbccc'')]"

definition readdir_tests :: "'w posix \<Rightarrow> bytes \<Rightarrow> bytes \<Rightarrow> ('w \<Rightarrow> 'w res) list" where
  "readdir_tests sys d1 d2 =
    [dircheck sys d1 1, dircheck sys d2 1, unlink1 sys d1 (lit ''f1''), dircheck sys d1 0, dircheck sys d2 0,
     create1 sys d2 (lit ''f2'') (lit ''aaa''), create1 sys d1 (lit ''f3'') (lit ''aaa''), dircheck sys d1 2, dircheck sys d2 2,
     unlink1 sys d2 (lit ''f2''), dircheck sys d2 1, dircheck sys d1 1, unlink1 sys d2 (lit ''f3''), dircheck sys d1 0, dircheck sys d2 0]"

definition many_tests :: "'w posix \<Rightarrow> bytes \<Rightarrow> bytes \<Rightarrow> ('w \<Rightarrow> 'w res) list" where
  "many_tests sys d1 d2 =
    [createn sys d1 (lit ''aa'') 10 False, createn sys d2 (lit ''bb'') 10 False, dircheck sys d2 20,
     checkn sys d2 (lit ''bb'') 10, checkn sys d2 (lit ''aa'') 10, checkn sys d1 (lit ''aa'') 10, checkn sys d1 (lit ''bb'') 10,
     unlinkn sys d1 (lit ''aa'') 10, unlinkn sys d2 (lit ''bb'') 10]"

definition big_tests :: "'w posix \<Rightarrow> bytes \<Rightarrow> bytes \<Rightarrow> ('w \<Rightarrow> 'w res) list" where
  "big_tests sys d1 d2 =
    [create1 sys d1 (lit ''bf'') big, check1 sys d1 (lit ''bf'') big, check1 sys d2 (lit ''bf'') big, unlink1 sys d1 (lit ''bf'')]"

definition part1g_tests :: "'w posix \<Rightarrow> bytes \<Rightarrow> bytes \<Rightarrow> ('w \<Rightarrow> 'w res) list" where
  "part1g_tests sys d1 d2 = create_unlink_tests sys d1 d2 @ append_tests sys d1 d2 @ readdir_tests sys d1 d2
     @ many_tests sys d1 d2 @ big_tests sys d1 d2"

text \<open>\<open>args\<close> are the arguments after the program's name, \<open>pid\<close> is the number of the process: the
  directory is made through the first mount point and looked for through the second.\<close>

definition in_new_dir :: "'w posix \<Rightarrow> bytes list \<Rightarrow> nat \<Rightarrow> (bytes \<Rightarrow> bytes \<Rightarrow> 'w \<Rightarrow> 'w res) \<Rightarrow> 'w \<Rightarrow> 'w res" where
  "in_new_dir sys args pid tests w =
     (case args of
        [a1, a2] \<Rightarrow>
          bind_res (buf512 (path a1 (100 # dec pid))) (\<lambda>d1.
            let (r, w1) = sys_mkdir sys w d1
            in demand (r = 0)
              (bind_res (buf512 (path a2 (100 # dec pid))) (\<lambda>d2.
                 let (r, w2) = sys_access sys w1 d2 in demand (r = 0) (tests d1 d2 w2))))
      | _ \<Rightarrow> Inl Exit)"

definition part1g_main :: "'w posix \<Rightarrow> bytes list \<Rightarrow> nat \<Rightarrow> 'w \<Rightarrow> 'w res" where
  "part1g_main sys args pid = in_new_dir sys args pid (\<lambda>d1 d2. for_each (\<lambda>s. s) (part1g_tests sys d1 d2))"

lemma lits: "lit ''f1'' = [102, 49]" "lit ''f2'' = [102, 50]" "lit ''f3'' = [102, 51]" "lit ''fx1'' = [102, 120, 49]"
  "lit ''fx2'' = [102, 120, 50]" "lit ''bf'' = [98, 102]" "lit ''aa'' = [97, 97]" "lit ''bb'' = [98, 98]"
  "lit ''aaa'' = [97, 97, 97]" "lit ''bbb'' = [98, 98, 98]" "lit ''ccc'' = [99, 99, 99]" "lit ''fxx'' = [102, 120, 120]"
  "lit ''222'' = [50, 50, 50]" "lit ''333'' = [51, 51, 51]" "lit ''22'' = [50, 50]"
  "lit ''aaabbbccc'' = [97, 97, 97, 98, 98, 98, 99, 99, 99]"
  by (simp_all add: lit_def of_char_def)

end
