(* ===== verification/Posix_Memory.thy ===== *)
theory Posix_Memory
  imports Posix "HOL-Library.AList"
begin

text \<open>
  An operating system in memory: a directory for each last component of a path, with its
  entries as an association list, a table of descriptors, and the children that were not yet waited for. A call on a
  descriptor that is closed, or open for the other direction, fails. It behaves as \<open>posix_ok\<close> says, so
  the hypotheses of the properties of the test programs can hold.
\<close>

record memory =
  m_files :: "bytes \<Rightarrow> (bytes \<times> bytes) list"
  m_fds :: "process \<Rightarrow> nat \<Rightarrow> (bytes \<times> bytes \<times> nat \<times> mode) option"
  m_next :: nat
  m_kids :: "int list"

definition after_slash :: "bytes \<Rightarrow> bytes" where
  "after_slash p = rev (takeWhile (\<lambda>c. c \<noteq> 47) (rev p))"

definition before_slash :: "bytes \<Rightarrow> bytes" where
  "before_slash p = rev (tl (dropWhile (\<lambda>c. c \<noteq> 47) (rev p)))"

text \<open>The directory that contains the file of a path.\<close>

definition parent_of :: "bytes \<Rightarrow> bytes" where
  "parent_of p = after_slash (before_slash p)"

definition m_tree :: "memory \<Rightarrow> bytes dirs" where
  "m_tree w = (\<lambda>k. Some (map_of (m_files w k)))"

definition m_open :: "memory \<Rightarrow> bytes descriptors" where
  "m_open w = (\<lambda>(p, fd). if 0 \<le> fd \<and> nat fd < m_next w then m_fds w p (nat fd) else None)"

definition m_data :: "memory \<Rightarrow> bytes \<Rightarrow> bytes \<Rightarrow> bytes" where
  "m_data w k f = (case map_of (m_files w k) f of None \<Rightarrow> [] | Some b \<Rightarrow> b)"

definition m_put :: "bytes \<Rightarrow> bytes \<Rightarrow> bytes \<Rightarrow> memory \<Rightarrow> memory" where
  "m_put k f b w = w\<lparr>m_files := (m_files w)(k := AList.update f b (m_files w k))\<rparr>"

definition m_set_fd :: "process \<Rightarrow> nat \<Rightarrow> (bytes \<times> bytes \<times> nat \<times> mode) option \<Rightarrow> memory \<Rightarrow> memory" where
  "m_set_fd p n x w = w\<lparr>m_fds := (m_fds w)(p := (m_fds w p)(n := x))\<rparr>"

definition m_new_fd :: "process \<Rightarrow> bytes \<times> bytes \<times> nat \<times> mode \<Rightarrow> memory \<Rightarrow> int \<times> int \<times> memory" where
  "m_new_fd p x w = (int (m_next w), 0, w\<lparr>m_fds := (\<lambda>q. (m_fds w q)(m_next w := if q = p then Some x else None)),
     m_next := Suc (m_next w)\<rparr>)"

definition memory_calls :: "process \<Rightarrow> memory posix" where
  "memory_calls p = \<lparr>
     sys_creat = (\<lambda>w n. m_new_fd p (parent_of n, after_slash n, 0, Writing) (m_put (parent_of n) (after_slash n) [] w)),
     sys_open = (\<lambda>w n fl. if map_of (m_files w (parent_of n)) (after_slash n) = None \<and> O_CREAT \<notin> fl then (- 1, 2, w)
       else m_new_fd p (parent_of n, after_slash n, 0, mode_of fl)
         (m_put (parent_of n) (after_slash n) (m_data w (parent_of n) (after_slash n)) w)),
     sys_read = (\<lambda>w fd n. case m_open w (p, fd) of None \<Rightarrow> (- 1, [], w)
       | Some (k, f, pos, m) \<Rightarrow> if m \<noteq> Reading then (- 1, [], w) else (let r = take n (drop pos (m_data w k f))
           in (int (length r), r, m_set_fd p (nat fd) (Some (k, f, pos + length r, m)) w))),
     sys_write = (\<lambda>w fd new. case m_open w (p, fd) of None \<Rightarrow> (- 1, w)
       | Some (k, f, pos, m) \<Rightarrow> if m = Reading then (- 1, w) else (let at = write_pos m pos (m_data w k f)
           in (int (length new), m_set_fd p (nat fd) (Some (k, f, at + length new, m))
                (m_put k f (written_at at new (m_data w k f)) w)))),
     sys_lseek = (\<lambda>w fd n. case m_open w (p, fd) of None \<Rightarrow> (- 1, w)
       | Some (k, f, pos, m) \<Rightarrow> if n < 0 then (- 1, w) else (n, m_set_fd p (nat fd) (Some (k, f, nat n, m)) w)),
     sys_fsync = (\<lambda>w fd. if m_open w (p, fd) = None then (- 1, w) else (0, w)),
     sys_close = (\<lambda>w fd. if m_open w (p, fd) = None then (- 1, w) else (0, m_set_fd p (nat fd) None w)),
     sys_unlink = (\<lambda>w n. if map_of (m_files w (parent_of n)) (after_slash n) = None then (- 1, w)
       else (0, w\<lparr>m_files := (m_files w)(parent_of n := AList.delete (after_slash n) (m_files w (parent_of n)))\<rparr>)),
     sys_mkdir = (\<lambda>w n. (0, w)), sys_access = (\<lambda>w n. (0, w)),
     sys_listdir = (\<lambda>w n. (Some ([46] # [46, 46] # filter (\<lambda>f. f \<noteq> [46] \<and> f \<noteq> [46, 46])
       (remdups (map fst (m_files w (after_slash n))))), w))\<rparr>"

lemma path_parts:
  assumes "plain_name f"
  shows "after_slash (path d f) = f" and "before_slash (path d f) = d"
proof -
  have "\<forall>c \<in> set (rev f). c \<noteq> 47" using assms by (auto simp: plain_name_def)
  then show "after_slash (path d f) = f" "before_slash (path d f) = d"
    by (simp_all add: after_slash_def before_slash_def path_def takeWhile_append dropWhile_append takeWhile_eq_all_conv [THEN iffD2]
        dropWhile_eq_Nil_conv [THEN iffD2])
qed

lemma file_path_parts: "file_path d f \<Longrightarrow> after_slash (path d f) = f" "file_path d f \<Longrightarrow> before_slash (path d f) = d"
  by (simp_all add: file_path_def path_parts)

lemmas m_defs = memory_calls_def m_tree_def m_open_def m_new_fd_def m_set_fd_def m_put_def m_data_def fun_eq_iff
  file_path_parts parent_of_def AList.update_conv' AList.delete_conv'

lemma memory_ok: "posix_ok (memory_calls p) p after_slash m_tree m_open"
proof -
  have "creat_law (memory_calls p) p after_slash m_tree m_open"
    unfolding creat_law_def by (auto simp: m_defs)
  moreover have "open_law (memory_calls p) p after_slash m_tree m_open"
    unfolding open_law_def by (auto simp: m_defs)
  moreover have "read_law (memory_calls p) p m_tree m_open"
    unfolding read_law_def by (auto simp: m_defs Let_def split: if_splits)
  moreover have "write_law (memory_calls p) p m_tree m_open"
    unfolding write_law_def by (auto simp: m_defs Let_def split: if_splits)
  moreover have "lseek_law (memory_calls p) p m_tree m_open"
    unfolding lseek_law_def by (auto simp: m_defs split: if_splits)
  moreover have "fsync_law (memory_calls p) p m_tree m_open"
    unfolding fsync_law_def by (auto simp: m_defs)
  moreover have "close_law (memory_calls p) p m_tree m_open"
    unfolding close_law_def by (auto simp: m_defs split: if_splits)
  moreover have "unlink_law (memory_calls p) after_slash m_tree m_open"
    unfolding unlink_law_def by (auto simp: m_defs)
  moreover have "list_law (memory_calls p) after_slash m_tree m_open"
    unfolding list_law_def by (auto simp: memory_calls_def m_tree_def dom_map_of_conv_image_fst)
  ultimately show ?thesis by (simp add: posix_ok_def)
qed

end
