(* ===== verification/Test_Properties.thy ===== *)
theory Test_Properties
  imports Test_Files Posix_Memory
begin

text \<open>
  The properties of the test program: it passes on every file system whose two mount points
  show one directory and whose system calls behave as documented, and what one of its checks
  does not notice.
\<close>

section \<open>The tests one after the other\<close>

text \<open>A path \<open>d\<close> to the directory \<open>k\<close> with space for a file name.\<close>

definition leads :: "(bytes \<Rightarrow> 'k) \<Rightarrow> 'k \<Rightarrow> bytes \<Rightarrow> bool" where
  "leads dk k d \<longleftrightarrow> dk d = k \<and> d \<noteq> [] \<and> 0 \<notin> set d \<and> length d < 480"

lemma leads_dir: "leads dk k d \<Longrightarrow> dir_path d"
  by (simp add: leads_def dir_path_def)

lemma leads_path: "dk (path a x) = k \<Longrightarrow> 0 \<notin> set a \<Longrightarrow> 0 \<notin> set x \<Longrightarrow> length (path a x) < 480 \<Longrightarrow> leads dk k (path a x)"
  by (simp add: leads_def path_def)

lemma no_zero: "0 \<notin> set (dec n)"
  using dec_digits [of 0 n] by (auto simp: is_digit_def word_le_nat_alt)

lemma leads_short: "leads dk k d \<Longrightarrow> plain_name f \<Longrightarrow> length f < 20 \<Longrightarrow> short d f"
  by (simp add: leads_def short_def path_def)

lemma leads_numbered: "leads dk k d \<Longrightarrow> plain_name p \<Longrightarrow> length p < 20 \<Longrightarrow> i < 100 \<Longrightarrow> short d (numbered p i)"
  by (rule short_numbered) (simp_all add: leads_def)

lemma file_tests:
  assumes ok: "posix_ok sys q dk tree fdt" and d: "leads dk k d" and f: "plain_name f" "length f < 20"
  shows "0 \<notin> set inp \<Longrightarrow> length inp \<le> file_limit \<Longrightarrow> steps tree k es (create1 sys d f inp) (es(f \<mapsto> inp))"
    and "es f = Some inp \<Longrightarrow> 0 \<notin> set inp \<Longrightarrow> length inp \<le> 20999 \<Longrightarrow> steps tree k es (check1 sys d f inp) es"
    and "es f \<noteq> None \<Longrightarrow> steps tree k es (unlink1 sys d f) (es(f := None))"
    and "es f = None \<Longrightarrow> steps tree k es (checknot sys d f) es"
    and "es f \<noteq> None \<Longrightarrow> 0 \<notin> set inp \<Longrightarrow> length (the (es f)) + length inp \<le> file_limit \<Longrightarrow> steps tree k es (append1 sys d f inp) (es(f \<mapsto> the (es f) @ inp))"
  using create1_steps [OF ok leads_short [OF d f], of inp es] check1_steps [OF ok leads_short [OF d f], of es inp]
    unlink1_steps [OF ok leads_short [OF d f], of es] checknot_steps [OF ok leads_short [OF d f], of es]
    append1_steps [OF ok leads_short [OF d f], of es "the (es f)" inp] d
  by (auto simp: leads_def)

lemma dir_tests:
  assumes ok: "posix_ok sys q dk tree fdt" and d: "leads dk k d"
  shows "plain_name p \<Longrightarrow> length p < 20 \<Longrightarrow> n \<le> 10 \<Longrightarrow> steps tree k es (createn sys d p n dup) (filled es p n)"
    and "plain_name p \<Longrightarrow> length p < 20 \<Longrightarrow> n \<le> 10 \<Longrightarrow>
      (\<And>i. i < n \<Longrightarrow> es (numbered p i) = Some (le_encode 4 (of_nat i :: u32))) \<Longrightarrow> steps tree k es (checkn sys d p n) es"
    and "plain_name p \<Longrightarrow> length p < 20 \<Longrightarrow> n \<le> 10 \<Longrightarrow> (\<And>i. i < n \<Longrightarrow> cleared es p i (numbered p i) \<noteq> None) \<Longrightarrow>
      steps tree k es (unlinkn sys d p n) (cleared es p n)"
    and "(\<And>f. f \<in> dom es \<Longrightarrow> plain_name f) \<Longrightarrow> card (dom es) = m \<Longrightarrow> m \<le> 1000 \<Longrightarrow>
      steps tree k es (dircheck sys d m) es"
  using createn_steps [OF ok, of n d p es dup] checkn_steps [OF ok, of n d p es] unlinkn_steps [OF ok, of n d p es]
    dircheck_steps [OF ok leads_dir [OF d], of es m] leads_numbered [OF d, of p] d
  by (simp_all add: leads_def)

lemma done_steps: "es = es' \<Longrightarrow> steps tree k es (for_each (\<lambda>s. s) []) es'"
  by (simp add: steps_def)

lemma steps_append:
  "steps tree k es (for_each (\<lambda>s. s) xs) es1 \<Longrightarrow> steps tree k es1 (for_each (\<lambda>s. s) ys) es2 \<Longrightarrow>
     steps tree k es (for_each (\<lambda>s. s) (xs @ ys)) es2"
  unfolding steps_def by (fastforce simp: for_each_append)

lemma plain_lits: "plain_name (lit ''f1'')" "plain_name (lit ''f2'')" "plain_name (lit ''f3'')" "plain_name (lit ''fx1'')"
  "plain_name (lit ''fx2'')" "plain_name (lit ''bf'')" "plain_name (lit ''aa'')" "plain_name (lit ''bb'')"
  by (simp_all add: plain_name_def lits)

lemma zero_free: "0 \<notin> set (lit ''aaa'')" "0 \<notin> set (lit ''bbb'')" "0 \<notin> set (lit ''ccc'')" "0 \<notin> set (lit ''fxx'')"
  "0 \<notin> set (lit ''222'')" "0 \<notin> set (lit ''333'')" "0 \<notin> set (lit ''22'')" "0 \<notin> set (lit ''aaabbbccc'')" "0 \<notin> set big"
  by (simp_all add: lits big_def)

lemma numbered_apart: "numbered (lit ''aa'') i \<noteq> numbered (lit ''bb'') j" "numbered (lit ''bb'') j \<noteq> numbered (lit ''aa'') i"
  by (simp_all add: numbered_def lits)

text \<open>A directory with the numbered files of two prefixes.\<close>

lemma two_prefixes:
  fixes p1 p2 :: bytes and n :: nat
  defines "es \<equiv> filled (filled Map.empty p1 n) p2 n"
  assumes apart: "\<And>i j. numbered p1 i \<noteq> numbered p2 j"
  shows "finite (dom es)" and "card (dom es) = 2 * n" and "f \<in> dom es \<Longrightarrow> \<exists>i < n. f = numbered p1 i \<or> f = numbered p2 i"
    and "i < n \<Longrightarrow> es (numbered p1 i) = Some (le_encode 4 (of_nat i :: u32))"
    and "i < n \<Longrightarrow> es (numbered p2 i) = Some (le_encode 4 (of_nat i :: u32))"
    and "i < n \<Longrightarrow> cleared es p1 i (numbered p1 i) \<noteq> None"
    and "i < n \<Longrightarrow> cleared (cleared es p1 n) p2 i (numbered p2 i) \<noteq> None"
    and "cleared (cleared es p1 n) p2 n = Map.empty"
proof -
  note apart = apart apart [symmetric]
  have dom: "dom es = numbered p1 ` {..<n} \<union> numbered p2 ` {..<n}" by (simp add: es_def dom_filled)
  have "numbered p1 ` {..<n} \<inter> numbered p2 ` {..<n} = {}" using apart by auto
  then show "card (dom es) = 2 * n" by (simp add: dom card_Un_disjoint card_numbered)
  show "finite (dom es)" by (simp add: dom)
  show "\<exists>i < n. f = numbered p1 i \<or> f = numbered p2 i" if "f \<in> dom es" using that unfolding dom by auto
  have 1: "es (numbered p1 i) = Some (le_encode 4 (of_nat i :: u32))" if "i < n" for i
    using that apart unfolding es_def by (subst filled_other) (auto simp: filled_at)
  have 2: "es (numbered p2 i) = Some (le_encode 4 (of_nat i :: u32))" if "i < n" for i
    using that unfolding es_def by (rule filled_at)
  show "es (numbered p1 i) = Some (le_encode 4 (of_nat i :: u32))" if "i < n" using that by (rule 1)
  show "es (numbered p2 i) = Some (le_encode 4 (of_nat i :: u32))" if "i < n" using that by (rule 2)
  show "cleared es p1 i (numbered p1 i) \<noteq> None" if "i < n" using 1 [OF that] by (auto simp: cleared_eq)
  show "cleared (cleared es p1 n) p2 i (numbered p2 i) \<noteq> None" if "i < n" using 2 [OF that] apart by (auto simp: cleared_eq)
  show "cleared (cleared es p1 n) p2 n = Map.empty" using dom by (auto simp: fun_eq_iff cleared_eq domIff)
qed

lemma leads_plain: "leads dk k d \<Longrightarrow> plain_name p \<Longrightarrow> length p < 20 \<Longrightarrow> i < 100 \<Longrightarrow> plain_name (numbered p i)"
  by (drule (3) leads_numbered) (simp add: short_def)

lemma many_phase:
  assumes ok: "posix_ok sys q dk tree fdt" and d: "leads dk k d1" "leads dk k d2"
  shows "steps tree k Map.empty (for_each (\<lambda>s. s) (many_tests sys d1 d2)) Map.empty"
proof -
  let ?es = "filled (filled Map.empty (lit ''aa'') 10) (lit ''bb'') 10"
  note two = two_prefixes [of "lit ''aa''" "lit ''bb''", OF numbered_apart(1)]
  have plain: "plain_name f" if "f \<in> dom ?es" for f
    using two(3) [OF that] leads_plain [OF d(1)] plain_lits(7,8) by (auto simp: lits)
  have card: "card (dom ?es) = 20" using two(2) [of 10] by simp
  note run = dir_tests [OF ok d(1), THEN seq_steps] dir_tests [OF ok d(2), THEN seq_steps]
  have "steps tree k Map.empty (for_each (\<lambda>s. s) (many_tests sys d1 d2)) (cleared (cleared ?es (lit ''aa'') 10) (lit ''bb'') 10)"
    unfolding many_tests_def
    by (intro run done_steps) (rule refl plain_lits plain card two | assumption | simp add: lits)+
  then show ?thesis unfolding two(8) .
qed

lemma phases:
  assumes ok: "posix_ok sys q dk tree fdt" and d: "leads dk k d1" "leads dk k d2"
  shows "steps tree k Map.empty (for_each (\<lambda>s. s) (create_unlink_tests sys d1 d2)) Map.empty"
    and "steps tree k Map.empty (for_each (\<lambda>s. s) (append_tests sys d1 d2)) [lit ''f1'' \<mapsto> lit ''aaabbbccc'']"
    and "steps tree k [lit ''f1'' \<mapsto> lit ''aaabbbccc''] (for_each (\<lambda>s. s) (readdir_tests sys d1 d2)) Map.empty"
    and "steps tree k Map.empty (for_each (\<lambda>s. s) (big_tests sys d1 d2)) Map.empty"
proof -
  note run = done_steps file_tests [OF ok d(1), THEN seq_steps] file_tests [OF ok d(2), THEN seq_steps]
    dir_tests [OF ok d(1), THEN seq_steps] dir_tests [OF ok d(2), THEN seq_steps]
  show "steps tree k Map.empty (for_each (\<lambda>s. s) (create_unlink_tests sys d1 d2)) Map.empty"
    unfolding create_unlink_tests_def by (intro run) (simp_all add: plain_lits zero_free, simp_all add: lits file_limit_def)
  show "steps tree k Map.empty (for_each (\<lambda>s. s) (append_tests sys d1 d2)) [lit ''f1'' \<mapsto> lit ''aaabbbccc'']"
    unfolding append_tests_def by (intro run) (simp_all add: plain_lits zero_free, simp_all add: lits file_limit_def)
  show "steps tree k [lit ''f1'' \<mapsto> lit ''aaabbbccc''] (for_each (\<lambda>s. s) (readdir_tests sys d1 d2)) Map.empty"
    unfolding readdir_tests_def by (intro run) (auto simp: plain_lits zero_free split: if_splits, simp_all add: lits file_limit_def)
  show "steps tree k Map.empty (for_each (\<lambda>s. s) (big_tests sys d1 d2)) Map.empty"
    unfolding big_tests_def by (intro run) (simp_all add: plain_lits zero_free, simp_all add: lits big_def file_limit_def)
qed

lemma part1g_run:
  assumes "posix_ok sys q dk tree fdt" and "leads dk k d1" "leads dk k d2"
  shows "steps tree k Map.empty (for_each (\<lambda>s. s) (part1g_tests sys d1 d2)) Map.empty"
  unfolding part1g_tests_def
  by (intro steps_append [OF phases(1) [OF assms]] steps_append [OF phases(2) [OF assms]]
      steps_append [OF phases(3) [OF assms]] steps_append [OF many_phase [OF assms]] phases(4) [OF assms])

section \<open>The program passes\<close>



section \<open>What a check does not notice\<close>



end
