(* ===== verification/Process.thy ===== *)
theory Process
  imports Posix
begin

text \<open>
  Processes that run next to each other. A process is a tree of system calls: each call acts on
  the state as one step and tells how the process goes on. Two processes run in the order that a
  schedule gives. A rely-guarantee logic shows what two processes achieve together in every order.
\<close>

section \<open>Processes\<close>

datatype 'w proc = Halt "unit res" | Call "'w \<Rightarrow> 'w proc \<times> 'w"

primrec ending :: "'w proc \<Rightarrow> 'w \<Rightarrow> unit res \<times> 'w" where
  "ending (Halt r) = (\<lambda>w. (r, w))"
| "ending (Call f) = (\<lambda>w. (\<lambda>(e, w'). e w') (map_prod ending id (f w)))"

definition alone :: "'w proc \<Rightarrow> 'w \<Rightarrow> 'w res" where
  "alone p w = (let (r, w') = ending p w in bind_res r (\<lambda>_. Inr w'))"

primrec sequel :: "'w proc \<Rightarrow> 'w proc \<Rightarrow> 'w proc" where
  "sequel (Halt r) q = (case r of Inl e \<Rightarrow> Halt (Inl e) | Inr _ \<Rightarrow> q)"
| "sequel (Call f) q = Call (\<lambda>w. map_prod (\<lambda>p. sequel p q) id (f w))"

definition fin :: "'w proc" where "fin = Halt (Inr ())"

definition need :: "bool \<Rightarrow> 'w proc \<Rightarrow> 'w proc" where
  "need ok p = (if ok then p else Halt (Inl Exit))"

definition given :: "'a res \<Rightarrow> ('a \<Rightarrow> 'w proc) \<Rightarrow> 'w proc" where
  "given r k = (case r of Inl e \<Rightarrow> Halt (Inl e) | Inr x \<Rightarrow> k x)"

definition call1 :: "('w \<Rightarrow> 'a \<times> 'w) \<Rightarrow> ('a \<Rightarrow> 'w proc) \<Rightarrow> 'w proc" where
  "call1 f k = Call (\<lambda>w. let (r, w') = f w in (k r, w'))"

definition call2 :: "('w \<Rightarrow> 'a \<times> 'b \<times> 'w) \<Rightarrow> ('a \<Rightarrow> 'b \<Rightarrow> 'w proc) \<Rightarrow> 'w proc" where
  "call2 f k = Call (\<lambda>w. let (r, x, w') = f w in (k r x, w'))"

fun each :: "('a \<Rightarrow> 'w proc) \<Rightarrow> 'a list \<Rightarrow> 'w proc" where
  "each body [] = fin"
| "each body (x # xs) = sequel (body x) (each body xs)"

text \<open>One process alone runs as the functions that pass the state do.\<close>

lemma ending_Call [simp]: "ending (Call f) w = (let (p, w') = f w in ending p w')"
  by (cases "f w") simp

declare ending.simps(2) [simp del]

lemma ending_sequel: "ending (sequel p q) w = (case ending p w of (Inl e, w') \<Rightarrow> (Inl e, w') | (Inr _, w') \<Rightarrow> ending q w')"
proof (induction p arbitrary: w)
  case (Call f)
  obtain k w1 where f: "f w = (k, w1)" by fastforce
  have "ending (sequel k q) w1 = (case ending k w1 of (Inl e, w') \<Rightarrow> (Inl e, w') | (Inr _, w') \<Rightarrow> ending q w')"
    by (rule Call.IH [of "f w"]) (simp_all add: f image_iff, metis f)
  then show ?case using f by simp
qed (auto split: sum.splits)

lemma alone_simps [simp]:
  "alone fin w = Inr w"
  "alone (Halt (Inl e)) w = Inl e"
  "alone (need ok p) w = demand ok (alone p w)"
  "alone (given r k) w = bind_res r (\<lambda>x. alone (k x) w)"
  "alone (sequel p q) w = bind_res (alone p w) (alone q)"
  "alone (call1 f k) w = (let (r, w') = f w in alone (k r) w')"
  "alone (call2 g h) w = (let (r, x, w') = g w in alone (h r x) w')"
  by (auto simp: alone_def fin_def need_def demand_def given_def call1_def call2_def ending_sequel
      split: sum.splits prod.splits)

lemma alone_if [simp]: "alone (if b then p else q) w = (if b then alone p w else alone q w)"
  by simp

lemma alone_each [simp]: "alone (each body xs) w = for_each (\<lambda>x. alone (body x)) xs w"
proof (induction xs arbitrary: w)
  case (Cons x xs)
  have "alone (each body xs) = for_each (\<lambda>x. alone (body x)) xs" by (rule ext) (rule Cons.IH)
  then show ?case by simp
qed simp

section \<open>Two processes\<close>

definition advance :: "'w proc \<Rightarrow> 'w \<Rightarrow> 'w proc \<times> 'w" where
  "advance p w = (case p of Halt _ \<Rightarrow> (p, w) | Call f \<Rightarrow> f w)"

text \<open>The schedule says whether the child makes the next call; after it both run to their ends.\<close>

fun interleave :: "bool list \<Rightarrow> 'w proc \<Rightarrow> 'w proc \<Rightarrow> 'w \<Rightarrow> unit res \<times> unit res \<times> 'w" where
  "interleave [] c p w = (let (r, w1) = ending c w; (r', w2) = ending p w1 in (r, r', w2))"
| "interleave (True # s) c p w = (let (c', w') = advance c w in interleave s c' p w')"
| "interleave (False # s) c p w = (let (p', w') = advance p w in interleave s c p' w')"

section \<open>Rely and guarantee\<close>

text \<open>\<open>good R G Q p w\<close>: started in \<open>w\<close> among steps \<open>R\<close> of others the process makes only steps \<open>G\<close> and
  ends normally, and from then on \<open>Q\<close> holds.\<close>

inductive good :: "('w \<Rightarrow> 'w \<Rightarrow> bool) \<Rightarrow> ('w \<Rightarrow> 'w \<Rightarrow> bool) \<Rightarrow> ('w \<Rightarrow> bool) \<Rightarrow> 'w proc \<Rightarrow> 'w \<Rightarrow> bool"
  for R G Q where
  good_Halt: "(\<And>w'. R\<^sup>*\<^sup>* w w' \<Longrightarrow> Q w') \<Longrightarrow> good R G Q (Halt (Inr ())) w"
| good_Call: "(\<And>w'. R\<^sup>*\<^sup>* w w' \<Longrightarrow> G w' (snd (f w')) \<and> good R G Q (fst (f w')) (snd (f w'))) \<Longrightarrow>
     good R G Q (Call f) w"

inductive_cases good_HaltE: "good R G Q (Halt r) w"
inductive_cases good_CallE: "good R G Q (Call f) w"

lemma good_later: "good R G Q p w \<Longrightarrow> R\<^sup>*\<^sup>* w w' \<Longrightarrow> good R G Q p w'"
  by (induction rule: good.induct) (auto intro!: good.intros dest: rtranclp_trans)

lemma good_advance:
  assumes "good R G Q p w"
  shows "good R G Q (fst (advance p w)) (snd (advance p w)) \<and> G\<^sup>*\<^sup>* w (snd (advance p w))"
proof (cases p)
  case (Halt r)
  then show ?thesis using assms by (simp add: advance_def)
next
  case (Call f)
  then show ?thesis using assms by (auto simp: advance_def elim: good_CallE)
qed

lemma good_ending:
  assumes "good R G Q p w"
  shows "\<exists>w'. ending p w = (Inr (), w') \<and> G\<^sup>*\<^sup>* w w' \<and> good R G Q fin w'"
  using assms
proof (induction rule: good.induct)
  case (good_Halt w)
  then show ?case unfolding fin_def by (auto intro: good.good_Halt)
next
  case (good_Call w f)
  obtain k w1 where f: "f w = (k, w1)" by fastforce
  with good_Call [OF rtranclp.rtrancl_refl] obtain w' where
    "G w w1" "ending k w1 = (Inr (), w')" "G\<^sup>*\<^sup>* w1 w'" "good R G Q fin w'" by auto
  then show ?case using f by (auto intro: converse_rtranclp_into_rtranclp)
qed

lemma good_fin: "good R G Q fin w \<Longrightarrow> Q w"
  unfolding fin_def by (erule good_HaltE) auto

definition either :: "('w \<Rightarrow> 'w \<Rightarrow> bool) \<Rightarrow> ('w \<Rightarrow> 'w \<Rightarrow> bool) \<Rightarrow> 'w \<Rightarrow> 'w \<Rightarrow> bool" where
  "either G1 G2 = (\<lambda>w w'. G1 w w' \<or> G2 w w')"

lemma star_mono: "G\<^sup>*\<^sup>* w w' \<Longrightarrow> G \<le> R \<Longrightarrow> R\<^sup>*\<^sup>* w w'"
  using rtranclp_mono [of G R] by (rule predicate2D)

lemma star_sup: "G1\<^sup>*\<^sup>* w w' \<Longrightarrow> (either G1 G2)\<^sup>*\<^sup>* w w'" "G2\<^sup>*\<^sup>* w w' \<Longrightarrow> (either G1 G2)\<^sup>*\<^sup>* w w'"
  by (auto simp: either_def elim: star_mono)

text \<open>Each process may rely on what the other guarantees: then both end well in every order.\<close>

theorem good_interleave:
  assumes "good R1 G1 Q1 c w" and "good R2 G2 Q2 p w" and "G1 \<le> R2" and "G2 \<le> R1"
  shows "\<exists>w'. interleave s c p w = (Inr (), Inr (), w') \<and> Q1 w' \<and> Q2 w' \<and> (either G1 G2)\<^sup>*\<^sup>* w w'"
  using assms(1,2)
proof (induction s c p w rule: interleave.induct)
  case (1 c p w)
  obtain w1 where c: "ending c w = (Inr (), w1)" "G1\<^sup>*\<^sup>* w w1" "good R1 G1 Q1 fin w1"
    using good_ending [OF 1(1)] by blast
  have "R2\<^sup>*\<^sup>* w w1" using c(2) assms(3) by (rule star_mono)
  from good_ending [OF good_later [OF 1(2) this]] obtain w2 where p: "ending p w1 = (Inr (), w2)" "G2\<^sup>*\<^sup>* w1 w2" "good R2 G2 Q2 fin w2" by blast
  have r: "R1\<^sup>*\<^sup>* w1 w2" using p(2) assms(4) by (rule star_mono)
  have "Q1 w2" by (rule good_fin [OF good_later [OF c(3) r]])
  moreover have "Q2 w2" by (rule good_fin [OF p(3)])
  moreover have "(either G1 G2)\<^sup>*\<^sup>* w w2"
    using star_sup(1) [OF c(2)] star_sup(2) [OF p(2)] by (rule rtranclp_trans)
  ultimately show ?case using c(1) p(1) by (intro exI [of _ w2]) simp
next
  case (2 s c p w)
  obtain c' w' where a: "advance c w = (c', w')" by fastforce
  then have c: "good R1 G1 Q1 c' w'" "G1\<^sup>*\<^sup>* w w'" using good_advance [OF 2(2)] by auto
  have r: "R2\<^sup>*\<^sup>* w w'" using c(2) assms(3) by (rule star_mono)
  have "\<exists>w''. interleave s c' p w' = (Inr (), Inr (), w'') \<and> Q1 w'' \<and> Q2 w'' \<and> (either G1 G2)\<^sup>*\<^sup>* w' w''"
    by (rule 2(1) [OF a [symmetric] refl c(1) good_later [OF 2(3) r]])
  moreover have "(either G1 G2)\<^sup>*\<^sup>* w w'" using c(2) by (rule star_sup)
  ultimately show ?case using a rtranclp_trans [of "either G1 G2" w w'] by auto
next
  case (3 s c p w)
  obtain p' w' where a: "advance p w = (p', w')" by fastforce
  then have p: "good R2 G2 Q2 p' w'" "G2\<^sup>*\<^sup>* w w'" using good_advance [OF 3(3)] by auto
  have r: "R1\<^sup>*\<^sup>* w w'" using p(2) assms(4) by (rule star_mono)
  have "\<exists>w''. interleave s c p' w' = (Inr (), Inr (), w'') \<and> Q1 w'' \<and> Q2 w'' \<and> (either G1 G2)\<^sup>*\<^sup>* w' w''"
    by (rule 3(1) [OF a [symmetric] refl good_later [OF 3(2) r] p(1)])
  moreover have "(either G1 G2)\<^sup>*\<^sup>* w w'" using p(2) by (rule star_sup)
  ultimately show ?case using a rtranclp_trans [of "either G1 G2" w w'] by auto
qed

section \<open>Proof rules\<close>

definition stable :: "('w \<Rightarrow> bool) \<Rightarrow> ('w \<Rightarrow> 'w \<Rightarrow> bool) \<Rightarrow> bool" where
  "stable P R \<longleftrightarrow> (\<forall>w w'. P w \<longrightarrow> R w w' \<longrightarrow> P w')"

lemma stable_star: "R\<^sup>*\<^sup>* w w' \<Longrightarrow> stable P R \<Longrightarrow> P w \<Longrightarrow> P w'"
  by (induction rule: rtranclp_induct) (auto simp: stable_def)

lemma good_stop: "stable Q R \<Longrightarrow> Q w \<Longrightarrow> good R G Q fin w"
  unfolding fin_def by (blast intro: good_Halt stable_star)

lemma need_True: "ok \<Longrightarrow> need ok p = p"
  by (simp add: need_def)

lemma good_need: "ok \<Longrightarrow> good R G Q p w \<Longrightarrow> good R G Q (need ok p) w"
  by (simp add: need_def)

lemma good_call1:
  assumes "stable P R" and "P w"
    and "\<And>w. P w \<Longrightarrow> \<exists>r w'. f w = (r, w') \<and> G w w' \<and> good R G Q (k r) w'"
  shows "good R G Q (call1 f k) w"
  unfolding call1_def
proof (rule good_Call)
  fix w'
  assume "R\<^sup>*\<^sup>* w w'"
  then have "P w'" using assms(1,2) stable_star by metis
  then obtain r w'' where "f w' = (r, w'')" "G w' w''" "good R G Q (k r) w''" using assms(3) by blast
  then show "G w' (snd (let (r, w') = f w' in (k r, w')))
      \<and> good R G Q (fst (let (r, w') = f w' in (k r, w'))) (snd (let (r, w') = f w' in (k r, w')))" by simp
qed

lemma good_call2:
  assumes "stable P R" and "P w"
    and "\<And>w. P w \<Longrightarrow> \<exists>r x w'. f w = (r, x, w') \<and> G w w' \<and> good R G Q (k r x) w'"
  shows "good R G Q (call2 f k) w"
  unfolding call2_def
proof (rule good_Call)
  fix w'
  assume "R\<^sup>*\<^sup>* w w'"
  then have "P w'" using assms(1,2) stable_star by metis
  then obtain r x w'' where "f w' = (r, x, w'')" "G w' w''" "good R G Q (k r x) w''" using assms(3) by blast
  then show "G w' (snd (let (r, x, w') = f w' in (k r x, w')))
      \<and> good R G Q (fst (let (r, x, w') = f w' in (k r x, w'))) (snd (let (r, x, w') = f w' in (k r x, w')))" by simp
qed

lemma good_sequel:
  assumes "good R G M p w" and "\<And>w. M w \<Longrightarrow> good R G Q q w"
  shows "good R G Q (sequel p q) w"
  using assms(1)
proof (induction rule: good.induct)
  case (good_Halt w)
  then show ?case using assms(2) by simp
next
  case (good_Call w f)
  then show ?case by (auto intro!: good.good_Call)
qed

lemma good_each:
  assumes "stable (I n) R" and "I 0 w" and "\<And>i w. i < n \<Longrightarrow> I i w \<Longrightarrow> good R G (I (Suc i)) (body i) w"
  shows "good R G (I n) (each body [0..<n]) w"
proof -
  have "good R G (I n) (each body [m..<n]) w" if "I m w" "m \<le> n" for m w
    using that
  proof (induction "n - m" arbitrary: m w)
    case 0
    then show ?case using good_stop [OF assms(1)] by simp
  next
    case (Suc j)
    then have m: "m < n" by simp
    have "good R G (I n) (sequel (body m) (each body [Suc m..<n])) w"
      by (rule good_sequel [OF assms(3) [OF m Suc.prems(1)]]) (rule Suc.hyps, use Suc.hyps(2) m in auto)
    then show ?case using m by (simp add: upt_conv_Cons)
  qed
  then show ?thesis using assms(2) by blast
qed

section \<open>Parts of the state that no call changes\<close>

inductive spares :: "('w \<Rightarrow> 'a) \<Rightarrow> 'w proc \<Rightarrow> bool" for v where
  spares_Halt: "spares v (Halt r)"
| spares_Call: "(\<And>w. v (snd (f w)) = v w \<and> spares v (fst (f w))) \<Longrightarrow> spares v (Call f)"

inductive_cases spares_CallE: "spares v (Call f)"

lemma spares_fin: "spares v fin"
  by (simp add: fin_def spares_Halt)

lemma spares_need: "(ok \<Longrightarrow> spares v p) \<Longrightarrow> spares v (need ok p)"
  by (simp add: need_def spares_Halt)

lemma spares_given: "(\<And>x. spares v (k x)) \<Longrightarrow> spares v (given r k)"
  by (simp add: given_def spares_Halt split: sum.split)

lemma spares_call1: "(\<And>w. v (snd (f w)) = v w) \<Longrightarrow> (\<And>r. spares v (k r)) \<Longrightarrow> spares v (call1 f k)"
  unfolding call1_def by (rule spares_Call) (metis (mono_tags, lifting) case_prod_beta fst_conv snd_conv)

lemma spares_call2: "(\<And>w. v (snd (snd (f w))) = v w) \<Longrightarrow> (\<And>r x. spares v (k r x)) \<Longrightarrow> spares v (call2 f k)"
  unfolding call2_def by (rule spares_Call) (metis (mono_tags, lifting) case_prod_beta fst_conv snd_conv)

lemma spares_sequel: "spares v p \<Longrightarrow> spares v q \<Longrightarrow> spares v (sequel p q)"
proof (induction rule: spares.induct)
  case (spares_Halt r)
  then show ?case by (auto intro: spares.spares_Halt split: sum.split)
next
  case (spares_Call f)
  then show ?case by (auto intro: spares.spares_Call)
qed

lemma spares_each: "(\<And>x. spares v (body x)) \<Longrightarrow> spares v (each body xs)"
  by (induction xs) (auto intro: spares_fin spares_sequel)

lemmas spares_intros = spares_Halt spares_fin spares_need spares_given spares_call1 spares_call2 spares_sequel spares_each

lemma spares_ending: "spares v p \<Longrightarrow> v (snd (ending p w)) = v w"
  by (induction arbitrary: w rule: spares.induct) (auto simp: ending.simps(1) case_prod_beta)

lemma spares_advance: "spares v p \<Longrightarrow> spares v (fst (advance p w)) \<and> v (snd (advance p w)) = v w"
  by (cases p) (auto simp: advance_def elim: spares_CallE)

lemma spares_interleave: "interleave s c p w = (r, r', w') \<Longrightarrow> spares v c \<Longrightarrow> spares v p \<Longrightarrow> v w' = v w"
proof (induction s c p w rule: interleave.induct)
  case (1 c p w)
  then show ?case using spares_ending [of v c w] spares_ending [of v p] by (auto split: prod.splits) (metis snd_conv)
next
  case (2 s c p w)
  then show ?case using spares_advance [of v c w] by (auto split: prod.splits)
next
  case (3 s c p w)
  then show ?case using spares_advance [of v p w] by (auto split: prod.splits)
qed

end
