(* ===== verification/Test_Forks.thy ===== *)
theory Test_Forks
  imports Process Test_Files
begin

text \<open>
  The test programs that fork: \<^verbatim>\<open>test-lab-3-a.c\<close> and \<^verbatim>\<open>test-lab2-part2-a.c\<close>, where two processes use one
  directory, \<^verbatim>\<open>test-lab-3-b.c\<close> and \<^verbatim>\<open>test-lab2-part2-b.c\<close>, where each has its own. Every program has its
  copy of the functions of \<^verbatim>\<open>test-lab2-part1-g.c\<close>; here they are processes, which make one system
  call at a time. The functions are those of \<^verbatim>\<open>test-lab-3-a.c\<close>, which \<^verbatim>\<open>test-lab2-part2-a.c\<close> repeats; the programs of two
  directories call only their own \<open>createn\<close> (\<open>createn_b\<close>) and their copies of \<open>unlinkn\<close>, \<open>dircheck\<close> and
  \<open>reap\<close>, and their other functions are not modelled. Reading a directory is one call. \<^verbatim>\<open>sleep\<close> only delays, so every schedule is looked at.
\<close>

section \<open>Processes of the operating system\<close>

text \<open>\<open>sys_waitpid\<close> has as its last argument how the child ended: its exit status, or none when it was
  killed.\<close>

record 'w unix =
  calls :: "process \<Rightarrow> 'w posix"
  sys_fork :: "'w \<Rightarrow> int \<times> 'w"
  sys_waitpid :: "'w \<Rightarrow> int \<Rightarrow> int option \<Rightarrow> int \<times> int option \<times> 'w"

definition reap :: "'w unix \<Rightarrow> int \<Rightarrow> int option \<Rightarrow> 'w \<Rightarrow> 'w res" where
  "reap os pid ended w =
     (let (wpid, status, w1) = sys_waitpid os w pid ended
      in demand (0 \<le> wpid) (demand (wpid = pid) (demand (status = Some 0) (Inr w1))))"

definition exit_status :: "unit res \<Rightarrow> int option res" where
  "exit_status r = (case r of Inr _ \<Rightarrow> Inr (Some 0) | Inl e \<Rightarrow> if e = Exit then Inr (Some 1) else Inl e)"

text \<open>\<open>forked\<close>: from \<^verbatim>\<open>fork\<close> to \<^verbatim>\<open>reap\<close>. Between them the parent makes the calls \<open>p\<close>, the child the calls
  \<open>c\<close>, in the order of the schedule; \<^verbatim>\<open>reap\<close> waits for the child's end.\<close>

definition forked :: "'w unix \<Rightarrow> bool list \<Rightarrow> 'w proc \<Rightarrow> 'w proc \<Rightarrow> 'w \<Rightarrow> 'w res" where
  "forked os s c p w =
     (let (pid, w1) = sys_fork os w
      in demand (0 \<le> pid)
        (let (rc, rp, w2) = interleave s c p w1
         in bind_res rp (\<lambda>_. bind_res (exit_status rc) (\<lambda>ended. reap os pid ended w2))))"

section \<open>The functions as processes\<close>

definition create1_p :: "'w posix \<Rightarrow> bytes \<Rightarrow> bytes \<Rightarrow> bytes \<Rightarrow> 'w proc" where
  "create1_p sys d f inp =
     given (buf512 (path d f)) (\<lambda>n. call2 (\<lambda>w. sys_creat sys w n) (\<lambda>fd _. need (0 \<le> fd)
       (call1 (\<lambda>w. sys_write sys w fd (take (strlen inp) inp)) (\<lambda>cc. need (cc = int (strlen inp))
         (call1 (\<lambda>w. sys_close sys w fd) (\<lambda>r. need (r = 0) fin))))))"

definition check1_p :: "'w posix \<Rightarrow> bytes \<Rightarrow> bytes \<Rightarrow> bytes \<Rightarrow> 'w proc" where
  "check1_p sys d f inp =
     given (buf512 (path d f)) (\<lambda>n. call2 (\<lambda>w. sys_open sys w n {}) (\<lambda>fd _. need (0 \<le> fd)
       (call2 (\<lambda>w. sys_read sys w fd 20999) (\<lambda>cc buf. need (cc = int (strlen inp))
         (call1 (\<lambda>w. sys_close sys w fd) (\<lambda>_.
           need (strncmp_same (take (strlen inp) buf @ [0]) inp (strlen n)) fin))))))"

definition unlink1_p :: "'w posix \<Rightarrow> bytes \<Rightarrow> bytes \<Rightarrow> 'w proc" where
  "unlink1_p sys d f =
     given (buf512 (path d f)) (\<lambda>n. call1 (\<lambda>w. sys_unlink sys w n) (\<lambda>r. need (r = 0) fin))"

definition checknot_p :: "'w posix \<Rightarrow> bytes \<Rightarrow> bytes \<Rightarrow> 'w proc" where
  "checknot_p sys d f =
     given (buf512 (path d f)) (\<lambda>n. call2 (\<lambda>w. sys_open sys w n {}) (\<lambda>fd _. need (fd < 0) fin))"

definition append1_p :: "'w posix \<Rightarrow> bytes \<Rightarrow> bytes \<Rightarrow> bytes \<Rightarrow> 'w proc" where
  "append1_p sys d f inp =
     given (buf512 (path d f)) (\<lambda>n. call2 (\<lambda>w. sys_open sys w n {O_WRONLY, O_APPEND}) (\<lambda>fd _. need (0 \<le> fd)
       (call1 (\<lambda>w. sys_write sys w fd (take (strlen inp) inp)) (\<lambda>cc. need (cc = int (strlen inp))
         (call1 (\<lambda>w. sys_close sys w fd) (\<lambda>r. need (r = 0) fin))))))"

text \<open>\<open>write1\<close> asks for the file without \<^verbatim>\<open>O_CREAT\<close> when it is there already, then writes one character
  at a time.\<close>

definition put_chars :: "'w posix \<Rightarrow> int \<Rightarrow> nat \<Rightarrow> byte \<Rightarrow> 'w proc" where
  "put_chars sys fd n c =
     sequel (each (\<lambda>i. call1 (\<lambda>w. sys_write sys w fd [c]) (\<lambda>cc. need (cc = 1)
       (call1 (\<lambda>w. sys_fsync sys w fd) (\<lambda>r. need (r = 0) fin)))) [0..<n])
     (call1 (\<lambda>w. sys_close sys w fd) (\<lambda>r. need (r = 0) fin))"

definition write1_p :: "'w posix \<Rightarrow> bytes \<Rightarrow> bytes \<Rightarrow> int \<Rightarrow> nat \<Rightarrow> byte \<Rightarrow> 'w proc" where
  "write1_p sys d f start n c =
     given (buf512 (path d f)) (\<lambda>name.
       let opened = (\<lambda>fd. need (0 \<le> fd) (call1 (\<lambda>w. sys_lseek sys w fd start) (\<lambda>r. need (r = start) (put_chars sys fd n c))))
       in call2 (\<lambda>w. sys_open sys w name {O_WRONLY, O_CREAT}) (\<lambda>fd errno.
            if fd < 0 \<and> errno = EEXIST_errno then call2 (\<lambda>w. sys_open sys w name {O_WRONLY}) (\<lambda>fd _. opened fd)
            else opened fd))"

definition checkread_p :: "'w posix \<Rightarrow> bytes \<Rightarrow> bytes \<Rightarrow> int \<Rightarrow> nat \<Rightarrow> byte \<Rightarrow> 'w proc" where
  "checkread_p sys d f start n c =
     given (buf512 (path d f)) (\<lambda>name. call2 (\<lambda>w. sys_open sys w name {}) (\<lambda>fd _. need (0 \<le> fd)
       (call1 (\<lambda>w. sys_lseek sys w fd start) (\<lambda>r. need (r = start)
         (sequel (each (\<lambda>i. call2 (\<lambda>w. sys_read sys w fd 1) (\<lambda>cc xc. need (cc = 1) (need (xc = [c]) fin))) [0..<n])
           (call1 (\<lambda>w. sys_close sys w fd) (\<lambda>_. fin)))))))"

definition createn_p :: "'w posix \<Rightarrow> bytes \<Rightarrow> bytes \<Rightarrow> nat \<Rightarrow> bool \<Rightarrow> 'w proc" where
  "createn_p sys d prefix nf possible_dup =
     each (\<lambda>i. given (buf512 (path d (numbered prefix i))) (\<lambda>n.
       call2 (\<lambda>w. sys_creat sys w n) (\<lambda>fd errno.
         if fd < 0 \<and> possible_dup \<and> errno = EEXIST_errno then fin
         else need (0 \<le> fd) (call1 (\<lambda>w. sys_write sys w fd (le_encode 4 (of_nat i :: u32))) (\<lambda>cc. need (cc = 4)
           (call1 (\<lambda>w. sys_close sys w fd) (\<lambda>r. need (r = 0) fin))))))) [0..<nf]"

definition checkn_p :: "'w posix \<Rightarrow> bytes \<Rightarrow> bytes \<Rightarrow> nat \<Rightarrow> 'w proc" where
  "checkn_p sys d prefix nf =
     each (\<lambda>i. given (buf512 (path d (numbered prefix i))) (\<lambda>n.
       call2 (\<lambda>w. sys_open sys w n {}) (\<lambda>fd _. need (0 \<le> fd)
         (call2 (\<lambda>w. sys_read sys w fd 4) (\<lambda>cc j. need (cc = 4) (need ((le_decode j :: u32) = of_nat i)
           (call1 (\<lambda>w. sys_close sys w fd) (\<lambda>_. fin)))))))) [0..<nf]"

definition unlinkn_p :: "'w posix \<Rightarrow> bytes \<Rightarrow> bytes \<Rightarrow> nat \<Rightarrow> 'w proc" where
  "unlinkn_p sys d prefix nf =
     each (\<lambda>i. given (buf512 (path d (numbered prefix i)))
       (\<lambda>n. call1 (\<lambda>w. sys_unlink sys w n) (\<lambda>r. need (r = 0) fin))) [0..<nf]"

definition dircheck_p :: "'w posix \<Rightarrow> bytes \<Rightarrow> nat \<Rightarrow> 'w proc" where
  "dircheck_p sys d nf =
     call1 (\<lambda>w. sys_listdir sys w d) (\<lambda>listing.
       case listing of
         None \<Rightarrow> Halt (Inl Exit)
       | Some all \<Rightarrow>
           (let names = filter (\<lambda>e. \<not> (e \<noteq> [] \<and> hd e = 46)) all
            in if 1000 < length names then Halt (Inl Out_Of_Bounds)
               else need (nf = length names)
                 (let sorted_names = sort names
                  in need (\<forall>i < length names - 1. sorted_names ! i \<noteq> sorted_names ! Suc i) fin)))"

text \<open>The programs with two directories create without \<^verbatim>\<open>possible_dup\<close>.\<close>

definition createn_b :: "'w posix \<Rightarrow> bytes \<Rightarrow> bytes \<Rightarrow> nat \<Rightarrow> 'w proc" where
  "createn_b sys d prefix nf =
     each (\<lambda>i. given (buf512 (path d (numbered prefix i))) (\<lambda>n.
       call2 (\<lambda>w. sys_creat sys w n) (\<lambda>fd _. need (0 \<le> fd)
         (call1 (\<lambda>w. sys_write sys w fd (le_encode 4 (of_nat i :: u32))) (\<lambda>cc. need (cc = 4)
           (call1 (\<lambda>w. sys_close sys w fd) (\<lambda>r. need (r = 0) fin))))))) [0..<nf]"

section \<open>The programs\<close>

definition huge :: bytes where
  "huge = replicate 65535 48"

text \<open>\<open>d1\<close> and \<open>d2\<close> are the directory through the two mount points; \<open>s\<close> is the schedule of the fork.\<close>

definition concurrent_creates :: "'w unix \<Rightarrow> bytes \<Rightarrow> bytes \<Rightarrow> bool list \<Rightarrow> ('w \<Rightarrow> 'w res) list" where
  "concurrent_creates os d1 d2 s =
    (let sys = calls os Parent
     in [forked os s (createn_p (calls os Child) d2 (lit ''xx'') 10 False) (createn_p sys d1 (lit ''yy'') 10 False),
         alone (dircheck_p sys d1 20), alone (checkn_p sys d1 (lit ''xx'') 10), alone (checkn_p sys d2 (lit ''yy'') 10),
         alone (unlinkn_p sys d1 (lit ''xx'') 10), alone (unlinkn_p sys d1 (lit ''yy'') 10)])"

text \<open>The directory is checked before the child is waited for.\<close>

definition same_file :: "'w unix \<Rightarrow> bytes \<Rightarrow> bytes \<Rightarrow> bool list \<Rightarrow> ('w \<Rightarrow> 'w res) list" where
  "same_file os d1 d2 s =
    (let sys = calls os Parent
     in [forked os s (createn_p (calls os Child) d2 (lit ''zz'') 10 True)
           (sequel (createn_p sys d1 (lit ''zz'') 10 True) (dircheck_p sys d1 10)),
         alone (checkn_p sys d1 (lit ''zz'') 10), alone (checkn_p sys d2 (lit ''zz'') 10),
         alone (unlinkn_p sys d1 (lit ''zz'') 10)])"

definition create_delete :: "'w unix \<Rightarrow> bytes \<Rightarrow> bytes \<Rightarrow> bool list \<Rightarrow> ('w \<Rightarrow> 'w res) list" where
  "create_delete os d1 d2 s =
    (let sys = calls os Parent
     in [alone (createn_p sys d1 (lit ''x1'') 5 False), alone (createn_p sys d2 (lit ''x2'') 5 False),
         forked os s (sequel (unlinkn_p (calls os Child) d2 (lit ''x1'') 5) (createn_p (calls os Child) d1 (lit ''x3'') 5 False))
           (createn_p sys d1 (lit ''x4'') 5 False),
         alone (unlinkn_p sys d2 (lit ''x2'') 5), alone (unlinkn_p sys d2 (lit ''x4'') 5), alone (unlinkn_p sys d2 (lit ''x3'') 5),
         alone (dircheck_p sys d1 0)])"

definition same_server :: "'w unix \<Rightarrow> bytes \<Rightarrow> bool list \<Rightarrow> ('w \<Rightarrow> 'w res) list" where
  "same_server os d1 s =
    (let sys = calls os Parent
     in [forked os s (createn_p (calls os Child) d1 (lit ''zz'') 10 True)
           (sequel (createn_p sys d1 (lit ''zz'') 10 True) (dircheck_p sys d1 10)),
         alone (checkn_p sys d1 (lit ''zz'') 10), alone (unlinkn_p sys d1 (lit ''zz'') 10)])"

definition parts_of_file :: "'w unix \<Rightarrow> bytes \<Rightarrow> bytes \<Rightarrow> bool list \<Rightarrow> ('w \<Rightarrow> 'w res) list" where
  "parts_of_file os d1 d2 s =
    (let sys = calls os Parent
     in [alone (create1_p sys d1 (lit ''www'') huge),
         forked os s (write1_p (calls os Child) d2 (lit ''www'') 10000 64 50) (write1_p sys d1 (lit ''www'') 0 64 49),
         alone (checkread_p sys d1 (lit ''www'') 0 64 49), alone (checkread_p sys d2 (lit ''www'') 0 64 49),
         alone (checkread_p sys d1 (lit ''www'') 10000 64 50), alone (checkread_p sys d2 (lit ''www'') 10000 64 50)])"

text \<open>\<open>s i\<close> is the schedule of the \<open>i\<close>-th fork.\<close>

definition concurrent_tests :: "'w unix \<Rightarrow> (nat \<Rightarrow> bool list) \<Rightarrow> bytes \<Rightarrow> bytes \<Rightarrow> ('w \<Rightarrow> 'w res) list" where
  "concurrent_tests os s d1 d2 = concurrent_creates os d1 d2 (s 0) @ same_file os d1 d2 (s 1) @ create_delete os d1 d2 (s 2)
     @ same_server os d1 (s 3) @ parts_of_file os d1 d2 (s 4)"

text \<open>The first tests of \<^verbatim>\<open>test-lab-3-a.c\<close> are those of \<^verbatim>\<open>test-lab2-part1-g.c\<close>; the functions of \<^verbatim>\<open>test-lab-3-a.c\<close>
  do what those of that program do when a process runs alone (\<open>copies\<close> below). \<^verbatim>\<open>test-lab2-part2-a.c\<close> is the rest.\<close>

definition lab3a_main :: "'w unix \<Rightarrow> bytes list \<Rightarrow> nat \<Rightarrow> (nat \<Rightarrow> bool list) \<Rightarrow> 'w \<Rightarrow> 'w res" where
  "lab3a_main os args pid s = in_new_dir (calls os Parent) args pid
     (\<lambda>d1 d2. for_each (\<lambda>s. s) (part1g_tests (calls os Parent) d1 d2 @ concurrent_tests os s d1 d2))"

definition part2a_main :: "'w unix \<Rightarrow> bytes list \<Rightarrow> nat \<Rightarrow> (nat \<Rightarrow> bool list) \<Rightarrow> 'w \<Rightarrow> 'w res" where
  "part2a_main os args pid s = in_new_dir (calls os Parent) args pid
     (\<lambda>d1 d2. for_each (\<lambda>s. s) (concurrent_tests os s d1 d2))"

text \<open>Two directories, \<^verbatim>\<open>da\<close> made through the first mount point and \<^verbatim>\<open>db\<close> through the second.\<close>

definition two_dir_tests :: "'w unix \<Rightarrow> nat \<Rightarrow> nat \<Rightarrow> bytes \<Rightarrow> bytes \<Rightarrow> bool list \<Rightarrow> ('w \<Rightarrow> 'w res) list" where
  "two_dir_tests os n m d1 d2 s =
    (let sys = calls os Parent
     in [forked os s (sequel (createn_b (calls os Child) d2 (lit ''xx'') n) (unlinkn_p (calls os Child) d2 (lit ''xx'') m))
           (sequel (createn_b sys d1 (lit ''yy'') n) (unlinkn_p sys d1 (lit ''yy'') m)),
         alone (dircheck_p sys d1 1), alone (dircheck_p sys d2 1)])"

definition in_two_dirs :: "'w posix \<Rightarrow> bytes list \<Rightarrow> nat \<Rightarrow> (bytes \<Rightarrow> bytes \<Rightarrow> 'w \<Rightarrow> 'w res) \<Rightarrow> 'w \<Rightarrow> 'w res" where
  "in_two_dirs sys args pid tests w =
     (case args of
        [a1, a2] \<Rightarrow>
          bind_res (buf512 (path a1 (lit ''da'' @ dec pid))) (\<lambda>d1.
            let (r, w1) = sys_mkdir sys w d1
            in demand (r = 0)
              (bind_res (buf512 (path a2 (lit ''db'' @ dec pid))) (\<lambda>d2.
                 let (r, w2) = sys_mkdir sys w1 d2
                 in demand (r = 0)
                   (bind_res (buf512 (path a2 (lit ''da'' @ dec pid))) (\<lambda>dd.
                      let (r, w3) = sys_access sys w2 dd in demand (r = 0) (tests d1 d2 w3))))))
      | _ \<Rightarrow> Inl Exit)"

definition lab3b_main :: "'w unix \<Rightarrow> bytes list \<Rightarrow> nat \<Rightarrow> bool list \<Rightarrow> 'w \<Rightarrow> 'w res" where
  "lab3b_main os args pid s =
     in_two_dirs (calls os Parent) args pid (\<lambda>d1 d2. for_each (\<lambda>s. s) (two_dir_tests os 100 99 d1 d2 s))"

definition part2b_main :: "'w unix \<Rightarrow> bytes list \<Rightarrow> nat \<Rightarrow> bool list \<Rightarrow> 'w \<Rightarrow> 'w res" where
  "part2b_main os args pid s =
     in_two_dirs (calls os Parent) args pid (\<lambda>d1 d2. for_each (\<lambda>s. s) (two_dir_tests os 10 9 d1 d2 s))"

section \<open>A process alone does what the functions do\<close>

lemmas alone_funs = alone_simps [abs_def] alone_each [abs_def]

lemma copies:
  "alone (create1_p sys d f inp) w = create1 sys d f inp w"
  "alone (check1_p sys d f inp) w = check1 sys d f inp w"
  "alone (unlink1_p sys d f) w = unlink1 sys d f w"
  "alone (checknot_p sys d f) w = checknot sys d f w"
  "alone (append1_p sys d f inp) w = append1 sys d f inp w"
  "alone (createn_b sys d p n) w = createn sys d p n False w"
  "alone (checkn_p sys d p n) w = checkn sys d p n w"
  "alone (unlinkn_p sys d p n) w = unlinkn sys d p n w"
  by (simp_all add: create1_p_def create1_def check1_p_def check1_def unlink1_p_def unlink1_def checknot_p_def checknot_def
      append1_p_def append1_def createn_def createn_b_def checkn_p_def checkn_def unlinkn_p_def unlinkn_def
      alone_funs)

lemma copies_createn: "alone (createn_p sys d p n dup) w = createn sys d p n dup w"
  unfolding createn_p_def createn_def alone_each
  by (rule arg_cong [where f = "\<lambda>b. for_each b [0..<n] w"]) (auto simp: fun_eq_iff alone_funs split: prod.splits
      intro!: arg_cong2 [where f = bind_res])

lemma copies_write1: "alone (write1_p sys d f start n c) w = write1 sys d f start n c w"
  by (auto simp: write1_p_def write1_def write1_open_def put_chars_def Let_def alone_funs intro!: arg_cong2 [where f = bind_res]
      split: prod.splits)

lemma copies_checkread: "alone (checkread_p sys d f start n c) w = checkread sys d f start n c w"
  by (simp add: checkread_p_def checkread_def alone_funs)

lemma copies_dircheck: "alone (dircheck_p sys d n) w = dircheck sys d n w"
  by (simp add: dircheck_p_def dircheck_def Let_def split: option.splits prod.splits)

end
