(* ===== verification/Rely_Files.thy ===== *)
theory Rely_Files
  imports Test_Forks
begin

text \<open>
  What the functions of the test programs do next to another process that uses the file system:
  with files of its own, with the same files and the same contents, or with another part of
  the same file. The first kind of interference is \<open>touches\<close>, the second \<open>helps\<close>, the third
  \<open>patches\<close>; each is what one process guarantees and the other relies on.
\<close>

section \<open>Files of its own\<close>

text \<open>Process \<open>q\<close> changes at most the files \<open>F\<close>: pairs of a directory and a name.\<close>

definition touches :: "('w \<Rightarrow> 'k dirs) \<Rightarrow> ('w \<Rightarrow> 'k descriptors) \<Rightarrow> process \<Rightarrow> ('k \<times> bytes) set \<Rightarrow> 'w \<Rightarrow> 'w \<Rightarrow> bool" where
  "touches tree fdt q F w w' \<longleftrightarrow>
     (\<forall>r fd. r \<noteq> q \<longrightarrow> fdt w' (r, fd) = fdt w (r, fd)
        \<or> fdt w' (r, fd) = None \<and> (\<exists>k f pos m. (k, f) \<in> F \<and> fdt w (r, fd) = Some (k, f, pos, m)))
     \<and> (\<forall>k es. tree w k = Some es \<longrightarrow> (\<exists>es'. tree w' k = Some es' \<and> (\<forall>f. (k, f) \<notin> F \<longrightarrow> es' f = es f)))"

text \<open>The names \<open>N\<close> of directory \<open>k\<close> are as in \<open>es\<close>.\<close>

definition sees :: "('w \<Rightarrow> 'k dirs) \<Rightarrow> 'k \<Rightarrow> bytes set \<Rightarrow> entries \<Rightarrow> 'w \<Rightarrow> bool" where
  "sees tree k N es w \<longleftrightarrow> (\<exists>es'. tree w k = Some es' \<and> (\<forall>f \<in> N. es' f = es f))"

definition holds_fd :: "('w \<Rightarrow> 'k descriptors) \<Rightarrow> process \<Rightarrow> int \<Rightarrow> 'k \<Rightarrow> bytes \<Rightarrow> nat \<Rightarrow> 'w \<Rightarrow> bool" where
  "holds_fd fdt p fd k f pos w \<longleftrightarrow> fdt w (p, fd) = Some (k, f, pos, Writing)"

lemma sees_stable: "\<forall>f \<in> N. (k, f) \<notin> F \<Longrightarrow> stable (sees tree k N es) (touches tree fdt q F)"
  unfolding stable_def sees_def touches_def by metis

lemma sees_fd_stable:
  assumes "\<forall>f \<in> N. (k, f) \<notin> F" and "f \<in> N" and "p \<noteq> q"
  shows "stable (\<lambda>w. sees tree k N es w \<and> holds_fd fdt p fd k f pos w) (touches tree fdt q F)"
  unfolding stable_def
proof (intro allI impI, elim conjE)
  fix w w'
  assume w: "sees tree k N es w" "holds_fd fdt p fd k f pos w" and t: "touches tree fdt q F w w'"
  have "sees tree k N es w'" by (rule sees_stable [OF assms(1), unfolded stable_def, rule_format, OF w(1) t])
  moreover have "fdt w' (p, fd) = fdt w (p, fd)"
  proof -
    have "(k, f) \<notin> F" using assms(1,2) by blast
    moreover have "fdt w (p, fd) = Some (k, f, pos, Writing)" using w(2) by (simp add: holds_fd_def)
    moreover have "fdt w' (p, fd) = fdt w (p, fd) \<or> (\<exists>k f pos m. (k, f) \<in> F \<and> fdt w (p, fd) = Some (k, f, pos, m))"
      using t assms(3) unfolding touches_def by blast
    ultimately show ?thesis by auto
  qed
  ultimately show "sees tree k N es w' \<and> holds_fd fdt p fd k f pos w'" using w(2) by (simp add: holds_fd_def)
qed

lemma touches_mono: "touches tree fdt q F w w' \<Longrightarrow> F \<subseteq> F' \<Longrightarrow> touches tree fdt q F' w w'"
  unfolding touches_def by (meson subsetD)

lemma own_update:
  assumes "tree w' = (tree w)(k \<mapsto> es')" and "tree w k = Some es" and "\<forall>g. g \<noteq> f \<longrightarrow> es' g = es g"
    and "\<forall>r fd. r \<noteq> p \<longrightarrow> fdt w' (r, fd) = fdt w (r, fd)" and "(k, f) \<in> M"
  shows "touches tree fdt p M w w'"
  unfolding touches_def
proof (intro conjI allI impI)
  show "fdt w' (r, fd) = fdt w (r, fd)
      \<or> fdt w' (r, fd) = None \<and> (\<exists>k f pos m. (k, f) \<in> M \<and> fdt w (r, fd) = Some (k, f, pos, m))" if "r \<noteq> p" for r fd
    using assms(4) that by simp
  show "\<exists>es'. tree w' j = Some es' \<and> (\<forall>f. (j, f) \<notin> M \<longrightarrow> es' f = es f)" if "tree w j = Some es" for j es
    using assms(1-3,5) that by (cases "j = k") auto
qed

text \<open>The calls, as steps among such interference.\<close>

lemma creat_step:
  assumes ok: "posix_ok sys p dk tree fdt" and f: "file_path d f" "f \<in> N" "(dk d, f) \<in> M" and w: "sees tree (dk d) N es w"
  shows "\<exists>fd e w'. sys_creat sys w (path d f) = (fd, e, w') \<and> touches tree fdt p M w w' \<and> 0 \<le> fd
    \<and> sees tree (dk d) N (es(f \<mapsto> [])) w' \<and> holds_fd fdt p fd (dk d) f 0 w'"
proof -
  obtain es' where es: "tree w (dk d) = Some es'" "\<forall>f \<in> N. es' f = es f" using w unfolding sees_def by blast
  obtain fd e w' where c: "sys_creat sys w (path d f) = (fd, e, w')" "0 \<le> fd" "fdt w (p, fd) = None"
    "tree w' = (tree w)(dk d \<mapsto> es'(f \<mapsto> []))" "fdt w' = (fdt w)((p, fd) \<mapsto> (dk d, f, 0, Writing))"
    by (rule creat_ok [OF ok f(1) es(1)])
  have "touches tree fdt p M w w'" by (rule own_update [OF c(4) es(1) _ _ f(3)]) (simp_all add: c(5))
  then show ?thesis using c es by (intro exI [of _ fd] exI [of _ e] exI [of _ w']) (simp add: sees_def holds_fd_def)
qed

lemma write_step:
  assumes ok: "posix_ok sys p dk tree fdt" and f: "f \<in> N" "(k, f) \<in> M"
    and w: "sees tree k N es w" "holds_fd fdt p fd k f pos w" and b: "es f = Some b"
    and len: "pos + length new \<le> file_limit"
  shows "\<exists>w'. sys_write sys w fd new = (int (length new), w') \<and> touches tree fdt p M w w'
    \<and> sees tree k N (es(f \<mapsto> written_at pos new b)) w' \<and> holds_fd fdt p fd k f (pos + length new) w'"
proof -
  obtain es' where es: "tree w k = Some es'" "\<forall>f \<in> N. es' f = es f" using w unfolding sees_def by blast
  have b': "es' f = Some b" using es(2) f(1) b by simp
  have fd: "fdt w (p, fd) = Some (k, f, pos, Writing)" using w(2) by (simp add: holds_fd_def)
  obtain w' where c: "sys_write sys w fd new = (int (length new), w')"
    "tree w' = (tree w)(k \<mapsto> es'(f \<mapsto> written_at (write_pos Writing pos b) new b))"
    "fdt w' = (fdt w)((p, fd) \<mapsto> (k, f, write_pos Writing pos b + length new, Writing))"
    by (rule write_ok [OF ok fd es(1) b']) (use len in simp_all)
  have "touches tree fdt p M w w'" by (rule own_update [OF c(2) es(1) _ _ f(2)]) (simp_all add: c(3))
  then show ?thesis using c es by (simp add: sees_def holds_fd_def)
qed

lemma close_step:
  assumes ok: "posix_ok sys p dk tree fdt" and w: "sees tree k N es w" "holds_fd fdt p fd k f pos w"
  shows "\<exists>w'. sys_close sys w fd = (0, w') \<and> touches tree fdt p M w w' \<and> sees tree k N es w'"
proof -
  have fd: "fdt w (p, fd) \<noteq> None" using w(2) by (simp add: holds_fd_def)
  obtain w' where c: "sys_close sys w fd = (0, w')" "tree w' = tree w" "fdt w' = (fdt w)((p, fd) := None)"
    by (rule close_ok [OF ok fd])
  then show ?thesis using w(1) by (auto simp: sees_def touches_def)
qed

lemma unlink_step:
  assumes ok: "posix_ok sys p dk tree fdt" and f: "file_path d f" "f \<in> N" "(dk d, f) \<in> M" and w: "sees tree (dk d) N es w"
    and some: "es f \<noteq> None"
  shows "\<exists>w'. sys_unlink sys w (path d f) = (0, w') \<and> touches tree fdt p M w w' \<and> sees tree (dk d) N (es(f := None)) w'"
proof -
  obtain es' where es: "tree w (dk d) = Some es'" "\<forall>f \<in> N. es' f = es f" using w unfolding sees_def by blast
  have some': "es' f \<noteq> None" using es(2) f(2) some by simp
  obtain w' where c: "sys_unlink sys w (path d f) = (0, w')" "tree w' = (tree w)(dk d \<mapsto> es'(f := None))"
    "\<forall>q fd. fdt w' (q, fd) = fdt w (q, fd) \<or> fdt w' (q, fd) = None \<and> (\<exists>pos m. fdt w (q, fd) = Some (dk d, f, pos, m))"
    by (rule unlink_ok [OF ok f(1) es(1) some'])
  have "touches tree fdt p M w w'"
    unfolding touches_def
  proof (intro conjI allI impI)
    show "fdt w' (r, fd) = fdt w (r, fd)
        \<or> fdt w' (r, fd) = None \<and> (\<exists>k f pos m. (k, f) \<in> M \<and> fdt w (r, fd) = Some (k, f, pos, m))" for r fd
      using c(3) f(3) by metis
    show "\<exists>es'. tree w' k = Some es' \<and> (\<forall>f. (k, f) \<notin> M \<longrightarrow> es' f = es f)" if "tree w k = Some es" for k es
      using c(2) es(1) f(3) that by (cases "k = dk d") auto
  qed
  then show ?thesis using c(1,2) es by (auto simp: sees_def)
qed

text \<open>\<open>createn\<close> and \<open>unlinkn\<close> among processes with other files.\<close>

lemma createn_b_eq: "createn_b sys d pre n = createn_p sys d pre n False"
  by (simp add: createn_b_def createn_p_def)

lemma createn_good:
  assumes ok: "posix_ok sys p dk tree fdt" and pq: "p \<noteq> q" and N: "\<forall>f \<in> N. (dk d, f) \<notin> F"
    and s: "\<And>i. i < n \<Longrightarrow> short d (numbered pre i)" and mine: "\<And>i. i < n \<Longrightarrow> numbered pre i \<in> N \<and> (dk d, numbered pre i) \<in> M"
    and w: "sees tree (dk d) N es w"
  shows "good (touches tree fdt q F) (touches tree fdt p M) (sees tree (dk d) N (filled es pre n)) (createn_p sys d pre n dup) w"
  unfolding createn_p_def
proof (rule good_each [where I = "\<lambda>i. sees tree (dk d) N (filled es pre i)"])
  let ?R = "touches tree fdt q F" and ?G = "touches tree fdt p M"
  show "stable (sees tree (dk d) N (filled es pre n)) ?R" by (rule sees_stable [OF N])
  show "sees tree (dk d) N (filled es pre 0) w" using w by simp
  fix i w
  assume i: "i < n" and w: "sees tree (dk d) N (filled es pre i) w"
  let ?f = "numbered pre i" and ?new = "le_encode 4 (of_nat i :: u32)"
  have f: "file_path d ?f" "?f \<in> N" "(dk d, ?f) \<in> M" "buf512 (path d ?f) = Inr (path d ?f)"
    using s [OF i] short_path [OF s [OF i]] mine [OF i] by (simp_all add: short_def buf512_def)
  let ?Q = "sees tree (dk d) N (filled es pre (Suc i))"
  have close: "good ?R ?G ?Q (call1 (\<lambda>w. sys_close sys w fd) (\<lambda>r. need (r = 0) fin)) w2"
    if "?Q w2 \<and> holds_fd fdt p fd (dk d) ?f 4 w2" for fd w2
  proof (rule good_call1 [OF sees_fd_stable [OF N f(2) pq] that])
    fix w
    assume "?Q w \<and> holds_fd fdt p fd (dk d) ?f 4 w"
    then obtain w' where "sys_close sys w fd = (0, w')" "?G w w'" "?Q w'"
      using close_step [OF ok, where M = M] by blast
    then show "\<exists>r w'. sys_close sys w fd = (r, w') \<and> ?G w w' \<and> good ?R ?G ?Q (need (r = 0) fin) w'"
      by (intro exI [of _ 0] exI [of _ w'] conjI good_need good_stop [OF sees_stable [OF N]]) simp_all
  qed
  have writing: "good ?R ?G ?Q (call1 (\<lambda>w. sys_write sys w fd ?new) (\<lambda>cc. need (cc = 4)
      (call1 (\<lambda>w. sys_close sys w fd) (\<lambda>r. need (r = 0) fin)))) w1"
    if "sees tree (dk d) N ((filled es pre i)(?f \<mapsto> [])) w1 \<and> holds_fd fdt p fd (dk d) ?f 0 w1" for fd w1
  proof (rule good_call1 [OF sees_fd_stable [OF N f(2) pq] that])
    fix w
    assume w: "sees tree (dk d) N ((filled es pre i)(?f \<mapsto> [])) w \<and> holds_fd fdt p fd (dk d) ?f 0 w"
    obtain w' where "sys_write sys w fd ?new = (4, w')" "?G w w'" "?Q w'" "holds_fd fdt p fd (dk d) ?f 4 w'"
      using write_step [OF ok f(2,3) w [THEN conjunct1] w [THEN conjunct2], of "[]" ?new] by (auto simp: written_at_empty file_limit_def)
    then show "\<exists>r w'. sys_write sys w fd ?new = (r, w') \<and> ?G w w' \<and> good ?R ?G ?Q (need (r = 4)
        (call1 (\<lambda>w. sys_close sys w fd) (\<lambda>r. need (r = 0) fin))) w'"
      using close by (auto intro!: good_need)
  qed
  show "good ?R ?G ?Q (given (buf512 (path d ?f)) (\<lambda>n. call2 (\<lambda>w. sys_creat sys w n) (\<lambda>fd errno.
       if fd < 0 \<and> dup \<and> errno = EEXIST_errno then fin
       else need (0 \<le> fd) (call1 (\<lambda>w. sys_write sys w fd ?new) (\<lambda>cc. need (cc = 4)
         (call1 (\<lambda>w. sys_close sys w fd) (\<lambda>r. need (r = 0) fin))))))) w"
    unfolding f(4) given_def sum.case
  proof (rule good_call2 [OF sees_stable [OF N] w])
    fix w
    assume "sees tree (dk d) N (filled es pre i) w"
    from creat_step [OF ok f(1,2,3) this] obtain fd e w' where "sys_creat sys w (path d ?f) = (fd, e, w')" "?G w w'" "0 \<le> fd"
      "sees tree (dk d) N ((filled es pre i)(?f \<mapsto> [])) w'" "holds_fd fdt p fd (dk d) ?f 0 w'" by blast
    then show "\<exists>fd errno w'. sys_creat sys w (path d ?f) = (fd, errno, w') \<and> ?G w w' \<and> good ?R ?G ?Q
        (if fd < 0 \<and> dup \<and> errno = EEXIST_errno then fin
         else need (0 \<le> fd) (call1 (\<lambda>w. sys_write sys w fd ?new) (\<lambda>cc. need (cc = 4)
           (call1 (\<lambda>w. sys_close sys w fd) (\<lambda>r. need (r = 0) fin))))) w'"
      using writing by (intro exI [of _ fd] exI [of _ e] exI [of _ w']) (auto intro!: good_need)
  qed
qed

lemma unlinkn_good:
  assumes ok: "posix_ok sys p dk tree fdt" and N: "\<forall>f \<in> N. (dk d, f) \<notin> F"
    and s: "\<And>i. i < n \<Longrightarrow> short d (numbered pre i)" and mine: "\<And>i. i < n \<Longrightarrow> numbered pre i \<in> N \<and> (dk d, numbered pre i) \<in> M"
    and some: "\<And>i. i < n \<Longrightarrow> cleared es pre i (numbered pre i) \<noteq> None" and w: "sees tree (dk d) N es w"
  shows "good (touches tree fdt q F) (touches tree fdt p M) (sees tree (dk d) N (cleared es pre n)) (unlinkn_p sys d pre n) w"
  unfolding unlinkn_p_def
proof (rule good_each [where I = "\<lambda>i. sees tree (dk d) N (cleared es pre i)"])
  show "stable (sees tree (dk d) N (cleared es pre n)) (touches tree fdt q F)" by (rule sees_stable [OF N])
  show "sees tree (dk d) N (cleared es pre 0) w" using w by simp
  fix i w
  assume i: "i < n" and w: "sees tree (dk d) N (cleared es pre i) w"
  have f: "file_path d (numbered pre i)" "buf512 (path d (numbered pre i)) = Inr (path d (numbered pre i))"
    using s [OF i] short_path [OF s [OF i]] by (simp_all add: short_def buf512_def)
  show "good (touches tree fdt q F) (touches tree fdt p M) (sees tree (dk d) N (cleared es pre (Suc i)))
      (given (buf512 (path d (numbered pre i))) (\<lambda>n. call1 (\<lambda>w. sys_unlink sys w n) (\<lambda>r. need (r = 0) fin))) w"
    unfolding f(2) given_def sum.case
  proof (rule good_call1 [OF sees_stable [OF N] w])
    fix w
    assume "sees tree (dk d) N (cleared es pre i) w"
    then obtain w' where "sys_unlink sys w (path d (numbered pre i)) = (0, w')" "touches tree fdt p M w w'"
      "sees tree (dk d) N (cleared es pre (Suc i)) w'"
      using unlink_step [OF ok f(1), where N = N and M = M and w = w and es = "cleared es pre i"] mine [OF i] some [OF i] by auto
    then show "\<exists>r w'. sys_unlink sys w (path d (numbered pre i)) = (r, w') \<and> touches tree fdt p M w w'
        \<and> good (touches tree fdt q F) (touches tree fdt p M) (sees tree (dk d) N (cleared es pre (Suc i))) (need (r = 0) fin) w'"
      by (intro exI [of _ 0] exI [of _ w'] conjI good_need good_stop [OF sees_stable [OF N]]) simp_all
  qed
qed

end
