(* ===== verification/Rely_Shared.thy ===== *)
theory Rely_Shared
  imports Rely_Files
begin

text \<open>
  The functions next to a process that uses the same files: both create the same files with the
  same contents (\<open>helps\<close>), or they write different parts of one file (\<open>patches\<close>).
\<close>

section \<open>The same files with the same contents\<close>

text \<open>A file that one process has just created is empty until that process writes; then some process
  has it open at the beginning.\<close>

definition filling :: "('w \<Rightarrow> 'k dirs) \<Rightarrow> ('w \<Rightarrow> 'k descriptors) \<Rightarrow> 'k \<Rightarrow> bytes \<Rightarrow> nat \<Rightarrow> 'w \<Rightarrow> bool" where
  "filling tree fdt k pre n w \<longleftrightarrow> (\<exists>es. tree w k = Some es \<and> dom es \<subseteq> numbered pre ` {..<n}
     \<and> (\<forall>i < n. \<forall>b. es (numbered pre i) = Some b \<longrightarrow> b = le_encode 4 (of_nat i :: u32)
          \<or> b = [] \<and> (\<exists>r fd. holds_fd fdt r fd k (numbered pre i) 0 w)))"

definition helps :: "('w \<Rightarrow> 'k dirs) \<Rightarrow> ('w \<Rightarrow> 'k descriptors) \<Rightarrow> process \<Rightarrow> 'k \<Rightarrow> bytes \<Rightarrow> nat \<Rightarrow> 'w \<Rightarrow> 'w \<Rightarrow> bool" where
  "helps tree fdt q k pre n w w' \<longleftrightarrow>
     (\<forall>r fd. r \<noteq> q \<longrightarrow> fdt w' (r, fd) = fdt w (r, fd))
     \<and> (filling tree fdt k pre n w \<longrightarrow> filling tree fdt k pre n w')
     \<and> (\<forall>es. tree w k = Some es \<longrightarrow> (\<exists>es'. tree w' k = Some es' \<and> dom es \<subseteq> dom es'))"

text \<open>The first \<open>i\<close> files are there, and \<open>p\<close> has no descriptor but possibly \<open>fd\<close>.\<close>

definition made :: "('w \<Rightarrow> 'k dirs) \<Rightarrow> ('w \<Rightarrow> 'k descriptors) \<Rightarrow> process \<Rightarrow> (int \<rightharpoonup> 'k \<times> bytes \<times> nat \<times> mode) \<Rightarrow>
    'k \<Rightarrow> bytes \<Rightarrow> nat \<Rightarrow> nat \<Rightarrow> 'w \<Rightarrow> bool" where
  "made tree fdt p fds k pre n i w \<longleftrightarrow> filling tree fdt k pre n w \<and> (\<forall>fd. fdt w (p, fd) = fds fd)
     \<and> (\<exists>es. tree w k = Some es \<and> numbered pre ` {..<i} \<subseteq> dom es)"

lemma made_stable: "p \<noteq> q \<Longrightarrow> stable (made tree fdt p fds k pre n i) (helps tree fdt q k pre n)"
  unfolding stable_def made_def helps_def by (metis (no_types, lifting) order_trans)

lemma made_entries:
  assumes "made tree fdt p fds k pre n i w"
  obtains es where "tree w k = Some es" and "dom es \<subseteq> numbered pre ` {..<n}" and "numbered pre ` {..<i} \<subseteq> dom es"
    and "\<And>j b. j < n \<Longrightarrow> es (numbered pre j) = Some b \<Longrightarrow> b = le_encode 4 (of_nat j :: u32)
          \<or> b = [] \<and> (\<exists>r fd. holds_fd fdt r fd k (numbered pre j) 0 w)"
  using assms unfolding made_def filling_def by auto

lemma made_step:
  assumes "tree w k = Some es" and "tree w' k = Some es'" and "dom es \<subseteq> dom es'" and "dom es' \<subseteq> numbered pre ` {..<n}"
    and "\<forall>r fd. r \<noteq> p \<longrightarrow> fdt w' (r, fd) = fdt w (r, fd)" and "\<forall>fd. fdt w' (p, fd) = fds fd" and "numbered pre ` {..<i} \<subseteq> dom es'"
    and c: "\<And>j b. j < n \<Longrightarrow> es' (numbered pre j) = Some b \<Longrightarrow> b = le_encode 4 (of_nat j :: u32)
          \<or> b = [] \<and> (\<exists>r fd. holds_fd fdt r fd k (numbered pre j) 0 w')"
  shows "helps tree fdt p k pre n w w' \<and> made tree fdt p fds k pre n i w'"
proof -
  have "filling tree fdt k pre n w'" unfolding filling_def using assms(2,4) c by auto
  then show ?thesis using assms(1-3,5-7) by (auto simp: helps_def made_def)
qed

lemma made_creat:
  assumes ok: "posix_ok sys p dk tree fdt" and f: "file_path d (numbered pre i)" "i < n"
    and w: "made tree fdt p Map.empty (dk d) pre n i w"
  shows "\<exists>fd e w'. sys_creat sys w (path d (numbered pre i)) = (fd, e, w') \<and> 0 \<le> fd \<and> helps tree fdt p (dk d) pre n w w'
    \<and> made tree fdt p [fd \<mapsto> (dk d, numbered pre i, 0, Writing)] (dk d) pre n (Suc i) w'"
proof -
  obtain es where es: "tree w (dk d) = Some es" "dom es \<subseteq> numbered pre ` {..<n}" "numbered pre ` {..<i} \<subseteq> dom es"
    "\<And>j b. j < n \<Longrightarrow> es (numbered pre j) = Some b \<Longrightarrow> b = le_encode 4 (of_nat j :: u32)
       \<or> b = [] \<and> (\<exists>r fd. holds_fd fdt r fd (dk d) (numbered pre j) 0 w)"
    by (rule made_entries [OF w]) blast
  have none: "fdt w (p, fd) = None" for fd using w by (simp add: made_def)
  obtain fd e w' where c: "sys_creat sys w (path d (numbered pre i)) = (fd, e, w')" "0 \<le> fd"
    "tree w' = (tree w)(dk d \<mapsto> es(numbered pre i \<mapsto> []))" "fdt w' = (fdt w)((p, fd) \<mapsto> (dk d, numbered pre i, 0, Writing))"
    by (rule creat_ok [OF ok f(1) es(1)])
  have "helps tree fdt p (dk d) pre n w w'
      \<and> made tree fdt p [fd \<mapsto> (dk d, numbered pre i, 0, Writing)] (dk d) pre n (Suc i) w'"
  proof (rule made_step)
    show "tree w (dk d) = Some es" by (rule es(1))
    show "tree w' (dk d) = Some (es(numbered pre i \<mapsto> []))" using c(3) by simp
    fix j b
    assume j: "j < n" and b: "(es(numbered pre i \<mapsto> [])) (numbered pre j) = Some b"
    show "b = le_encode 4 (of_nat j :: u32) \<or> b = [] \<and> (\<exists>r fd. holds_fd fdt r fd (dk d) (numbered pre j) 0 w')"
    proof (cases "j = i")
      case True
      then show ?thesis using b c(4) by (auto simp: holds_fd_def)
    next
      case False
      then have "es (numbered pre j) = Some b" using b by simp
      from es(4) [OF j this] show ?thesis
      proof (elim disjE conjE exE)
        fix r fd'
        assume h: "b = []" "holds_fd fdt r fd' (dk d) (numbered pre j) 0 w"
        then have "(r, fd') \<noteq> (p, fd)" using none by (auto simp: holds_fd_def)
        then show ?thesis using h c(4) by (auto simp: holds_fd_def)
      qed simp
    qed
  qed (use es(2,3) f(2) c(4) none in \<open>auto simp: lessThan_Suc\<close>)
  then show ?thesis using c(1,2) by blast
qed

lemma made_write:
  assumes ok: "posix_ok sys p dk tree fdt" and i: "i < n"
    and w: "made tree fdt p [fd \<mapsto> (k, numbered pre i, 0, Writing)] k pre n (Suc i) w"
  shows "\<exists>w'. sys_write sys w fd (le_encode 4 (of_nat i :: u32)) = (4, w') \<and> helps tree fdt p k pre n w w'
    \<and> made tree fdt p [fd \<mapsto> (k, numbered pre i, 4, Writing)] k pre n (Suc i) w'"
proof -
  let ?f = "numbered pre i" and ?v = "le_encode 4 (of_nat i :: u32)"
  obtain es where es: "tree w k = Some es" "dom es \<subseteq> numbered pre ` {..<n}" "numbered pre ` {..<Suc i} \<subseteq> dom es"
    "\<And>j b. j < n \<Longrightarrow> es (numbered pre j) = Some b \<Longrightarrow> b = le_encode 4 (of_nat j :: u32)
       \<or> b = [] \<and> (\<exists>r fd. holds_fd fdt r fd k (numbered pre j) 0 w)"
    by (rule made_entries [OF w]) blast
  have fds: "fdt w (p, fd') = (if fd' = fd then Some (k, ?f, 0, Writing) else None)" for fd' using w by (simp add: made_def)
  obtain b where b: "es ?f = Some b" using es(3) by auto
  have "b = ?v \<or> b = []" using es(4) [OF i b] by blast
  then have v: "written_at 0 ?v b = ?v" by (auto simp: written_at_def)
  have at: "fdt w (p, fd) = Some (k, ?f, 0, Writing)" using fds by simp
  obtain w' where c: "sys_write sys w fd ?v = (int (length ?v), w')"
    "tree w' = (tree w)(k \<mapsto> es(?f \<mapsto> written_at (write_pos Writing 0 b) ?v b))"
    "fdt w' = (fdt w)((p, fd) \<mapsto> (k, ?f, write_pos Writing 0 b + length ?v, Writing))"
    by (rule write_ok [OF ok at es(1) b, of ?v]) (simp_all add: file_limit_def)
  have "helps tree fdt p k pre n w w' \<and> made tree fdt p [fd \<mapsto> (k, ?f, 4, Writing)] k pre n (Suc i) w'"
  proof (rule made_step)
    show "tree w k = Some es" by (rule es(1))
    show "tree w' k = Some (es(?f \<mapsto> ?v))" using c(2) v by simp
    fix j b'
    assume j: "j < n" and b': "(es(?f \<mapsto> ?v)) (numbered pre j) = Some b'"
    show "b' = le_encode 4 (of_nat j :: u32) \<or> b' = [] \<and> (\<exists>r fd. holds_fd fdt r fd k (numbered pre j) 0 w')"
    proof (cases "j = i")
      case False
      then have "es (numbered pre j) = Some b'" using b' by simp
      from es(4) [OF j this] show ?thesis
      proof (elim disjE conjE exE)
        fix r fd'
        assume h: "b' = []" "holds_fd fdt r fd' k (numbered pre j) 0 w"
        then have "(r, fd') \<noteq> (p, fd)" using fds False by (auto simp: holds_fd_def)
        then show ?thesis using h c(3) by (auto simp: holds_fd_def)
      qed simp
    qed (use b' in auto)
  qed (use es(2,3) c(3) fds i in auto)
  then show ?thesis using c(1) by auto
qed

lemma made_close:
  assumes ok: "posix_ok sys p dk tree fdt" and w: "made tree fdt p [fd \<mapsto> (k, numbered pre i, 4, Writing)] k pre n m w"
  shows "\<exists>w'. sys_close sys w fd = (0, w') \<and> helps tree fdt p k pre n w w' \<and> made tree fdt p Map.empty k pre n m w'"
proof -
  obtain es where es: "tree w k = Some es" "dom es \<subseteq> numbered pre ` {..<n}" "numbered pre ` {..<m} \<subseteq> dom es"
    "\<And>j b. j < n \<Longrightarrow> es (numbered pre j) = Some b \<Longrightarrow> b = le_encode 4 (of_nat j :: u32)
       \<or> b = [] \<and> (\<exists>r fd. holds_fd fdt r fd k (numbered pre j) 0 w)"
    by (rule made_entries [OF w]) blast
  have fds: "fdt w (p, fd') = (if fd' = fd then Some (k, numbered pre i, 4, Writing) else None)" for fd'
    using w by (simp add: made_def)
  then have at: "fdt w (p, fd) \<noteq> None" by simp
  obtain w' where c: "sys_close sys w fd = (0, w')" "tree w' = tree w" "fdt w' = (fdt w)((p, fd) := None)"
    by (rule close_ok [OF ok at])
  have "helps tree fdt p k pre n w w' \<and> made tree fdt p Map.empty k pre n m w'"
  proof (rule made_step)
    show "tree w k = Some es" by (rule es(1))
    show "tree w' k = Some es" using c(2) es(1) by simp
    fix j b
    assume j: "j < n" and b: "es (numbered pre j) = Some b"
    from es(4) [OF j b] show "b = le_encode 4 (of_nat j :: u32) \<or> b = [] \<and> (\<exists>r fd. holds_fd fdt r fd k (numbered pre j) 0 w')"
    proof (elim disjE conjE exE)
      fix r fd'
      assume h: "b = []" "holds_fd fdt r fd' k (numbered pre j) 0 w"
      then have "(r, fd') \<noteq> (p, fd)" using fds by (auto simp: holds_fd_def)
      then show ?thesis using h c(3) by (auto simp: holds_fd_def)
    qed simp
  qed (use es(2,3) c(3) fds in auto)
  then show ?thesis using c(1) by blast
qed

lemma createn_shared:
  assumes ok: "posix_ok sys p dk tree fdt" and pq: "p \<noteq> q" and s: "\<And>i. i < n \<Longrightarrow> short d (numbered pre i)"
    and w: "made tree fdt p Map.empty (dk d) pre n 0 w"
  shows "good (helps tree fdt q (dk d) pre n) (helps tree fdt p (dk d) pre n) (made tree fdt p Map.empty (dk d) pre n n)
    (createn_p sys d pre n dup) w"
  unfolding createn_p_def
proof (rule good_each [where I = "made tree fdt p Map.empty (dk d) pre n"])
  let ?R = "helps tree fdt q (dk d) pre n" and ?G = "helps tree fdt p (dk d) pre n"
  show "stable (made tree fdt p Map.empty (dk d) pre n n) ?R" by (rule made_stable [OF pq])
  show "made tree fdt p Map.empty (dk d) pre n 0 w" by (rule w)
  fix i w
  assume i: "i < n" and w: "made tree fdt p Map.empty (dk d) pre n i w"
  let ?f = "numbered pre i" and ?new = "le_encode 4 (of_nat i :: u32)"
  have f: "file_path d ?f" "buf512 (path d ?f) = Inr (path d ?f)"
    using s [OF i] short_path [OF s [OF i]] by (simp_all add: short_def buf512_def)
  let ?Q = "made tree fdt p Map.empty (dk d) pre n (Suc i)"
  let ?A = "\<lambda>fd pos. made tree fdt p [fd \<mapsto> (dk d, ?f, pos, Writing)] (dk d) pre n (Suc i)"
  have closing: "good ?R ?G ?Q (call1 (\<lambda>w. sys_close sys w fd) (\<lambda>r. need (r = 0) fin)) w2" if "?A fd 4 w2" for fd w2
  proof (rule good_call1 [OF made_stable [OF pq] that])
    fix w
    assume "?A fd 4 w"
    from made_close [OF ok this] obtain w' where "sys_close sys w fd = (0, w')" "?G w w'" "?Q w'" by blast
    then show "\<exists>r w'. sys_close sys w fd = (r, w') \<and> ?G w w' \<and> good ?R ?G ?Q (need (r = 0) fin) w'"
      by (intro exI [of _ 0] exI [of _ w'] conjI good_need good_stop [OF made_stable [OF pq]]) simp_all
  qed
  have writing: "good ?R ?G ?Q (call1 (\<lambda>w. sys_write sys w fd ?new) (\<lambda>cc. need (cc = 4)
      (call1 (\<lambda>w. sys_close sys w fd) (\<lambda>r. need (r = 0) fin)))) w1" if "?A fd 0 w1" for fd w1
  proof (rule good_call1 [OF made_stable [OF pq] that])
    fix w
    assume "?A fd 0 w"
    from made_write [OF ok i this] obtain w' where "sys_write sys w fd ?new = (4, w')" "?G w w'" "?A fd 4 w'" by blast
    then show "\<exists>r w'. sys_write sys w fd ?new = (r, w') \<and> ?G w w' \<and> good ?R ?G ?Q (need (r = 4)
        (call1 (\<lambda>w. sys_close sys w fd) (\<lambda>r. need (r = 0) fin))) w'"
      using closing by (auto intro!: good_need)
  qed
  show "good ?R ?G ?Q (given (buf512 (path d ?f)) (\<lambda>n. call2 (\<lambda>w. sys_creat sys w n) (\<lambda>fd errno.
       if fd < 0 \<and> dup \<and> errno = EEXIST_errno then fin
       else need (0 \<le> fd) (call1 (\<lambda>w. sys_write sys w fd ?new) (\<lambda>cc. need (cc = 4)
         (call1 (\<lambda>w. sys_close sys w fd) (\<lambda>r. need (r = 0) fin))))))) w"
    unfolding f(2) given_def sum.case
  proof (rule good_call2 [OF made_stable [OF pq] w])
    fix w
    assume "made tree fdt p Map.empty (dk d) pre n i w"
    from made_creat [OF ok f(1) i this] obtain fd e w' where "sys_creat sys w (path d ?f) = (fd, e, w')" "0 \<le> fd" "?G w w'"
      "?A fd 0 w'" by blast
    then show "\<exists>fd errno w'. sys_creat sys w (path d ?f) = (fd, errno, w') \<and> ?G w w' \<and> good ?R ?G ?Q
        (if fd < 0 \<and> dup \<and> errno = EEXIST_errno then fin
         else need (0 \<le> fd) (call1 (\<lambda>w. sys_write sys w fd ?new) (\<lambda>cc. need (cc = 4)
           (call1 (\<lambda>w. sys_close sys w fd) (\<lambda>r. need (r = 0) fin))))) w'"
      using writing by (intro exI [of _ fd] exI [of _ e] exI [of _ w']) (auto intro!: good_need)
  qed
qed

text \<open>The parent lists the directory while the child may still create: the names no longer change.\<close>

lemma dircheck_shared:
  fixes tree :: "'w \<Rightarrow> 'k dirs"
  assumes ok: "posix_ok sys p dk tree fdt" and pq: "p \<noteq> q" and s: "\<And>i. i < n \<Longrightarrow> short d (numbered pre i)" and n: "n \<le> 1000" and d: "dir_path d"
    and w: "made tree fdt p Map.empty (dk d) pre n n w"
  shows "good (helps tree fdt q (dk d) pre n) (helps tree fdt p (dk d) pre n) (made tree fdt p Map.empty (dk d) pre n n)
    (dircheck_p sys d n) w"
  unfolding dircheck_p_def
proof (rule good_call1 [OF made_stable [OF pq] w])
  let ?R = "helps tree fdt q (dk d) pre n" and ?G = "helps tree fdt p (dk d) pre n"
  let ?Q = "made tree fdt p Map.empty (dk d) pre n n"
  let ?rest = "\<lambda>listing. case listing of None \<Rightarrow> Halt (Inl Exit) :: 'w proc
     | Some all \<Rightarrow> (let names = filter (\<lambda>e. \<not> (e \<noteq> [] \<and> hd e = 46)) all
         in if 1000 < length names then Halt (Inl Out_Of_Bounds)
            else need (n = length names) (let sorted_names = sort names
               in need (\<forall>i < length names - 1. sorted_names ! i \<noteq> sorted_names ! Suc i) fin))"
  fix w
  assume w: "?Q w"
  obtain es where es: "tree w (dk d) = Some es" "dom es \<subseteq> numbered pre ` {..<n}" "numbered pre ` {..<n} \<subseteq> dom es"
    by (rule made_entries [OF w]) blast
  have dom: "dom es = numbered pre ` {..<n}" using es(2,3) by blast
  have plain: "plain_name f" if "f \<in> dom es" for f using that s unfolding dom by (auto simp: short_def)
  obtain ns w' where l: "sys_listdir sys w d = (Some ns, w')" "distinct ns" "dom es \<subseteq> set ns"
    "set ns \<subseteq> dom es \<union> {[46], [46, 46]}" "tree w' = tree w" "fdt w' = fdt w" by (rule list_ok [OF ok d es(1)])
  let ?names = "filter (\<lambda>e. \<not> (e \<noteq> [] \<and> hd e = 46)) ns"
  have card: "card (dom es) = n" unfolding dom by (rule card_numbered)
  note names = listed_names [OF l(2-4) plain]
  have len: "length ?names = n" using names(1) card by simp
  have dist: "\<forall>i < length ?names - 1. sort ?names ! i \<noteq> sort ?names ! Suc i" by (rule names(2))
  have "?Q w'" "?G w w'" using w l(5,6) by (auto simp: made_def filling_def helps_def holds_fd_def)
  moreover have "?rest (Some ns) = fin"
  proof -
    have "?rest (Some ns) = (if 1000 < n then Halt (Inl Out_Of_Bounds) else
        need (n = n) (need (\<forall>i < n - 1. sort ?names ! i \<noteq> sort ?names ! Suc i) fin))"
      by (simp only: option.case Let_def len)
    also have "\<dots> = need (n = n) (need (\<forall>i < n - 1. sort ?names ! i \<noteq> sort ?names ! Suc i) fin)"
      by (rule if_not_P) (use n in simp)
    also have "\<dots> = fin" by (simp only: need_True [OF refl] need_True [OF dist [unfolded len]])
    finally show ?thesis .
  qed
  ultimately have "?Q w'" "?G w w'" "good ?R ?G ?Q (?rest (Some ns)) w'"
    using good_stop [OF made_stable [OF pq, of tree fdt Map.empty "dk d" pre n n]] by simp_all
  then show "\<exists>r w'. sys_listdir sys w d = (r, w') \<and> ?G w w' \<and> good ?R ?G ?Q (?rest r) w'"
    by (intro exI [of _ "Some ns"] exI [of _ w'] conjI l(1))
qed

text \<open>When both have ended every file has its contents.\<close>

lemma made_both:
  assumes "made tree fdt Parent Map.empty k pre n n w" and "made tree fdt Child Map.empty k pre n n w"
  shows "tree w k = Some (filled Map.empty pre n)"
proof -
  obtain es where es: "tree w k = Some es" "dom es \<subseteq> numbered pre ` {..<n}" "numbered pre ` {..<n} \<subseteq> dom es"
    "\<And>j b. j < n \<Longrightarrow> es (numbered pre j) = Some b \<Longrightarrow> b = le_encode 4 (of_nat j :: u32)
       \<or> b = [] \<and> (\<exists>r fd. holds_fd fdt r fd k (numbered pre j) 0 w)"
    by (rule made_entries [OF assms(1)]) blast
  have none: "\<not> holds_fd fdt r fd k f 0 w" for r fd f
    using assms by (cases r) (simp_all add: made_def holds_fd_def)
  have at: "es (numbered pre j) = Some (le_encode 4 (of_nat j :: u32))" if "j < n" for j
  proof -
    have "numbered pre j \<in> dom es" using es(3) that by blast
    then obtain b where b: "es (numbered pre j) = Some b" by blast
    then show ?thesis using es(4) [OF that b] none by auto
  qed
  have "filled Map.empty pre n f = es f" for f
  proof (cases "f \<in> numbered pre ` {..<n}")
    case True
    then show ?thesis using at by (auto simp: filled_at)
  next
    case False
    then have "es f = None" using es(2) by blast
    then show ?thesis using False by (simp add: filled_other)
  qed
  then show ?thesis using es(1) by (simp add: fun_eq_iff)
qed

end
