(* ===== verification/Rely_Parts.thy ===== *)
theory Rely_Parts
  imports Rely_Shared
begin

text \<open>
  \<open>write1\<close> next to a process that writes another part of the same file (\<open>patches\<close>), and \<open>checkread\<close>
  afterwards.
\<close>

definition patches :: "('w \<Rightarrow> 'k dirs) \<Rightarrow> ('w \<Rightarrow> 'k descriptors) \<Rightarrow> process \<Rightarrow> 'k \<Rightarrow> bytes \<Rightarrow> nat set \<Rightarrow> 'w \<Rightarrow> 'w \<Rightarrow> bool" where
  "patches tree fdt q k f A w w' \<longleftrightarrow>
     (\<forall>r fd. r \<noteq> q \<longrightarrow> fdt w' (r, fd) = fdt w (r, fd))
     \<and> (\<forall>es b. tree w k = Some es \<longrightarrow> es f = Some b \<longrightarrow> (\<exists>b'. tree w' k = Some (es(f \<mapsto> b')) \<and> length b' = length b
          \<and> (\<forall>i < length b. i \<notin> A \<longrightarrow> b' ! i = b ! i)))"

text \<open>The file has length \<open>l\<close> and the character \<open>c\<close> in all positions of \<open>B\<close>.\<close>

definition wrote :: "('w \<Rightarrow> 'k dirs) \<Rightarrow> 'k \<Rightarrow> bytes \<Rightarrow> nat \<Rightarrow> nat set \<Rightarrow> byte \<Rightarrow> 'w \<Rightarrow> bool" where
  "wrote tree k f l B c w \<longleftrightarrow> (\<exists>es b. tree w k = Some es \<and> es f = Some b \<and> length b = l \<and> (\<forall>i \<in> B. b ! i = c))"

lemma wrote_stable:
  assumes "B \<inter> A = {}" and "B \<subseteq> {..<l}"
  shows "stable (wrote tree k f l B c) (patches tree fdt q k f A)"
  unfolding stable_def
proof (intro allI impI)
  fix w w'
  assume w: "wrote tree k f l B c w" and r: "patches tree fdt q k f A w w'"
  obtain es b where es: "tree w k = Some es" "es f = Some b" "length b = l" "\<forall>i \<in> B. b ! i = c"
    using w unfolding wrote_def by blast
  then obtain b' where b': "tree w' k = Some (es(f \<mapsto> b'))" "length b' = length b" "\<forall>i < length b. i \<notin> A \<longrightarrow> b' ! i = b ! i"
    using r unfolding patches_def by blast
  have "b' ! i = c" if "i \<in> B" for i using that assms es(3,4) b'(3) by (metis disjoint_iff lessThan_iff subsetD)
  then show "wrote tree k f l B c w'" using b'(1,2) es(3) by (simp add: wrote_def)
qed

lemma wrote_fd_stable:
  assumes "B \<inter> A = {}" and "B \<subseteq> {..<l}" and "p \<noteq> q"
  shows "stable (\<lambda>w. wrote tree k f l B c w \<and> holds_fd fdt p fd k f pos w) (patches tree fdt q k f A)"
  unfolding stable_def
proof (intro allI impI, elim conjE)
  fix w w'
  assume w: "wrote tree k f l B c w" "holds_fd fdt p fd k f pos w" and r: "patches tree fdt q k f A w w'"
  have "wrote tree k f l B c w'" by (rule wrote_stable [OF assms(1,2), unfolded stable_def, rule_format, OF w(1) r])
  moreover have "fdt w' (p, fd) = fdt w (p, fd)" using r assms(3) by (simp add: patches_def)
  ultimately show "wrote tree k f l B c w' \<and> holds_fd fdt p fd k f pos w'" using w(2) by (simp add: holds_fd_def)
qed

lemma written_inside: "pos < length b \<Longrightarrow> written_at pos [c] b = b[pos := c]"
  by (simp add: written_at_def upd_conv_take_nth_drop)

lemma same_tree: "tree w' = tree w \<Longrightarrow> \<forall>r fd. r \<noteq> p \<longrightarrow> fdt w' (r, fd) = fdt w (r, fd) \<Longrightarrow> patches tree fdt p k f A w w'"
  unfolding patches_def by (metis fun_upd_triv)

lemma put_char_good:
  assumes ok: "posix_ok sys p dk tree fdt" and pq: "p \<noteq> q" and l: "start + n \<le> l" and big: "l \<le> file_limit" and A: "{start..<start + n} \<inter> A = {}"
    and i: "i < n" and w: "wrote tree k f l {start..<start + i} c w \<and> holds_fd fdt p fd k f (start + i) w"
  shows "good (patches tree fdt q k f A) (patches tree fdt p k f {start..<start + n})
    (\<lambda>w. wrote tree k f l {start..<start + Suc i} c w \<and> holds_fd fdt p fd k f (start + Suc i) w)
    (call1 (\<lambda>w. sys_write sys w fd [c]) (\<lambda>cc. need (cc = 1) (call1 (\<lambda>w. sys_fsync sys w fd) (\<lambda>r. need (r = 0) fin)))) w"
proof -
  let ?R = "patches tree fdt q k f A" and ?G = "patches tree fdt p k f {start..<start + n}"
  let ?P = "\<lambda>i w. wrote tree k f l {start..<start + i} c w \<and> holds_fd fdt p fd k f (start + i) w"
  have stable: "stable (?P j) ?R" if "j \<le> n" for j
    by (rule wrote_fd_stable [OF _ _ pq]) (use l that in auto, use A that in fastforce)
  have sync: "good ?R ?G (?P (Suc i)) (call1 (\<lambda>w. sys_fsync sys w fd) (\<lambda>r. need (r = 0) fin)) w1" if "?P (Suc i) w1" for w1
  proof (rule good_call1 [OF stable that])
    show "Suc i \<le> n" using i by simp
    fix w
    assume w: "?P (Suc i) w"
    then have "fdt w (p, fd) \<noteq> None" by (simp add: holds_fd_def)
    then obtain w' where c: "sys_fsync sys w fd = (0, w')" "tree w' = tree w" "fdt w' = fdt w" by (rule fsync_ok [OF ok])
    then have "?P (Suc i) w'" "?G w w'" using w by (auto simp: wrote_def holds_fd_def intro!: same_tree)
    then show "\<exists>r w'. sys_fsync sys w fd = (r, w') \<and> ?G w w' \<and> good ?R ?G (?P (Suc i)) (need (r = 0) fin) w'"
      using c(1) i by (intro exI [of _ 0] exI [of _ w'] conjI good_need good_stop [OF stable]) simp_all
  qed
  show ?thesis
  proof (rule good_call1 [OF stable w])
    show "i \<le> n" using i by simp
    fix w
    assume w: "?P i w"
    obtain es b where es: "tree w k = Some es" "es f = Some b" "length b = l" "\<forall>j \<in> {start..<start + i}. b ! j = c"
      using w unfolding wrote_def by blast
    have at: "fdt w (p, fd) = Some (k, f, start + i, Writing)" using w by (simp add: holds_fd_def)
    obtain w' where c: "sys_write sys w fd [c] = (int (length [c]), w')"
      "tree w' = (tree w)(k \<mapsto> es(f \<mapsto> written_at (write_pos Writing (start + i) b) [c] b))"
      "fdt w' = (fdt w)((p, fd) \<mapsto> (k, f, write_pos Writing (start + i) b + length [c], Writing))"
      by (rule write_ok [OF ok at es(1,2), of "[c]"]) (use i l big in simp_all)
    have b': "written_at (start + i) [c] b = b[start + i := c]" using i l es(3) by (intro written_inside) simp
    have "?P (Suc i) w'"
      using c(2,3) b' es(3,4) i l by (auto simp: wrote_def holds_fd_def nth_list_update less_Suc_eq)
    moreover have "?G w w'" using c(2,3) b' es(1,2) i by (auto simp: patches_def)
    ultimately show "\<exists>r w'. sys_write sys w fd [c] = (r, w') \<and> ?G w w'
        \<and> good ?R ?G (?P (Suc i)) (need (r = 1) (call1 (\<lambda>w. sys_fsync sys w fd) (\<lambda>r. need (r = 0) fin))) w'"
      using c(1) sync by (intro exI [of _ 1] exI [of _ w'] conjI good_need) simp_all
  qed
qed

lemma write1_good:
  assumes ok: "posix_ok sys p dk tree fdt" and pq: "p \<noteq> q" and l: "start + n \<le> l" and big: "l \<le> file_limit" and A: "{start..<start + n} \<inter> A = {}"
    and s: "short d f" and w: "wrote tree (dk d) f l {} c w"
  shows "good (patches tree fdt q (dk d) f A) (patches tree fdt p (dk d) f {start..<start + n})
    (wrote tree (dk d) f l {start..<start + n} c) (write1_p sys d f (int start) n c) w"
proof -
  let ?k = "dk d"
  let ?R = "patches tree fdt q ?k f A" and ?G = "patches tree fdt p ?k f {start..<start + n}"
  let ?Q = "wrote tree ?k f l {start..<start + n} c"
  let ?P = "\<lambda>fd i w. wrote tree ?k f l {start..<start + i} c w \<and> holds_fd fdt p fd ?k f (start + i) w"
  have Q: "stable ?Q ?R" by (rule wrote_stable) (use A l in auto)
  have stable: "stable (?P fd j) ?R" if "j \<le> n" for fd j
    by (rule wrote_fd_stable [OF _ _ pq]) (use l that in auto, use A that in fastforce)
  have closing: "good ?R ?G ?Q (call1 (\<lambda>w. sys_close sys w fd) (\<lambda>r. need (r = 0) fin)) w1" if "?P fd n w1" for fd w1
  proof (rule good_call1 [OF stable that])
    fix w
    assume w: "?P fd n w"
    then have "fdt w (p, fd) \<noteq> None" by (simp add: holds_fd_def)
    then obtain w' where c: "sys_close sys w fd = (0, w')" "tree w' = tree w" "fdt w' = (fdt w)((p, fd) := None)"
      by (rule close_ok [OF ok])
    then have "?Q w'" "?G w w'" using w by (auto simp: wrote_def intro!: same_tree)
    then show "\<exists>r w'. sys_close sys w fd = (r, w') \<and> ?G w w' \<and> good ?R ?G ?Q (need (r = 0) fin) w'"
      using c(1) by (intro exI [of _ 0] exI [of _ w'] conjI good_need good_stop [OF Q]) simp_all
  qed simp
  have start: "start \<le> file_limit" using l big by simp
  have putting: "good ?R ?G ?Q (put_chars sys fd n c) w1" if "?P fd 0 w1" for fd w1
    unfolding put_chars_def
  proof (rule good_sequel)
    show "good ?R ?G (?P fd n) (each (\<lambda>i. call1 (\<lambda>w. sys_write sys w fd [c]) (\<lambda>cc. need (cc = 1)
        (call1 (\<lambda>w. sys_fsync sys w fd) (\<lambda>r. need (r = 0) fin)))) [0..<n]) w1"
      by (rule good_each [OF stable [OF order_refl] that put_char_good [OF ok pq l big A]])
  qed (rule closing)
  have opened: "good ?R ?G ?Q (call1 (\<lambda>w. sys_lseek sys w fd (int start)) (\<lambda>r. need (r = int start) (put_chars sys fd n c))) w1"
    if "wrote tree ?k f l {} c w1 \<and> holds_fd fdt p fd ?k f 0 w1" for fd w1
  proof (rule good_call1 [OF wrote_fd_stable [OF _ _ pq] that])
    fix w
    assume w: "wrote tree ?k f l {} c w \<and> holds_fd fdt p fd ?k f 0 w"
    then have at: "fdt w (p, fd) = Some (?k, f, 0, Writing)" by (simp add: holds_fd_def)
    obtain w' where c: "sys_lseek sys w fd (int start) = (int start, w')" "tree w' = tree w"
      "fdt w' = (fdt w)((p, fd) \<mapsto> (?k, f, start, Writing))" by (rule lseek_ok [OF ok at start])
    then have "?P fd 0 w'" "?G w w'" using w by (auto simp: wrote_def holds_fd_def intro!: same_tree)
    then show "\<exists>r w'. sys_lseek sys w fd (int start) = (r, w') \<and> ?G w w'
        \<and> good ?R ?G ?Q (need (r = int start) (put_chars sys fd n c)) w'"
      using c(1) putting by (intro exI [of _ "int start"] exI [of _ w'] conjI good_need) simp_all
  qed simp_all
  have f: "file_path d f" "buf512 (path d f) = Inr (path d f)" using s short_path [OF s] by (simp_all add: short_def buf512_def)
  have w0: "stable (wrote tree ?k f l {} c) ?R" by (rule wrote_stable) simp_all
  show ?thesis
    unfolding write1_p_def f(2) given_def sum.case Let_def
  proof (rule good_call2 [OF w0 w])
    fix w
    assume w: "wrote tree ?k f l {} c w"
    obtain es where es: "tree w ?k = Some es" "es f \<noteq> None" using w unfolding wrote_def by blast
    obtain fd e w' where c: "sys_open sys w (path d f) {O_WRONLY, O_CREAT} = (fd, e, w')" "0 \<le> fd" "tree w' = tree w"
      "fdt w' = (fdt w)((p, fd) \<mapsto> (?k, f, 0, mode_of {O_WRONLY, O_CREAT}))" by (rule open_ok [OF ok f(1) es])
    then have "wrote tree ?k f l {} c w'" "holds_fd fdt p fd ?k f 0 w'" "?G w w'"
      using w by (auto simp: wrote_def holds_fd_def intro!: same_tree)
    then show "\<exists>fd errno w'. sys_open sys w (path d f) {O_WRONLY, O_CREAT} = (fd, errno, w') \<and> ?G w w'
        \<and> good ?R ?G ?Q (if fd < 0 \<and> errno = EEXIST_errno
             then call2 (\<lambda>w. sys_open sys w (path d f) {O_WRONLY}) (\<lambda>fd _. need (0 \<le> fd)
               (call1 (\<lambda>w. sys_lseek sys w fd (int start)) (\<lambda>r. need (r = int start) (put_chars sys fd n c))))
             else need (0 \<le> fd) (call1 (\<lambda>w. sys_lseek sys w fd (int start)) (\<lambda>r. need (r = int start) (put_chars sys fd n c)))) w'"
      using c(1,2) opened by (intro exI [of _ fd] exI [of _ e] exI [of _ w']) (auto intro!: good_need)
  qed
qed

text \<open>\<open>checkread\<close> of positions that all have the character passes.\<close>

lemma checkread_steps:
  assumes ok: "posix_ok sys q dk tree fdt" and s: "short d f" and b: "es f = Some b" and big: "start \<le> file_limit"
    and c: "\<forall>i < n. start + i < length b \<and> b ! (start + i) = c"
  shows "steps tree (dk d) es (checkread sys d f (int start) n c) es"
  unfolding steps_def
proof (intro allI impI)
  fix w
  assume w: "tree w (dk d) = Some es"
  have f: "file_path d f" "es f \<noteq> None" using short_path [OF s] b by simp_all
  obtain fd e w1 where o: "sys_open sys w (path d f) {} = (fd, e, w1)" "0 \<le> fd" "fdt w (q, fd) = None" "tree w1 = tree w"
    "fdt w1 = (fdt w)((q, fd) \<mapsto> (dk d, f, 0, mode_of {}))" by (rule open_ok [OF ok f(1) w f(2)])
  have at: "fdt w1 (q, fd) = Some (dk d, f, 0, Reading)" using o(5) by simp
  obtain w2 where k: "sys_lseek sys w1 fd (int start) = (int start, w2)" "tree w2 = tree w1"
    "fdt w2 = (fdt w1)((q, fd) \<mapsto> (dk d, f, start, Reading))" by (rule lseek_ok [OF ok at big])
  let ?body = "\<lambda>i w. let (cc, xc, w') = sys_read sys w fd 1 in demand (cc = 1) (demand (xc = [c]) (Inr w'))"
  let ?F = "\<lambda>m. (fdt w)((q, fd) \<mapsto> (dk d, f, start + m, Reading))"
  have loop: "m \<le> n \<Longrightarrow> (\<And>w3. for_each ?body [0..<m] w2 = Inr w3 \<Longrightarrow> tree w3 = tree w \<Longrightarrow> fdt w3 = ?F m \<Longrightarrow> thesis) \<Longrightarrow> thesis"
    for m thesis
  proof (induction m arbitrary: thesis)
    case 0
    have "fdt w2 = ?F 0" unfolding k(3) o(5) by (simp only: fun_upd_upd add_0_right)
    moreover have "for_each ?body [0..<0] w2 = Inr w2" "tree w2 = tree w" using o(4) k(2) by simp_all
    ultimately show ?case by (intro "0.prems"(2))
  next
    case (Suc m)
    obtain w3 where w3: "for_each ?body [0..<m] w2 = Inr w3" "tree w3 = tree w" "fdt w3 = ?F m"
      by (rule Suc.IH) (use Suc.prems(1) in simp)
    have at: "fdt w3 (q, fd) = Some (dk d, f, start + m, Reading)" "tree w3 (dk d) = Some es" using w3(2,3) w by simp_all
    have "start + m < length b" "b ! (start + m) = c" using c Suc.prems(1) by auto
    then have m: "take 1 (drop (start + m) b) = [c]" using Cons_nth_drop_Suc [of "start + m" b] by (metis One_nat_def take0 take_Suc_Cons)
    obtain w4 where w4: "sys_read sys w3 fd 1 = (int (length [c]), [c], w4)" "tree w4 = tree w3"
      "fdt w4 = (fdt w3)((q, fd) \<mapsto> (dk d, f, start + m + length [c], Reading))"
      by (rule read_ok [OF ok at b, of 1, unfolded m])
    have "fdt w4 = ?F (Suc m)" unfolding w4(3) w3(3) by simp
    moreover have "for_each ?body [0..<Suc m] w2 = Inr w4" using w3(1) w4(1) by (simp add: for_each_snoc demand_def)
    ultimately show ?case by (intro Suc.prems(2)) (simp_all only: w4(2) w3(2))
  qed
  obtain w3 where w3: "for_each ?body [0..<n] w2 = Inr w3" "tree w3 = tree w" "fdt w3 = ?F n" by (rule loop [OF order_refl])
  have at3: "fdt w3 (q, fd) \<noteq> None" using w3(3) by simp
  obtain w4 where x: "sys_close sys w3 fd = (0, w4)" "tree w4 = tree w3" "fdt w4 = (fdt w3)((q, fd) := None)"
    by (rule close_ok [OF ok at3])
  have "checkread sys d f (int start) n c w = Inr w4"
    using s o(1,2) k(1) w3(1) x(1) by (simp add: checkread_def buf512_def short_def demand_def)
  then show "\<exists>w'. checkread sys d f (int start) n c w = Inr w' \<and> tree w' (dk d) = Some es"
    using w3(2) x(2) w by simp
qed

end
