(* ===== verification/Fork_Steps.thy ===== *)
theory Fork_Steps
  imports Rely_Parts Test_Properties
begin

text \<open>
  The tests that fork, one by one: what a fork and the wait for the child achieve on a directory
  in every schedule, under the documented behaviour of the calls that start and await processes.
\<close>

section \<open>Fork and wait\<close>

text \<open>\<open>kids\<close> is the set of the children that were not waited for, which no call on files changes. A fork
  adds a new one, which starts with the state of its parent. Descriptors open at a fork share their position
  and are no longer followed; the programs have none open. A wait for a child reports how
  it ended, once. The laws describe a system on which a process can always be made.\<close>

definition unix_ok ::
  "'w unix \<Rightarrow> (bytes \<Rightarrow> 'k) \<Rightarrow> ('w \<Rightarrow> 'k dirs) \<Rightarrow> ('w \<Rightarrow> 'k descriptors) \<Rightarrow> ('w \<Rightarrow> int set) \<Rightarrow> bool" where
  "unix_ok os dk tree fdt kids \<longleftrightarrow> (\<forall>p. posix_ok (calls os p) p dk tree fdt \<and> leaves (calls os p) kids)
     \<and> (\<forall>w. \<exists>pid w'. sys_fork os w = (pid, w') \<and> 0 < pid \<and> pid \<notin> kids w \<and> kids w' = insert pid (kids w)
          \<and> tree w' = tree w \<and> fdt w' = Map.empty)
     \<and> (\<forall>w pid ended. pid \<in> kids w \<longrightarrow> (\<exists>w'. sys_waitpid os w pid ended = (pid, ended, w') \<and> tree w' = tree w
          \<and> kids w' = kids w - {pid}))"

lemma spares_functions:
  assumes "leaves sys v"
  shows "spares v (createn_p sys d pre n dup)" and "spares v (createn_b sys d pre n)" and "spares v (unlinkn_p sys d pre n)"
    and "spares v (dircheck_p sys d n)" and "spares v (write1_p sys d f start n c)"
proof -
  show "spares v (createn_p sys d pre n dup)" "spares v (createn_b sys d pre n)" "spares v (unlinkn_p sys d pre n)"
    using assms by (auto simp: leaves_def createn_p_def createn_b_def unlinkn_p_def intro!: spares_intros)
  show "spares v (dircheck_p sys d n)"
    unfolding dircheck_p_def Let_def
    by (rule spares_call1) (use assms in \<open>auto simp: leaves_def intro!: spares_intros split: option.split\<close>)
  show "spares v (write1_p sys d f start n c)"
    using assms by (auto simp: leaves_def write1_p_def put_chars_def Let_def intro!: spares_intros)
qed

lemma forked_run:
  assumes ok: "unix_ok os dk tree fdt kids" and calm: "spares kids c" "spares kids p" and G: "G1 \<le> R2" "G2 \<le> R1"
    and c: "\<And>w1. tree w1 = tree w \<Longrightarrow> fdt w1 = Map.empty \<Longrightarrow> good R1 G1 Q1 c w1"
    and p: "\<And>w1. tree w1 = tree w \<Longrightarrow> fdt w1 = Map.empty \<Longrightarrow> good R2 G2 Q2 p w1"
  obtains w1 w2 w' where "forked os s c p w = Inr w'" and "tree w1 = tree w" and "(either G1 G2)\<^sup>*\<^sup>* w1 w2"
    and "Q1 w2" and "Q2 w2" and "tree w' = tree w2"
proof -
  obtain pid w1 where f: "sys_fork os w = (pid, w1)" "0 < pid" "tree w1 = tree w" "fdt w1 = Map.empty" "pid \<in> kids w1"
    using ok unfolding unix_ok_def by (metis insertI1)
  obtain w2 where i: "interleave s c p w1 = (Inr (), Inr (), w2)" "Q1 w2" "Q2 w2" "(either G1 G2)\<^sup>*\<^sup>* w1 w2"
    using good_interleave [OF c [OF f(3,4)] p [OF f(3,4)] G, of s] by blast
  obtain w' where "sys_waitpid os w2 pid (Some 0) = (pid, Some 0, w')" "tree w' = tree w2"
    using ok f(5) spares_interleave [OF i(1) calm] unfolding unix_ok_def by metis
  then show thesis using that f i by (simp add: forked_def demand_def exit_status_def reap_def)
qed

lemma steps_star:
  assumes "stable P G1" and "stable P G2" and "(either G1 G2)\<^sup>*\<^sup>* w w'" and "P w"
  shows "P w'"
proof -
  have "stable P (either G1 G2)" using assms(1,2) unfolding stable_def either_def by blast
  then show "P w'" using assms(3,4) stable_star [of _ w w' P] by blast
qed

section \<open>Files of their own\<close>

lemma forked_apart:
  assumes ok: "unix_ok os dk tree fdt kids" and calm: "spares kids c" "spares kids p" and N: "N1 \<inter> N2 = {}"
    and c: "\<And>w. sees tree k N1 es w \<Longrightarrow>
      good (touches tree fdt Parent ({k} \<times> N2)) (touches tree fdt Child ({k} \<times> N1)) (sees tree k N1 es1) c w"
    and p: "\<And>w. sees tree k N2 es w \<Longrightarrow>
      good (touches tree fdt Child ({k} \<times> N1)) (touches tree fdt Parent ({k} \<times> N2)) (sees tree k N2 es2) p w"
    and es': "\<And>f. es' f = (if f \<in> N1 then es1 f else if f \<in> N2 then es2 f else es f)"
  shows "steps tree k es (forked os s c p) es'"
  unfolding steps_def
proof (intro allI impI)
  fix w
  assume w: "tree w k = Some es"
  have start: "sees tree k N es w1" if "tree w1 = tree w" for N w1 using that w by (simp add: sees_def)
  obtain w1 w2 w' where run: "forked os s c p w = Inr w'" "tree w1 = tree w" "tree w' = tree w2"
    "(either (touches tree fdt Child ({k} \<times> N1)) (touches tree fdt Parent ({k} \<times> N2)))\<^sup>*\<^sup>* w1 w2"
    "sees tree k N1 es1 w2" "sees tree k N2 es2 w2"
    by (rule forked_run [OF ok calm order_refl order_refl c p]) (auto intro: start)
  have "sees tree k (- (N1 \<union> N2)) es w2"
    by (rule steps_star [where P = "sees tree k (- (N1 \<union> N2)) es", OF _ _ run(4) start [OF run(2)]]) (rule sees_stable, simp)+
  then have "tree w2 k = Some es'" using run(5,6) es' unfolding sees_def by (auto simp: fun_eq_iff)
  then show "\<exists>w'. forked os s c p w = Inr w' \<and> tree w' k = Some es'" using run(1,3) by auto
qed

lemma creates_steps:
  assumes ok: "unix_ok os dk tree fdt kids" and d: "leads dk k d1" "leads dk k d2" and n: "n \<le> 100"
    and p: "plain_name p1" "length p1 < 20" "plain_name p2" "length p2 < 20" and apart: "\<And>i j. numbered p1 i \<noteq> numbered p2 j"
  shows "steps tree k es (forked os s (createn_p (calls os Child) d2 p1 n b1) (createn_p (calls os Parent) d1 p2 n b2))
    (filled (filled es p1 n) p2 n)"
proof -
  note apart = apart apart [symmetric]
  let ?N1 = "numbered p1 ` {..<n}" and ?N2 = "numbered p2 ` {..<n}"
  have k: "dk d1 = k" "dk d2 = k" using d by (simp_all add: leads_def)
  have posix: "posix_ok (calls os p) p dk tree fdt" and files: "leaves (calls os p) kids" for p using ok by (simp_all add: unix_ok_def)
  have short: "short d2 (numbered p1 i)" "short d1 (numbered p2 i)" if "i < n" for i
    using leads_numbered [OF d(2) p(1,2)] leads_numbered [OF d(1) p(3,4)] that n by auto
  show ?thesis
  proof (rule forked_apart [OF ok])
    show "spares kids (createn_p (calls os Child) d2 p1 n b1)" "spares kids (createn_p (calls os Parent) d1 p2 n b2)"
      by (rule spares_functions [OF files])+
    show "?N1 \<inter> ?N2 = {}" using apart by auto
    show "good (touches tree fdt Parent ({k} \<times> ?N2)) (touches tree fdt Child ({k} \<times> ?N1))
        (sees tree k ?N1 (filled es p1 n)) (createn_p (calls os Child) d2 p1 n b1) w" if "sees tree k ?N1 es w" for w
      by (rule createn_good [OF posix, of Child Parent ?N1 d2, unfolded k]) (use apart short that in auto)
    show "good (touches tree fdt Child ({k} \<times> ?N1)) (touches tree fdt Parent ({k} \<times> ?N2))
        (sees tree k ?N2 (filled es p2 n)) (createn_p (calls os Parent) d1 p2 n b2) w" if "sees tree k ?N2 es w" for w
      by (rule createn_good [OF posix, of Parent Child ?N2 d1, unfolded k]) (use apart short that in auto)
    show "filled (filled es p1 n) p2 n f = (if f \<in> ?N1 then filled es p1 n f else if f \<in> ?N2 then filled es p2 n f else es f)" for f
    proof (cases "f \<in> ?N2")
      case True
      then show ?thesis using apart by (auto simp: filled_at)
    next
      case False
      then have "filled (filled es p1 n) p2 n f = filled es p1 n f" by (rule filled_other)
      then show ?thesis using False by (auto simp: filled_other)
    qed
  qed
qed

lemma create_delete_steps:
  assumes ok: "unix_ok os dk tree fdt kids" and d: "leads dk k d1" "leads dk k d2" and n: "n \<le> 100"
    and p: "plain_name p1" "length p1 < 20" "plain_name p3" "length p3 < 20" "plain_name p4" "length p4 < 20"
    and apart: "\<And>i j. numbered p1 i \<noteq> numbered p3 j" "\<And>i j. numbered p1 i \<noteq> numbered p4 j" "\<And>i j. numbered p3 i \<noteq> numbered p4 j"
    and some: "\<And>i. i < n \<Longrightarrow> es (numbered p1 i) \<noteq> None"
  shows "steps tree k es (forked os s
      (sequel (unlinkn_p (calls os Child) d2 p1 n) (createn_p (calls os Child) d1 p3 n b1)) (createn_p (calls os Parent) d1 p4 n b2))
    (filled (filled (cleared es p1 n) p3 n) p4 n)"
proof -
  note apart = apart apart [symmetric]
  let ?N1 = "numbered p1 ` {..<n} \<union> numbered p3 ` {..<n}" and ?N2 = "numbered p4 ` {..<n}"
  have k: "dk d1 = k" "dk d2 = k" using d by (simp_all add: leads_def)
  have posix: "posix_ok (calls os p) p dk tree fdt" and files: "leaves (calls os p) kids" for p using ok by (simp_all add: unix_ok_def)
  have short: "short d2 (numbered p1 i)" "short d1 (numbered p3 i)" "short d1 (numbered p4 i)" if "i < n" for i
    using leads_numbered [OF d(2) p(1,2)] leads_numbered [OF d(1) p(3,4)] leads_numbered [OF d(1) p(5,6)] that n by auto
  show ?thesis
  proof (rule forked_apart [OF ok])
    show "spares kids (sequel (unlinkn_p (calls os Child) d2 p1 n) (createn_p (calls os Child) d1 p3 n b1))"
      "spares kids (createn_p (calls os Parent) d1 p4 n b2)"
      by (intro spares_sequel spares_functions [OF files])+
    show disj: "?N1 \<inter> ?N2 = {}" using apart by auto
    show "good (touches tree fdt Parent ({k} \<times> ?N2)) (touches tree fdt Child ({k} \<times> ?N1))
        (sees tree k ?N1 (filled (cleared es p1 n) p3 n))
        (sequel (unlinkn_p (calls os Child) d2 p1 n) (createn_p (calls os Child) d1 p3 n b1)) w" if "sees tree k ?N1 es w" for w
    proof (rule good_sequel)
      show "good (touches tree fdt Parent ({k} \<times> ?N2)) (touches tree fdt Child ({k} \<times> ?N1))
          (sees tree k ?N1 (cleared es p1 n)) (unlinkn_p (calls os Child) d2 p1 n) w"
        by (rule unlinkn_good [OF posix, of ?N1 d2, unfolded k]) (use apart short that some in \<open>auto simp: cleared_eq\<close>)
      show "good (touches tree fdt Parent ({k} \<times> ?N2)) (touches tree fdt Child ({k} \<times> ?N1))
          (sees tree k ?N1 (filled (cleared es p1 n) p3 n)) (createn_p (calls os Child) d1 p3 n b1) w"
        if "sees tree k ?N1 (cleared es p1 n) w" for w
        by (rule createn_good [OF posix, of Child Parent ?N1 d1, unfolded k]) (use apart short that in auto)
    qed
    show "good (touches tree fdt Child ({k} \<times> ?N1)) (touches tree fdt Parent ({k} \<times> ?N2))
        (sees tree k ?N2 (filled es p4 n)) (createn_p (calls os Parent) d1 p4 n b2) w" if "sees tree k ?N2 es w" for w
      by (rule createn_good [OF posix, of Parent Child ?N2 d1, unfolded k]) (use apart short that in auto)
    show "filled (filled (cleared es p1 n) p3 n) p4 n f
        = (if f \<in> ?N1 then filled (cleared es p1 n) p3 n f else if f \<in> ?N2 then filled es p4 n f else es f)" for f
    proof (cases "f \<in> ?N2")
      case True
      then show ?thesis using apart by (auto simp: filled_at)
    next
      case False
      then have "filled (filled (cleared es p1 n) p3 n) p4 n f = filled (cleared es p1 n) p3 n f" by (rule filled_other)
      then show ?thesis using False by (auto simp: filled_other cleared_eq)
    qed
  qed
qed

section \<open>The same files\<close>

lemma same_files_steps:
  assumes ok: "unix_ok os dk tree fdt kids" and d: "leads dk k d1" "leads dk k d2" and n: "n \<le> 100"
    and p: "plain_name pre" "length pre < 20"
  shows "steps tree k Map.empty (forked os s (createn_p (calls os Child) d2 pre n b1)
      (sequel (createn_p (calls os Parent) d1 pre n b2) (dircheck_p (calls os Parent) d1 n))) (filled Map.empty pre n)"
  unfolding steps_def
proof (intro allI impI)
  fix w
  assume w: "tree w k = Some Map.empty"
  have k: "dk d1 = k" "dk d2 = k" using d by (simp_all add: leads_def)
  have posix: "posix_ok (calls os p) p dk tree fdt" and files: "leaves (calls os p) kids" for p using ok by (simp_all add: unix_ok_def)
  have short: "short d2 (numbered pre i)" "short d1 (numbered pre i)" if "i < n" for i
    using leads_numbered [OF d(2) p] leads_numbered [OF d(1) p] that n by auto
  let ?G = "\<lambda>p. helps tree fdt p k pre n" and ?Q = "\<lambda>p. made tree fdt p Map.empty k pre n n"
  have start: "made tree fdt p Map.empty k pre n 0 w1" if "tree w1 = tree w" "fdt w1 = Map.empty" for w1 p
    using that w by (simp add: made_def filling_def)
  have child: "good (?G Parent) (?G Child) (?Q Child) (createn_p (calls os Child) d2 pre n b1) w1"
    if "tree w1 = tree w" "fdt w1 = Map.empty" for w1
    by (rule createn_shared [OF posix, of Child Parent n d2, unfolded k]) (use short start that in auto)
  have parent: "good (?G Child) (?G Parent) (?Q Parent) (sequel (createn_p (calls os Parent) d1 pre n b2) (dircheck_p (calls os Parent) d1 n)) w1"
    if "tree w1 = tree w" "fdt w1 = Map.empty" for w1
  proof (rule good_sequel)
    show "good (?G Child) (?G Parent) (?Q Parent) (createn_p (calls os Parent) d1 pre n b2) w1"
      by (rule createn_shared [OF posix, of Parent Child n d1, unfolded k]) (use short start that in auto)
    show "good (?G Child) (?G Parent) (?Q Parent) (dircheck_p (calls os Parent) d1 n) w" if "?Q Parent w" for w
      by (rule dircheck_shared [OF posix, of Parent Child n d1, unfolded k]) (use short n that leads_dir [OF d(1)] in auto)
  qed
  obtain w1 w2 w' where "forked os s (createn_p (calls os Child) d2 pre n b1)
      (sequel (createn_p (calls os Parent) d1 pre n b2) (dircheck_p (calls os Parent) d1 n)) w = Inr w'"
    "tree w' = tree w2" "?Q Child w2" "?Q Parent w2"
    by (rule forked_run [OF ok spares_functions(1) [OF files] spares_sequel [OF spares_functions(1) [OF files] spares_functions(4) [OF files]] order_refl
          order_refl child parent])
  then show "\<exists>w'. forked os s (createn_p (calls os Child) d2 pre n b1)
      (sequel (createn_p (calls os Parent) d1 pre n b2) (dircheck_p (calls os Parent) d1 n)) w = Inr w'
      \<and> tree w' k = Some (filled Map.empty pre n)"
    using made_both by auto
qed

section \<open>Parts of a file\<close>

definition patched :: "bytes \<Rightarrow> nat \<Rightarrow> nat \<Rightarrow> byte \<Rightarrow> nat \<Rightarrow> nat \<Rightarrow> byte \<Rightarrow> bytes" where
  "patched b s1 n1 c1 s2 n2 c2 =
     map (\<lambda>i. if i \<in> {s1..<s1 + n1} then c1 else if i \<in> {s2..<s2 + n2} then c2 else b ! i) [0..<length b]"

definition only_in :: "('w \<Rightarrow> 'k dirs) \<Rightarrow> 'k \<Rightarrow> entries \<Rightarrow> bytes \<Rightarrow> bytes \<Rightarrow> nat set \<Rightarrow> 'w \<Rightarrow> bool" where
  "only_in tree k es f b A w \<longleftrightarrow> (\<exists>b'. tree w k = Some (es(f \<mapsto> b')) \<and> length b' = length b
     \<and> (\<forall>i < length b. i \<notin> A \<longrightarrow> b' ! i = b ! i))"

lemma only_in_stable: "B \<subseteq> A \<Longrightarrow> stable (only_in tree k es f b A) (patches tree fdt q k f B)"
  unfolding stable_def
proof (intro allI impI)
  fix w w'
  assume B: "B \<subseteq> A" and "only_in tree k es f b A w" and r: "patches tree fdt q k f B w w'"
  then obtain b' where b': "tree w k = Some (es(f \<mapsto> b'))" "length b' = length b" "\<forall>i < length b. i \<notin> A \<longrightarrow> b' ! i = b ! i"
    unfolding only_in_def by blast
  have at: "(es(f \<mapsto> b')) f = Some b'" by simp
  obtain b'' where "tree w' k = Some ((es(f \<mapsto> b'))(f \<mapsto> b''))" "length b'' = length b'"
    "\<forall>i < length b'. i \<notin> B \<longrightarrow> b'' ! i = b' ! i"
    using r b'(1) at unfolding patches_def by blast
  then show "only_in tree k es f b A w'"
    unfolding only_in_def using b'(2,3) B by (intro exI [of _ b'']) auto
qed

lemma parts_steps:
  assumes ok: "unix_ok os dk tree fdt kids" and d: "leads dk k d1" "leads dk k d2" and f: "plain_name f" "length f < 20"
    and b: "es f = Some b" and big: "length b \<le> file_limit" and l: "s1 + n1 \<le> length b" "s2 + n2 \<le> length b" and A: "{s1..<s1 + n1} \<inter> {s2..<s2 + n2} = {}"
  shows "steps tree k es (forked os s (write1_p (calls os Child) d2 f (int s1) n1 c1) (write1_p (calls os Parent) d1 f (int s2) n2 c2))
    (es(f \<mapsto> patched b s1 n1 c1 s2 n2 c2))"
  unfolding steps_def
proof (intro allI impI)
  fix w
  assume w: "tree w k = Some es"
  let ?A1 = "{s1..<s1 + n1}" and ?A2 = "{s2..<s2 + n2}" and ?l = "length b"
  have k: "dk d1 = k" "dk d2 = k" using d by (simp_all add: leads_def)
  have posix: "posix_ok (calls os p) p dk tree fdt" and files: "leaves (calls os p) kids" for p using ok by (simp_all add: unix_ok_def)
  have short: "short d1 f" "short d2 f" using leads_short [OF d(1) f] leads_short [OF d(2) f] .
  have start: "wrote tree k f ?l {} c w1" if "tree w1 = tree w" for w1 c using that w b by (auto simp: wrote_def)
  have A': "?A2 \<inter> ?A1 = {}" using A by blast
  obtain w1 w2 w' where run: "forked os s (write1_p (calls os Child) d2 f (int s1) n1 c1)
        (write1_p (calls os Parent) d1 f (int s2) n2 c2) w = Inr w'" "tree w1 = tree w" "tree w' = tree w2"
    "(either (patches tree fdt Child k f ?A1) (patches tree fdt Parent k f ?A2))\<^sup>*\<^sup>* w1 w2"
    "wrote tree k f ?l ?A1 c1 w2" "wrote tree k f ?l ?A2 c2 w2"
    by (rule forked_run [OF ok spares_functions(5) [OF files] spares_functions(5) [OF files] order_refl order_refl
          write1_good [OF posix, of Child Parent s1 n1 ?l ?A2 d2 f, unfolded k, OF _ l(1) big A short(2) start]
          write1_good [OF posix, of Parent Child s2 n2 ?l ?A1 d1 f, unfolded k, OF _ l(2) big A' short(1) start]]) auto
  have "only_in tree k es f b (?A1 \<union> ?A2) w1" unfolding only_in_def using run(2) w b by (intro exI [of _ b]) (auto simp: fun_upd_idem)
  then have "only_in tree k es f b (?A1 \<union> ?A2) w2"
    by (rule steps_star [where P = "only_in tree k es f b (?A1 \<union> ?A2)", OF _ _ run(4), rotated 2]) (rule only_in_stable, simp)+
  then obtain b' where b': "tree w2 k = Some (es(f \<mapsto> b'))" "length b' = ?l" "\<forall>i < ?l. i \<notin> ?A1 \<union> ?A2 \<longrightarrow> b' ! i = b ! i"
    unfolding only_in_def by blast
  have "b' = patched b s1 n1 c1 s2 n2 c2"
    using run(5,6) b' by (intro nth_equalityI) (auto simp: patched_def wrote_def)
  then show "\<exists>w'. forked os s (write1_p (calls os Child) d2 f (int s1) n1 c1) (write1_p (calls os Parent) d1 f (int s2) n2 c2) w = Inr w'
      \<and> tree w' k = Some (es(f \<mapsto> patched b s1 n1 c1 s2 n2 c2))"
    using run(1,3) b'(1) by auto
qed

section \<open>Two directories\<close>

lemma two_dirs_run:
  assumes ok: "unix_ok os dk tree fdt kids" and d: "leads dk k1 d1" "leads dk k2 d2" and k: "k1 \<noteq> k2" and n: "n < 100"
    and p: "plain_name p1" "length p1 < 20" "plain_name p2" "length p2 < 20"
    and w: "tree w k1 = Some Map.empty" "tree w k2 = Some Map.empty"
  obtains w' where "forked os s
      (sequel (createn_b (calls os Child) d2 p2 (Suc n)) (unlinkn_p (calls os Child) d2 p2 n))
      (sequel (createn_b (calls os Parent) d1 p1 (Suc n)) (unlinkn_p (calls os Parent) d1 p1 n)) w = Inr w'"
    and "tree w' k1 = Some [numbered p1 n \<mapsto> le_encode 4 (of_nat n :: u32)]"
    and "tree w' k2 = Some [numbered p2 n \<mapsto> le_encode 4 (of_nat n :: u32)]"
proof -
  have dk: "dk d1 = k1" "dk d2 = k2" using d by (simp_all add: leads_def)
  have posix: "posix_ok (calls os p) p dk tree fdt" and files: "leaves (calls os p) kids" for p using ok by (simp_all add: unix_ok_def)
  have rest: "cleared (filled Map.empty pre (Suc n)) pre n = [numbered pre n \<mapsto> le_encode 4 (of_nat n :: u32)]" for pre
    by (auto simp: fun_eq_iff cleared_eq filled_other)
  have gone: "cleared (filled Map.empty pre (Suc n)) pre i (numbered pre i) \<noteq> None" if "i < n" for i pre
    using that filled_at [of i "Suc n" Map.empty pre] by (auto simp: cleared_eq)
  let ?G = "\<lambda>p k. touches tree fdt p ({k} \<times> UNIV)"
  let ?Q = "\<lambda>k pre. sees tree k UNIV [numbered pre n \<mapsto> le_encode 4 (of_nat n :: u32)]"
  have side: "good (?G q k') (?G p k) (?Q k pre)
      (sequel (createn_b (calls os p) d pre (Suc n)) (unlinkn_p (calls os p) d pre n)) w1"
    if "p \<noteq> q" "k \<noteq> k'" "leads dk k d" "plain_name pre" "length pre < 20" "tree w1 k = Some Map.empty" for p q k k' d pre w1
  proof (rule good_sequel)
    have d: "dk d = k" using that(3) by (simp add: leads_def)
    have short: "short d (numbered pre i)" if "i < Suc n" for i
      using leads_numbered [OF \<open>leads dk k d\<close> \<open>plain_name pre\<close> \<open>length pre < 20\<close>] that n by auto
    show "good (?G q k') (?G p k) (sees tree k UNIV (filled Map.empty pre (Suc n))) (createn_b (calls os p) d pre (Suc n)) w1"
      unfolding createn_b_eq
      by (rule createn_good [OF posix, of p q UNIV d, unfolded d]) (use that short in \<open>auto simp: sees_def\<close>)
    show "good (?G q k') (?G p k) (?Q k pre) (unlinkn_p (calls os p) d pre n) w"
      if "sees tree k UNIV (filled Map.empty pre (Suc n)) w" for w
      by (rule unlinkn_good [OF posix, of UNIV d _ n pre _ "filled Map.empty pre (Suc n)", unfolded d rest])
        (use that short gone \<open>k \<noteq> k'\<close> in auto)
  qed
  obtain w1 w2 w' where "forked os s
      (sequel (createn_b (calls os Child) d2 p2 (Suc n)) (unlinkn_p (calls os Child) d2 p2 n))
      (sequel (createn_b (calls os Parent) d1 p1 (Suc n)) (unlinkn_p (calls os Parent) d1 p1 n)) w = Inr w'"
    "tree w' = tree w2" "?Q k2 p2 w2" "?Q k1 p1 w2"
  proof (rule forked_run [OF ok spares_sequel [OF spares_functions(2) [OF files] spares_functions(3) [OF files]]
        spares_sequel [OF spares_functions(2) [OF files] spares_functions(3) [OF files]] order_refl order_refl])
    show "good (?G Parent k1) (?G Child k2) (?Q k2 p2)
        (sequel (createn_b (calls os Child) d2 p2 (Suc n)) (unlinkn_p (calls os Child) d2 p2 n)) w1" if "tree w1 = tree w" for w1
      by (rule side) (use d k p w that in simp_all)
    show "good (?G Child k2) (?G Parent k1) (?Q k1 p1)
        (sequel (createn_b (calls os Parent) d1 p1 (Suc n)) (unlinkn_p (calls os Parent) d1 p1 n)) w1" if "tree w1 = tree w" for w1
      by (rule side) (use d k p w that in simp_all)
  qed
  then show thesis using that by (auto simp: sees_def fun_eq_iff)
qed

end
