(* ===== verification/Fork_Properties.thy ===== *)
theory Fork_Properties
  imports Fork_Steps
begin

text \<open>
  The properties of the test programs that fork: they pass in every schedule of parent and child,
  whatever the order of the system calls.
\<close>

section \<open>The tests\<close>

lemma fork_lits: "lit ''xx'' = [120, 120]" "lit ''yy'' = [121, 121]" "lit ''zz'' = [122, 122]" "lit ''x1'' = [120, 49]"
  "lit ''x2'' = [120, 50]" "lit ''x3'' = [120, 51]" "lit ''x4'' = [120, 52]" "lit ''www'' = [119, 119, 119]"
  "lit ''da'' = [100, 97]" "lit ''db'' = [100, 98]"
  by (simp_all add: lit_def of_char_def)

lemma fork_plain: "plain_name (lit ''xx'')" "plain_name (lit ''yy'')" "plain_name (lit ''zz'')" "plain_name (lit ''x1'')"
  "plain_name (lit ''x2'')" "plain_name (lit ''x3'')" "plain_name (lit ''x4'')" "plain_name (lit ''www'')"
  by (simp_all add: plain_name_def fork_lits)

lemma fork_short: "length (lit ''xx'') < 20" "length (lit ''yy'') < 20" "length (lit ''zz'') < 20" "length (lit ''x1'') < 20"
  "length (lit ''x2'') < 20" "length (lit ''x3'') < 20" "length (lit ''x4'') < 20" "length (lit ''www'') < 20"
  by (simp_all add: fork_lits)

lemma prefixes_apart: "length p = 2 \<Longrightarrow> length q = 2 \<Longrightarrow> p \<noteq> q \<Longrightarrow> numbered p i \<noteq> numbered q j"
  by (simp add: numbered_def)

lemma all_copies:
  "alone (create1_p sys d f inp) = create1 sys d f inp" "alone (checkn_p sys d p n) = checkn sys d p n"
  "alone (unlinkn_p sys d p n) = unlinkn sys d p n" "alone (createn_p sys d p n dup) = createn sys d p n dup"
  "alone (dircheck_p sys d n) = dircheck sys d n" "alone (checkread_p sys d f s n c) = checkread sys d f s n c"
  by (simp_all add: fun_eq_iff copies copies_createn copies_dircheck copies_checkread)

lemma creates_phase:
  assumes ok: "unix_ok os dk tree fdt kids" and d: "leads dk k d1" "leads dk k d2"
  shows "steps tree k Map.empty (for_each (\<lambda>s. s) (concurrent_creates os d1 d2 s)) Map.empty"
proof -
  have sys: "posix_ok (calls os Parent) Parent dk tree fdt" using ok by (simp add: unix_ok_def)
  let ?es = "filled (filled Map.empty (lit ''xx'') 10) (lit ''yy'') 10"
  have apart: "numbered (lit ''xx'') i \<noteq> numbered (lit ''yy'') j" for i j by (rule prefixes_apart) (simp_all add: fork_lits)
  note two = two_prefixes [of "lit ''xx''" "lit ''yy''", OF apart]
  have plain: "plain_name f" if "f \<in> dom ?es" for f
    using two(3) [OF that] leads_plain [OF d(1)] fork_plain(1,2) by (auto simp: fork_lits)
  have card: "card (dom ?es) = 20" using two(2) [of 10] by simp
  have fork: "steps tree k Map.empty (forked os s (createn_p (calls os Child) d2 (lit ''xx'') 10 False)
      (createn_p (calls os Parent) d1 (lit ''yy'') 10 False)) ?es"
    by (rule creates_steps [OF ok d _ fork_plain(1) fork_short(1) fork_plain(2) fork_short(2) apart]) simp
  note run = seq_steps [OF fork] dir_tests [OF sys d(1), THEN seq_steps] dir_tests [OF sys d(2), THEN seq_steps]
  have "steps tree k Map.empty (for_each (\<lambda>s. s) (concurrent_creates os d1 d2 s)) (cleared (cleared ?es (lit ''xx'') 10) (lit ''yy'') 10)"
    unfolding concurrent_creates_def Let_def all_copies
    by (intro run done_steps) (rule refl fork_plain fork_short plain card two | assumption | simp)+
  then show ?thesis unfolding two(8) .
qed

lemma one_prefix:
  fixes pre :: bytes and n :: nat
  defines "es \<equiv> filled Map.empty pre n"
  shows "i < n \<Longrightarrow> es (numbered pre i) = Some (le_encode 4 (of_nat i :: u32))"
    and "i < n \<Longrightarrow> cleared es pre i (numbered pre i) \<noteq> None" and "cleared es pre n = Map.empty"
  unfolding es_def by (auto simp: filled_at cleared_eq filled_other fun_eq_iff)

lemma same_file_phase:
  assumes ok: "unix_ok os dk tree fdt kids" and d: "leads dk k d1" "leads dk k d2"
  shows "steps tree k Map.empty (for_each (\<lambda>s. s) (same_file os d1 d2 s)) Map.empty"
    and "steps tree k Map.empty (for_each (\<lambda>s. s) (same_server os d1 s)) Map.empty"
proof -
  have sys: "posix_ok (calls os Parent) Parent dk tree fdt" using ok by (simp add: unix_ok_def)
  note one = one_prefix [where pre = "lit ''zz''" and n = 10]
  have fork: "steps tree k Map.empty (forked os s (createn_p (calls os Child) d' (lit ''zz'') 10 True)
      (sequel (createn_p (calls os Parent) d1 (lit ''zz'') 10 True) (dircheck_p (calls os Parent) d1 10))) (filled Map.empty (lit ''zz'') 10)"
    if "leads dk k d'" for d'
    by (rule same_files_steps [OF ok d(1) that _ fork_plain(3) fork_short(3)]) simp
  note run = seq_steps [OF fork] dir_tests [OF sys d(1), THEN seq_steps] dir_tests [OF sys d(2), THEN seq_steps]
  show "steps tree k Map.empty (for_each (\<lambda>s. s) (same_file os d1 d2 s)) Map.empty"
    unfolding same_file_def Let_def all_copies
    by (intro run done_steps) (rule refl fork_plain fork_short one d | assumption | simp)+
  show "steps tree k Map.empty (for_each (\<lambda>s. s) (same_server os d1 s)) Map.empty"
    unfolding same_server_def Let_def all_copies
    by (intro run done_steps) (rule refl fork_plain fork_short one d | assumption | simp)+
qed

lemma create_delete_phase:
  assumes ok: "unix_ok os dk tree fdt kids" and d: "leads dk k d1" "leads dk k d2"
  shows "steps tree k Map.empty (for_each (\<lambda>s. s) (create_delete os d1 d2 s)) Map.empty"
proof -
  have sys: "posix_ok (calls os Parent) Parent dk tree fdt" using ok by (simp add: unix_ok_def)
  have apart: "numbered (lit ''x1'') i \<noteq> numbered (lit ''x2'') j" "numbered (lit ''x1'') i \<noteq> numbered (lit ''x3'') j"
    "numbered (lit ''x1'') i \<noteq> numbered (lit ''x4'') j" "numbered (lit ''x2'') i \<noteq> numbered (lit ''x3'') j"
    "numbered (lit ''x2'') i \<noteq> numbered (lit ''x4'') j" "numbered (lit ''x3'') i \<noteq> numbered (lit ''x4'') j" for i j
    by (rule prefixes_apart; simp add: fork_lits)+
  note apart' = apart apart [symmetric]
  let ?e2 = "filled (filled Map.empty (lit ''x1'') 5) (lit ''x2'') 5"
  let ?e3 = "filled (filled (cleared ?e2 (lit ''x1'') 5) (lit ''x3'') 5) (lit ''x4'') 5"
  let ?e4 = "cleared ?e3 (lit ''x2'') 5" let ?e5 = "cleared ?e4 (lit ''x4'') 5" let ?e6 = "cleared ?e5 (lit ''x3'') 5"
  have one: "?e2 (numbered (lit ''x1'') i) \<noteq> None" if "i < 5" for i
    using two_prefixes(4) [of "lit ''x1''" "lit ''x2''" i 5, OF apart(1) that] by simp
  have two: "?e2 (numbered (lit ''x2'') i) \<noteq> None" if "i < 5" for i
    using two_prefixes(5) [of "lit ''x1''" "lit ''x2''" i 5, OF apart(1) that] by simp
  have at2: "?e3 (numbered (lit ''x2'') i) \<noteq> None" if "i < 5" for i
  proof -
    have "?e3 (numbered (lit ''x2'') i) = ?e2 (numbered (lit ''x2'') i)"
      using apart' by (subst filled_other, force, subst filled_other, force) (auto simp: cleared_eq)
    then show ?thesis using two [OF that] by simp
  qed
  have at4: "?e3 (numbered (lit ''x4'') i) \<noteq> None" if "i < 5" for i using filled_at [OF that] by simp
  have at3: "?e3 (numbered (lit ''x3'') i) \<noteq> None" if "i < 5" for i
    using filled_at [OF that] apart' by (subst filled_other) auto
  have gone: "cleared ?e3 (lit ''x2'') i (numbered (lit ''x2'') i) \<noteq> None" "cleared ?e4 (lit ''x4'') i (numbered (lit ''x4'') i) \<noteq> None"
    "cleared ?e5 (lit ''x3'') i (numbered (lit ''x3'') i) \<noteq> None" if "i < 5" for i
    using at2 [OF that] at3 [OF that] at4 [OF that] apart' by (auto simp: cleared_eq)
  have last: "?e6 = Map.empty"
  proof
    fix f
    show "?e6 f = Map.empty f"
    proof (cases "f \<in> numbered (lit ''x2'') ` {..<5} \<union> numbered (lit ''x3'') ` {..<5} \<union> numbered (lit ''x4'') ` {..<5}")
      case True
      then show ?thesis by (auto simp: cleared_eq)
    next
      case False
      then have "?e6 f = cleared ?e2 (lit ''x1'') 5 f" by (auto simp: cleared_eq filled_other)
      then show ?thesis using False by (auto simp: cleared_eq filled_other)
    qed
  qed
  have fork: "steps tree k ?e2 (forked os s
      (sequel (unlinkn_p (calls os Child) d2 (lit ''x1'') 5) (createn_p (calls os Child) d1 (lit ''x3'') 5 False))
      (createn_p (calls os Parent) d1 (lit ''x4'') 5 False)) ?e3"
    by (rule create_delete_steps [OF ok d _ fork_plain(4) fork_short(4) fork_plain(6) fork_short(6) fork_plain(7) fork_short(7)
          apart(2,3,6), where es = ?e2 and n = 5, OF _ one]) simp_all
  have plain: "plain_name f" if "f \<in> dom ?e6" for f using that unfolding last by simp
  have empty: "card (dom ?e6) = 0" unfolding last by simp
  note run = seq_steps [OF fork] dir_tests [OF sys d(1), THEN seq_steps] dir_tests [OF sys d(2), THEN seq_steps]
  have "steps tree k Map.empty (for_each (\<lambda>s. s) (create_delete os d1 d2 s)) ?e6"
    unfolding create_delete_def Let_def all_copies
    by (intro run done_steps) (rule refl fork_plain fork_short empty plain gone | assumption | simp)+
  then show ?thesis unfolding last .
qed

definition www_contents :: bytes where
  "www_contents = patched huge 10000 64 50 0 64 49"

lemma parts_phase:
  assumes ok: "unix_ok os dk tree fdt kids" and d: "leads dk k d1" "leads dk k d2"
  shows "steps tree k Map.empty (for_each (\<lambda>s. s) (parts_of_file os d1 d2 s)) [lit ''www'' \<mapsto> www_contents]"
proof -
  have sys: "posix_ok (calls os Parent) Parent dk tree fdt" using ok by (simp add: unix_ok_def)
  let ?f = "lit ''www''" and ?es = "[lit ''www'' \<mapsto> www_contents]"
  have short: "short d1 ?f" "short d2 ?f" using leads_short [OF d(1) fork_plain(8) fork_short(8)] leads_short [OF d(2) fork_plain(8) fork_short(8)] .
  have k: "dk d1 = k" "dk d2 = k" using d by (simp_all add: leads_def)
  have create: "steps tree k Map.empty (create1 (calls os Parent) d1 ?f huge) [?f \<mapsto> huge]"
    using create1_steps [OF sys short(1), of huge Map.empty] k by (simp add: huge_def file_limit_def)
  have fork: "steps tree k [?f \<mapsto> huge] (forked os s (write1_p (calls os Child) d2 ?f 10000 64 50) (write1_p (calls os Parent) d1 ?f 0 64 49)) ?es"
    using parts_steps [OF ok d fork_plain(8) fork_short(8), of "[?f \<mapsto> huge]" huge 10000 64 0 64 s 50 49]
    by (simp add: www_contents_def huge_def file_limit_def)
  have check: "steps tree k ?es (checkread (calls os Parent) d ?f (int start) 64 c) ?es"
    if "leads dk k d" "start \<le> file_limit" "\<forall>i < 64. start + i < length www_contents \<and> www_contents ! (start + i) = c" for d start c
  proof -
    have s: "short d ?f" by (rule leads_short [OF that(1) fork_plain(8) fork_short(8)])
    show ?thesis using checkread_steps [OF sys s, of ?es www_contents start 64 c] that by (simp add: leads_def)
  qed
  have lim: "0 \<le> file_limit" "10000 \<le> file_limit" by (simp_all add: file_limit_def)
  have ones: "\<forall>i < 64. 0 + i < length www_contents \<and> www_contents ! (0 + i) = 49"
    and twos: "\<forall>i < 64. 10000 + i < length www_contents \<and> www_contents ! (10000 + i) = 50"
    by (simp_all add: www_contents_def patched_def huge_def)
  show ?thesis
    unfolding parts_of_file_def Let_def all_copies
    by (rule seq_steps [OF create seq_steps [OF fork seq_steps [OF check [OF d(1) lim(1) ones, simplified] seq_steps [OF check [OF d(2) lim(1) ones, simplified]
          seq_steps [OF check [OF d(1) lim(2) twos, simplified] seq_steps [OF check [OF d(2) lim(2) twos, simplified] no_steps]]]]]])
qed

lemma concurrent_run:
  assumes "unix_ok os dk tree fdt kids" and "leads dk k d1" "leads dk k d2"
  shows "steps tree k Map.empty (for_each (\<lambda>s. s) (concurrent_tests os s d1 d2)) [lit ''www'' \<mapsto> www_contents]"
  unfolding concurrent_tests_def
  by (intro steps_append [OF creates_phase [OF assms]] steps_append [OF same_file_phase(1) [OF assms]]
      steps_append [OF create_delete_phase [OF assms]] steps_append [OF same_file_phase(2) [OF assms]] parts_phase [OF assms])

section \<open>The programs pass\<close>

lemma lab3a_run:
  assumes "unix_ok os dk tree fdt kids" and "leads dk k d1" "leads dk k d2"
  shows "steps tree k Map.empty (for_each (\<lambda>s. s) (part1g_tests (calls os Parent) d1 d2 @ concurrent_tests os s d1 d2))
    [lit ''www'' \<mapsto> www_contents]"
proof -
  have "posix_ok (calls os Parent) Parent dk tree fdt" using assms(1) by (simp add: unix_ok_def)
  from steps_append [OF part1g_run [OF this assms(2,3)] concurrent_run [OF assms]] show ?thesis .
qed


text \<open>The operating system in memory, with a fork that forgets the descriptors; a wait for a process that is not a child
  fails.\<close>

definition memory_unix :: "memory unix" where
  "memory_unix = \<lparr>calls = memory_calls,
     sys_fork = (\<lambda>w. let pid = fold max (m_kids w) 0 + 1 in (pid, w\<lparr>m_fds := (\<lambda>_ _. None), m_kids := pid # m_kids w\<rparr>)),
     sys_waitpid = (\<lambda>w pid ended. if pid \<in> set (m_kids w) then (pid, ended, w\<lparr>m_kids := removeAll pid (m_kids w)\<rparr>)
       else (- 1, None, w))\<rparr>"

lemma fold_max_start: "(k :: int) \<le> fold max ks k"
  by (induction ks arbitrary: k) (simp_all, meson max.bounded_iff)

lemma fold_max: "x \<in> set ks \<Longrightarrow> (x :: int) \<le> fold max ks k"
proof (induction ks arbitrary: k)
  case (Cons y ks)
  have "y \<le> fold max ks (max y k)" by (rule order_trans [OF max.cobounded1 fold_max_start])
  then show ?case using Cons by auto
qed simp

definition no_files :: memory where
  "no_files = \<lparr>m_files = \<lambda>_. [], m_fds = \<lambda>_ _. None, m_next = 3, m_kids = []\<rparr>"

lemma memory_leaves: "leaves (memory_calls p) (\<lambda>w. set (m_kids w))"
  by (auto simp: leaves_def memory_calls_def m_new_fd_def m_put_def m_set_fd_def Let_def split: option.split)

lemma memory_unix_ok: "unix_ok memory_unix after_slash m_tree m_open (\<lambda>w. set (m_kids w))"
proof -
  have "m_tree (w\<lparr>m_fds := x, m_kids := ks\<rparr>) = m_tree w" "m_open (w\<lparr>m_fds := \<lambda>_ _. None, m_kids := ks\<rparr>) = Map.empty"
    "m_tree (w\<lparr>m_kids := ks\<rparr>) = m_tree w" for w x ks
    by (simp_all add: m_tree_def m_open_def fun_eq_iff)
  moreover have "0 < fold max ks 0 + 1" "fold max ks 0 + 1 \<notin> set ks" for ks :: "int list"
    using fold_max_start [of 0 ks] fold_max [of _ ks 0] by (simp, fastforce)
  ultimately show ?thesis
    using memory_ok memory_leaves by (auto simp: unix_ok_def memory_unix_def Let_def)
qed

lemma memory_start: "sys_mkdir (calls memory_unix p) no_files d = (0, no_files)"
  "sys_access (calls memory_unix p) no_files d = (0, no_files)" "m_tree no_files k = Some Map.empty"
  by (simp_all add: memory_unix_def memory_calls_def m_tree_def no_files_def)

lemma plain_dec: "plain_name (c # p @ dec 7)" if "c \<notin> {0, 46, 47}" "0 \<notin> set p" "47 \<notin> set p" "length p < 100"
  using that dec_digits [of 47 7] dec_digits [of 0 7] length_dec [of 7 1] by (auto simp: plain_name_def is_digit_def word_le_nat_alt)

lemma short_dec: "length (dec 7) \<le> 1"
  using length_dec [of 7 1] by simp




end
