(* ===== verification/Daemon.thy ===== *)
theory Daemon
  imports Fuse_Dispatch
begin

text \<open>
  \<^verbatim>\<open>main\<close> of \<^verbatim>\<open>fuse.cc\<close>. What the FUSE library does is a record of its outcomes: whether it
  understands the command line, mounts, makes a session and a channel, which requests
  the session loop hands to the handlers, one after the other, and the error it ends with.
\<close>

record fuse_session =
  parse_ok :: bool
  mount_ok :: bool
  session_ok :: bool
  channel_ok :: bool
  requests :: "request list"
  loop_err :: int

text \<open>How the daemon ends: its exit code, whether the file system is still mounted, what it replied, its client.\<close>

record 'w daemon_end =
  exit_code :: int
  left_mounted :: bool
  replies :: "reply list"
  client_state :: "'w option"

definition fuse_main ::
  "fuse_lib \<Rightarrow> 'w client_ops \<Rightarrow> attr \<Rightarrow> inum \<Rightarrow> int \<Rightarrow> fuse_session \<Rightarrow> 'w \<Rightarrow> 'w daemon_end res" where
  "fuse_main lib ops a0 i0 argc se w =
     (if argc \<noteq> 4 then Inr \<lparr>exit_code = 1, left_mounted = False, replies = [], client_state = None\<rparr>
      else (let w1 = yfs_client_ctor ops w;
                stop = (\<lambda>code mounted. Inr \<lparr>exit_code = code, left_mounted = mounted, replies = [], client_state = Some w1\<rparr>)
            in if \<not> parse_ok se then stop 0 False
               else if \<not> mount_ok se then stop 1 False
               else if \<not> session_ok se then stop 1 True
               else if \<not> channel_ok se then stop 1 True
               else bind_res (serve_all lib ops a0 i0 w1 (requests se)) (\<lambda>(rs, w2).
                      Inr \<lparr>exit_code = (if loop_err se \<noteq> 0 then 1 else 0), left_mounted = False, replies = rs,
                        client_state = Some w2\<rparr>)))"

end
