(* ===== verification/Daemon_Properties.thy ===== *)
theory Daemon_Properties
  imports Daemon Fuse_Properties
begin

text \<open>
  The properties of the daemon from its start to its end: what the constructor of its client
  makes of the files, and what it then serves.
\<close>

section \<open>The start\<close>

text \<open>The constructor writes the root without having it in the cache, so the type of the root comes from
  uninitialised memory until the entry is flushed. Either it happens to be that of
  a directory, or the lock server wants the root's lock back at the end of the constructor, which flushes the entry.\<close>

lemma client_started:
  assumes inv: "server_inv s" and v: "server_view s 1 = Some (T_DIR, d)" and w0: "w0 = \<lparr>w_tbl = Map.empty, w_srv = s, w_ticks = n\<rparr>"
  obtains x s1 where "yfs_client_ctor (mount time_at lost bare junk revoked) w0 =
      (if revoked (n + 2) 1 then \<lparr>w_tbl = Map.empty, w_srv = s1, w_ticks = n + 2\<rparr>
       else \<lparr>w_tbl = [1 \<mapsto> x], w_srv = s, w_ticks = n + 2\<rparr>)"
    and "x_data x = []" "x_state x = MODIFIED" "a_type (x_attr x) = a_type (junk n)" "a_size (x_attr x) = 0"
    and "server_inv s1" "server_view s1 = (server_view s)(1 \<mapsto> (T_DIR, []))"
proof -
  let ?rpc = "direct_rpc time_at lost bare" and ?clk = "\<lambda>k. time_at (n + k)"
  obtain x where put: "cc_put (junk n) ?clk Map.empty 1 [] = (0, [1 \<mapsto> x])"
    and x: "x_data x = []" "x_state x = MODIFIED" "a_type (x_attr x) = a_type (junk n)" "a_size (x_attr x) = 0"
    by (simp add: cc_put_def entry_def extent_ctor_def)
  obtain s1 where s1: "rpc_put ?rpc s 1 [] = (0, s1)" "server_inv s1" "server_view s1 = (server_view s)(1 \<mapsto> (T_DIR, []))"
    using direct_roomy.room_put [OF inv v direct_roomy.room_empty [OF inv]] v by blast
  have flush: "cc_flush ?rpc [1 \<mapsto> x] s 1 = (0, Map.empty, s1)" by (simp add: cc_flush_def s1(1) x)
  have "yfs_client_ctor (mount time_at lost bare junk revoked) w0 =
      (if revoked (n + 2) 1 then \<lparr>w_tbl = Map.empty, w_srv = s1, w_ticks = n + 2\<rparr>
       else \<lparr>w_tbl = [1 \<mapsto> x], w_srv = s, w_ticks = n + 2\<rparr>)"
    by (simp add: yfs_client_ctor_def mount_def cached_ops_simps dorelease_def w0 put flush)
  then show thesis using that x s1(2,3) by blast
qed

lemma client_starts:
  assumes inv: "server_inv s" and v: "server_view s 1 = Some (T_DIR, d)" and w0: "w0 = \<lparr>w_tbl = Map.empty, w_srv = s, w_ticks = n\<rparr>"
    and typed: "revoked (n + 2) 1 \<or> a_type (junk n) = T_DIR"
  shows "fs_inv (yfs_client_ctor (mount time_at lost bare junk revoked) w0)"
    and "files (yfs_client_ctor (mount time_at lost bare junk revoked) w0) = (server_view s)(1 \<mapsto> (T_DIR, []))"
proof -
  let ?w1 = "yfs_client_ctor (mount time_at lost bare junk revoked) w0"
  obtain x s1 where w1: "?w1 = (if revoked (n + 2) 1 then \<lparr>w_tbl = Map.empty, w_srv = s1, w_ticks = n + 2\<rparr>
      else \<lparr>w_tbl = [1 \<mapsto> x], w_srv = s, w_ticks = n + 2\<rparr>)"
    and x: "x_data x = []" "x_state x = MODIFIED" "a_type (x_attr x) = a_type (junk n)" "a_size (x_attr x) = 0"
    and s1: "server_inv s1" "server_view s1 = (server_view s)(1 \<mapsto> (T_DIR, []))" by (rule client_started [OF inv v w0])
  show "fs_inv ?w1"
    using inv v typed s1(1) x empty_cache_ok by (auto simp: w1 world_inv_def cache_ok_def entry_ok_def)
  show "files ?w1 = (server_view s)(1 \<mapsto> (T_DIR, []))"
    using v s1(2) x by (auto simp: w1 world_view_def cview_def fun_eq_iff)
qed

lemma root_not_a_directory:
  assumes inv: "server_inv s" and v: "server_view s 1 = Some (T_DIR, d)" and w0: "w0 = \<lparr>w_tbl = Map.empty, w_srv = s, w_ticks = n\<rparr>"
    and junk: "\<not> revoked (n + 2) 1" "a_type (junk n) \<noteq> T_DIR"
  shows "\<exists>w. isdir (mount time_at lost bare junk revoked) a0 (yfs_client_ctor (mount time_at lost bare junk revoked) w0) 1 = (False, w)"
proof -
  let ?w1 = "yfs_client_ctor (mount time_at lost bare junk revoked) w0"
  obtain x s1 where "?w1 = (if revoked (n + 2) 1 then \<lparr>w_tbl = Map.empty, w_srv = s1, w_ticks = n + 2\<rparr>
      else \<lparr>w_tbl = [1 \<mapsto> x], w_srv = s, w_ticks = n + 2\<rparr>)"
    "x_state x = MODIFIED" "a_type (x_attr x) = a_type (junk n)" by (rule client_started [OF inv v w0])
  then show ?thesis
    using junk by (simp add: isdir_def has_type_def mount_def cached_ops_simps cc_getattr_def)
qed

lemma empty_directory: "[] = dir_text es \<longleftrightarrow> es = []"
  by (cases es) (auto simp: dir_record_def)

inductive_cases fs_spec_readdirE: "fs_spec lib m (Req_Readdir p sz off) r m'"

section \<open>From the command line to the end\<close>

text \<open>C3: What the daemon serves. It is started with three arguments on a server that has a root directory, and
  the library mounts it. If the entry that the client's constructor makes for the root is flushed, because the root's lock is
  revoked, or its uninitialised type happens to be that of a directory, then the daemon has
  emptied the root, whatever names another daemon has put there, and left the files on the server; and when all
  requests are ready, it answers them as the specification says, from that map of files on, unmounts,
  and its exit code says whether the session ended in error. If the entry is not flushed and its type is another one, as
  can be when a daemon starts alone, listing the root fails with \<open>ENOTDIR\<close>. With another number of
  arguments it touches nothing.\<close>

theorem daemon_serves:
  assumes "server_inv s" and "server_view s 1 = Some (T_DIR, d)"
    and "w0 = \<lparr>w_tbl = Map.empty, w_srv = s, w_ticks = n\<rparr>" and "ops = mount time_at lost bare junk revoked"
    and "parse_ok se" "mount_ok se" "session_ok se" "channel_ok se"
  shows "(revoked (n + 2) 1 \<or> a_type (junk n) = T_DIR \<longrightarrow>
      ready_run files fs_room lib ops a0 i0 (yfs_client_ctor ops w0) (requests se) \<longrightarrow>
      (\<exists>rs w. fuse_main lib ops a0 i0 4 se w0 = Inr \<lparr>exit_code = (if loop_err se = 0 then 0 else 1), left_mounted = False,
          replies = rs, client_state = Some w\<rparr>
        \<and> spec_run lib ((server_view s)(1 \<mapsto> (T_DIR, []))) (requests se) rs (files w) \<and> fs_inv w))
    \<and> (\<not> revoked (n + 2) 1 \<and> a_type (junk n) \<noteq> T_DIR \<longrightarrow> requests se = [Req_Readdir 1 sz off] \<longrightarrow>
      (\<exists>w. fuse_main lib ops a0 i0 4 se w0 = Inr \<lparr>exit_code = (if loop_err se = 0 then 0 else 1), left_mounted = False,
          replies = [Reply_Err ENOTDIR], client_state = Some w\<rparr>))
    \<and> (\<forall>argc. argc \<noteq> 4 \<longrightarrow> fuse_main lib ops a0 i0 argc se w0 =
        Inr \<lparr>exit_code = 1, left_mounted = False, replies = [], client_state = None\<rparr>)"
proof (intro conjI impI)
  let ?w1 = "yfs_client_ctor ops w0"
  show "\<exists>rs w. fuse_main lib ops a0 i0 4 se w0 = Inr \<lparr>exit_code = (if loop_err se = 0 then 0 else 1), left_mounted = False,
          replies = rs, client_state = Some w\<rparr>
        \<and> spec_run lib ((server_view s)(1 \<mapsto> (T_DIR, []))) (requests se) rs (files w) \<and> fs_inv w"
    if typed: "revoked (n + 2) 1 \<or> a_type (junk n) = T_DIR" and ready: "ready_run files fs_room lib ops a0 i0 ?w1 (requests se)"
  proof -
    have w1: "fs_inv ?w1" "files ?w1 = (server_view s)(1 \<mapsto> (T_DIR, []))"
      using client_starts [where revoked = revoked and junk = junk, OF assms(1,2,3) typed] unfolding assms(4) by blast+
    obtain rs w where "serve_all lib ops a0 i0 ?w1 (requests se) = Inr (rs, w)"
      "spec_run lib (files ?w1) (requests se) rs (files w)" "fs_inv w"
      using mounted.run_implements [OF w1(1)] ready unfolding assms(4) by blast
    then show ?thesis using assms(5-8) w1(2) by (simp add: fuse_main_def Let_def)
  qed
  show "\<exists>w. fuse_main lib ops a0 i0 4 se w0 = Inr \<lparr>exit_code = (if loop_err se = 0 then 0 else 1), left_mounted = False,
          replies = [Reply_Err ENOTDIR], client_state = Some w\<rparr>"
    if junk: "\<not> revoked (n + 2) 1 \<and> a_type (junk n) \<noteq> T_DIR" and q: "requests se = [Req_Readdir 1 sz off]"
  proof -
    obtain w where "isdir ops a0 ?w1 1 = (False, w)"
      using root_not_a_directory [where revoked = revoked and junk = junk, OF assms(1,2,3)] junk unfolding assms(4) by blast
    then show ?thesis using assms(5-8) q by (simp add: fuse_main_def Let_def fuseserver_readdir_def)
  qed
  show "\<forall>argc. argc \<noteq> 4 \<longrightarrow> fuse_main lib ops a0 i0 argc se w0 =
        Inr \<lparr>exit_code = 1, left_mounted = False, replies = [], client_state = None\<rparr>"
    by (simp add: fuse_main_def)
qed

text \<open>A daemon starts on a server whose root has an entry and lists the root: it is empty when the root's lock is revoked,
  and not a directory when it is not and the memory of the new entry was zero.\<close>

theorem daemon_serves_witness:
  "\<exists>s w. server_view s 1 = Some (T_DIR, dir_text [([97], 1)])
    \<and> fuse_main example_lib example_mount zero_attr 0 4 \<lparr>parse_ok = True, mount_ok = True, session_ok = True, channel_ok = True,
          requests = [Req_Readdir 1 100 0], loop_err = 0\<rparr> \<lparr>w_tbl = Map.empty, w_srv = s, w_ticks = 0\<rparr>
      = Inr \<lparr>exit_code = 0, left_mounted = False, replies = [Reply_Buf []], client_state = Some w\<rparr>
    \<and> files w 1 = Some (T_DIR, [])
    \<and> (\<exists>w'. fuse_main example_lib (mount example_clock 0 example_bare (\<lambda>_. zero_attr) (\<lambda>_ _. False)) zero_attr 0 4
        \<lparr>parse_ok = True, mount_ok = True, session_ok = True, channel_ok = True, requests = [Req_Readdir 1 100 0], loop_err = 0\<rparr>
        \<lparr>w_tbl = Map.empty, w_srv = s, w_ticks = 0\<rparr>
      = Inr \<lparr>exit_code = 0, left_mounted = False, replies = [Reply_Err ENOTDIR], client_state = Some w'\<rparr>)"
proof -
  let ?d = "dir_text [([97], 1)]"
  have "length ?d \<le> 512" using length_filename [of 1] by (simp add: dir_record_def)
  then obtain s where s: "server_inv s" "server_view s = (server_view example_server)(1 \<mapsto> (T_DIR, ?d))"
    using direct_roomy.room_put [OF example_server(1,2) example_room [of ?d], of example_clock 0] by (auto simp del: dir_text_simps)
  let ?se = "\<lparr>parse_ok = True, mount_ok = True, session_ok = True, channel_ok = True, requests = [Req_Readdir 1 100 0], loop_err = 0\<rparr>"
    and ?w0 = "\<lparr>w_tbl = Map.empty, w_srv = s, w_ticks = 0\<rparr> :: server world"
  let ?w1 = "yfs_client_ctor example_mount ?w0"
  have v: "server_view s 1 = Some (T_DIR, ?d)" by (simp add: s(2) del: dir_text_simps)
  have w1: "fs_inv ?w1" "files ?w1 1 = Some (T_DIR, [])"
    using client_starts [OF s(1) v refl, of "\<lambda>_ _. True" 0 "\<lambda>_. zero_attr" example_clock 0 example_bare]
    by (simp_all add: example_mount_def)
  have "dir_at files fs_room ?w1 1 []"
    using w1 mounted.empty_law [OF w1(1), of 1] by (simp add: dir_at_def named_def)
  then have ready: "ready_run files fs_room example_lib example_mount zero_attr 0 ?w1 (requests ?se)"
    using example_lib_ok by (auto simp: intro!: exI [of _ "[]"])
  have ok: "parse_ok ?se" "mount_ok ?se" "session_ok ?se" "channel_ok ?se" by simp_all
  have "\<exists>rs w. fuse_main example_lib example_mount zero_attr 0 4 ?se ?w0 = Inr \<lparr>exit_code = (if loop_err ?se = 0 then 0 else 1),
        left_mounted = False, replies = rs, client_state = Some w\<rparr>
      \<and> spec_run example_lib ((server_view s)(1 \<mapsto> (T_DIR, []))) (requests ?se) rs (files w) \<and> fs_inv w"
    by (rule daemon_serves [OF s(1) v refl example_mount_def ok, THEN conjunct1, rule_format, OF _ ready]) simp
  then obtain rs w where r: "fuse_main example_lib example_mount zero_attr 0 4 ?se ?w0 = Inr \<lparr>exit_code = 0,
      left_mounted = False, replies = rs, client_state = Some w\<rparr>"
    "spec_run example_lib ((server_view s)(1 \<mapsto> (T_DIR, []))) (requests ?se) rs (files w)" by auto
  have bad: "\<exists>w'. fuse_main example_lib (mount example_clock 0 example_bare (\<lambda>_. zero_attr) (\<lambda>_ _. False)) zero_attr 0 4 ?se ?w0
      = Inr \<lparr>exit_code = (if loop_err ?se = 0 then 0 else 1), left_mounted = False, replies = [Reply_Err ENOTDIR], client_state = Some w'\<rparr>"
    by (rule daemon_serves [OF s(1) v refl refl ok, THEN conjunct2, THEN conjunct1, rule_format]) (simp_all add: zero_attr_def)
  from r(2) obtain x where "rs = [x]" "fs_spec example_lib ((server_view s)(1 \<mapsto> (T_DIR, []))) (Req_Readdir 1 100 0) x (files w)"
    by auto
  then have "rs = [Reply_Buf []]" "files w 1 = Some (T_DIR, [])"
    by (auto simp: empty_directory elim!: fs_spec_readdirE)
  then show ?thesis using r(1) v bad by auto
qed

end
