(* ===== verification/Rpc_Wiring.thy ===== *)
theory Rpc_Wiring
  imports Store_Properties Lock_Server
begin

text \<open>
  The server programs: the procedure numbers, the types of the handlers that each \<^verbatim>\<open>main\<close>
  registers, the state its constructors build, and the two demo programs. How the RPC library
  finds and runs a handler is not part of the repository.
\<close>

section \<open>Procedures\<close>

datatype ext_proc = Ext_put | Ext_get | Ext_getattr | Ext_remove | Ext_create

fun ext_number :: "ext_proc \<Rightarrow> nat" where
  "ext_number Ext_put = 0x6001"
| "ext_number Ext_get = 0x6002"
| "ext_number Ext_getattr = 0x6003"
| "ext_number Ext_remove = 0x6004"
| "ext_number Ext_create = 0x6005"

datatype lock_proc = Lock_acquire | Lock_release | Lock_stat

fun lock_number :: "lock_proc \<Rightarrow> nat" where
  "lock_number Lock_acquire = 0x7001"
| "lock_number Lock_release = 0x7002"
| "lock_number Lock_stat = 0x7003"

datatype rlock_proc = Rlock_revoke | Rlock_retry

fun rlock_number :: "rlock_proc \<Rightarrow> nat" where
  "rlock_number Rlock_revoke = 0x8001"
| "rlock_number Rlock_retry = 0x8002"

datatype demo_proc = Demo_stat | Demo_rpcA | Demo_rpcB

fun demo_number :: "demo_proc \<Rightarrow> nat" where
  "demo_number Demo_stat = 0x7001"
| "demo_number Demo_rpcA = 0x7002"
| "demo_number Demo_rpcB = 0x7003"

text \<open>
  What a value is on the wire: 32 bits (\<^verbatim>\<open>int\<close>, \<^verbatim>\<open>unsigned int\<close>), 64 bits (extent and lock
  ids), a string, or the attributes of an extent. A handler has the types of its
  arguments and the type of the reply, in C++ the last parameter, passed by reference.
\<close>

datatype wire = W32 | W64 | WString | WAttr

type_synonym signature = "wire list \<times> wire"
type_synonym registry = "(nat \<times> signature) list"

section \<open>Handlers\<close>

fun extent_server_handler :: "ext_proc \<Rightarrow> signature" where
  "extent_server_handler Ext_create = ([W32], W64)"
| "extent_server_handler Ext_put = ([W64, WString], W32)"
| "extent_server_handler Ext_get = ([W64], WString)"
| "extent_server_handler Ext_getattr = ([W64], WAttr)"
| "extent_server_handler Ext_remove = ([W64], W32)"

fun lock_server_cache_handler :: "lock_proc \<Rightarrow> signature" where
  "lock_server_cache_handler Lock_stat = ([W64], W32)"
| "lock_server_cache_handler Lock_acquire = ([W64, WString], W32)"
| "lock_server_cache_handler Lock_release = ([W64, WString], W32)"

fun lock_server_handler :: "lock_proc \<Rightarrow> signature" where
  "lock_server_handler Lock_stat = ([W32, W64], W32)"
| "lock_server_handler Lock_acquire = ([W32, W64], W32)"
| "lock_server_handler Lock_release = ([W32, W64], W32)"

fun lock_client_cache_handler :: "rlock_proc \<Rightarrow> signature" where
  "lock_client_cache_handler Rlock_revoke = ([W64], W32)"
| "lock_client_cache_handler Rlock_retry = ([W64], W32)"

definition demo_server_handler :: signature where
  "demo_server_handler = ([W32, W64], W32)"

text \<open>The handler of the demo server: the status and the reply.\<close>

definition demo_stat :: "u32 \<Rightarrow> u64 \<Rightarrow> int \<times> int" where
  "demo_stat clt var = (0, 0)"

section \<open>The programs\<close>

text \<open>
  What a server serves once it reaches its endless sleep: the handlers, in the order of their
  registration, and the state that its constructors build.
\<close>

definition extent_smain :: "int \<Rightarrow> superblock \<Rightarrow> blockid list \<Rightarrow> clock \<Rightarrow> (registry \<times> inode_manager) res" where
  "extent_smain argc raw junk clk =
     (if argc \<noteq> 2 then Inl Exit
      else bind_res (extent_server_ctor raw junk clk) (\<lambda>im.
        Inr (map (\<lambda>p. (ext_number p, extent_server_handler p))
               [Ext_get, Ext_getattr, Ext_put, Ext_remove, Ext_create], im)))"

definition lock_smain :: "int \<Rightarrow> int \<Rightarrow> (registry \<times> lock_server_cache) res" where
  "lock_smain argc junk =
     (if argc \<noteq> 2 then Inl Exit
      else Inr (map (\<lambda>p. (lock_number p, lock_server_cache_handler p)) [Lock_stat, Lock_release, Lock_acquire],
        lsc_ctor junk))"

definition demo_server_main :: "int \<Rightarrow> registry res" where
  "demo_server_main argc =
     (if argc \<noteq> 2 then Inl Exit else Inr [(demo_number Demo_stat, demo_server_handler)])"

text \<open>The server inside every caching lock client.\<close>

definition lock_client_cache_reg :: registry where
  "lock_client_cache_reg = map (\<lambda>p. (rlock_number p, lock_client_cache_handler p)) [Rlock_revoke, Rlock_retry]"

section \<open>The demo programs\<close>

text \<open>Both abort unless the call succeeds, and print its reply; \<open>junk\<close> is the uninitialised reply.\<close>

definition demo_client_stat :: "('s \<Rightarrow> u64 \<Rightarrow> int \<times> int option \<times> 's) \<Rightarrow> int \<Rightarrow> 's \<Rightarrow> u64 \<Rightarrow> (int \<times> 's) res" where
  "demo_client_stat call junk s var = verified_call junk (call s var)"

definition demo_client_main :: "int \<Rightarrow> ('s \<Rightarrow> u64 \<Rightarrow> int \<times> int option \<times> 's) \<Rightarrow> int \<Rightarrow> 's \<Rightarrow> (int \<times> 's) res" where
  "demo_client_main argc call junk s = (if argc \<noteq> 2 then Inl Exit else demo_client_stat call junk s 1)"

definition lock_demo_main :: "int \<Rightarrow> 's lock_rpc \<Rightarrow> int \<Rightarrow> 's \<Rightarrow> (int \<times> 's) res" where
  "lock_demo_main argc rpc junk s = (if argc \<noteq> 2 then Inl Exit else lc_stat rpc junk s 1)"

text \<open>When the library delivers the call to the handler and its results back, the demos print 0 and the
  number of acquisitions that the blocking server counts, which is 0 as well.\<close>

lemma demo_client_prints:
  assumes "\<And>s var. call s var = (case demo_stat clt var of (ret, r) \<Rightarrow> (ret, Some r, s))"
  shows "demo_client_main 2 call junk s = Inr (0, s)"
  by (simp add: demo_client_main_def demo_client_stat_def assms demo_stat_def verified_call_def)

lemma lock_demo_prints:
  assumes "\<And>s lid. rpc_stat rpc s lid = (case ls_stat s lid of (ret, r) \<Rightarrow> (lock_status_code ret, Some r, s))"
  shows "lock_demo_main 2 rpc junk lock_server_ctor = Inr (0, lock_server_ctor)"
  by (simp add: lock_demo_main_def lc_stat_def assms ls_stat_def verified_call_def lock_server_ctor_def)

section \<open>What the programs serve\<close>

lemma extent_smain_serves:
  "extent_smain argc raw junk clk = Inr (er, im) \<longleftrightarrow> argc = 2 \<and> extent_server_ctor raw junk clk = Inr im
     \<and> er = map (\<lambda>p. (ext_number p, extent_server_handler p)) [Ext_get, Ext_getattr, Ext_put, Ext_remove, Ext_create]"
  by (cases "extent_server_ctor raw junk clk") (auto simp: extent_smain_def)

lemma lock_smain_serves:
  "lock_smain argc junk = Inr (lr, sv) \<longleftrightarrow> argc = 2 \<and> sv = lsc_ctor junk
     \<and> lr = map (\<lambda>p. (lock_number p, lock_server_cache_handler p)) [Lock_stat, Lock_release, Lock_acquire]"
  by (auto simp: lock_smain_def)

text \<open>The servers do start: with one argument each, on memory that the extent server can format.\<close>

lemma servers_start:
  assumes "good_raw raw" and "length mem = 101"
  shows "\<exists>er im lr. extent_smain 2 raw mem clk = Inr (er, im) \<and> im_wf im \<and> fs_view im = [1 \<mapsto> (1, [])]
     \<and> lock_smain 2 junk = Inr (lr, lsc_ctor junk)"
  using initial_store [OF assms, of clk] by (auto simp: extent_smain_def lock_smain_def)

end
